(* ===== verification/Ledger_Prelude.thy ===== *)
theory Ledger_Prelude
  imports Main "HOL-Library.Word" "HOL-Library.AList" "HOL-Library.Multiset"
begin

section \<open>Prelude: machine integers, errors, the runtime environment\<close>

text \<open>
  What every component shares: Go's \<^verbatim>\<open>int64\<close> as a 64-bit word read with
  \<^const>\<open>sint\<close>, the sentinel errors of the packages together with
  \<^verbatim>\<open>fmt.Errorf\<close> wrapping, and the environment record that stands for code that
  is not part of the repository (the uuid package, the wall clock, the text form of a
  \<^verbatim>\<open>time.Time\<close> in JSON, the iteration order of a Go map). The calls to the clock and
  to the uuid generator thread a \<open>gen\<close> value, which counts how many readings have been
  taken, so that two calls may return different values.
\<close>

named_theorems int64_simps \<open>exact 64-bit arithmetic under a range condition\<close>
named_theorems frame_simps \<open>tables a database operation leaves alone\<close>

type_synonym int64 = "64 word"
type_synonym time = int
type_synonym uuid = "128 word"

subsection \<open>Environment\<close>

record env =
  uuid_Parse :: "string \<Rightarrow> uuid option"
  uuid_String :: "uuid \<Rightarrow> string"
  uuid_seq :: "nat \<Rightarrow> uuid"
  clock :: "nat \<Rightarrow> time"
  json_time :: "time \<Rightarrow> string option"
  map_order :: "nat \<Rightarrow> string list \<Rightarrow> string list"

record gen =
  ticks :: nat
  drawn :: nat

definition time_Now :: "env \<Rightarrow> gen \<Rightarrow> time \<times> gen" where
  "time_Now e g = (clock e (ticks g), g\<lparr>ticks := Suc (ticks g)\<rparr>)"

definition uuid_NewV7 :: "env \<Rightarrow> gen \<Rightarrow> uuid \<times> gen" where
  "uuid_NewV7 e g = (uuid_seq e (drawn g), g\<lparr>drawn := Suc (drawn g)\<rparr>)"

text \<open>Documented behaviour of the uuid package: the canonical text of a UUID parses back to
  it, and generated UUIDs do not repeat (stated for the first \<open>n\<close> of them, since there are only
  finitely many 128-bit values).\<close>

definition uuid_codec :: "env \<Rightarrow> bool" where
  "uuid_codec e \<longleftrightarrow> (\<forall>u. uuid_Parse e (uuid_String e u) = Some u)"

definition uuid_unique :: "env \<Rightarrow> nat \<Rightarrow> bool" where
  "uuid_unique e n \<longleftrightarrow> inj_on (uuid_seq e) {..<n}"

text \<open>The Go specification leaves the order of a \<^verbatim>\<open>range\<close> over a map open: every key is
  visited exactly once.\<close>

definition map_range_ok :: "env \<Rightarrow> bool" where
  "map_range_ok e \<longleftrightarrow> (\<forall>n ks. mset (map_order e n ks) = mset ks)"

subsection \<open>Errors\<close>

datatype error =
    ErrInvalidCurrency
  | ErrCurrencyMismatch
  | ErrInvalidID
  | ErrNoEntries
  | ErrInsufficientEntries
  | ErrUnbalancedTransaction
  | ErrZeroAmount
  | ErrEmptyName
  | ErrInsufficientFunds
  | ErrAccountNotActive
  | ErrAccountZeroAmount
  | ErrSameAccount
  | ErrInvalidTransition
  | ErrAccountNotFound
  | ErrTransactionNotFound
  | ErrPgAccountNotFound
  | ErrVersionConflict
  | ErrViewNotFound
  | ErrNoRows
  | ErrExternal string
  | ErrText string
  | Wrap string error

text \<open>\<open>Wrap p err\<close> is \<^verbatim>\<open>fmt.Errorf("p: %w", err)\<close>; \<open>ErrText s\<close> is an error with a formatted
  text that wraps nothing; \<open>ErrExternal s\<close> is an error returned by a driver or a
  standard-library call.\<close>

primrec error_Error :: "error \<Rightarrow> string" where
  "error_Error ErrInvalidCurrency = ''invalid currency''"
| "error_Error ErrCurrencyMismatch = ''cannot operate on different currencies''"
| "error_Error ErrInvalidID = ''invalid identifier: must be valid UUID''"
| "error_Error ErrNoEntries = ''transaction requires at least one entry''"
| "error_Error ErrInsufficientEntries = ''transaction requires at least two entries''"
| "error_Error ErrUnbalancedTransaction =
     ''transaction is not balanced: total debits must equal total credits''"
| "error_Error ErrZeroAmount = ''entry amount must not be zero''"
| "error_Error ErrEmptyName = ''account name must not be empty''"
| "error_Error ErrInsufficientFunds = ''insufficient funds''"
| "error_Error ErrAccountNotActive = ''account is not active''"
| "error_Error ErrAccountZeroAmount = ''amount must not be zero''"
| "error_Error ErrSameAccount = ''cannot transfer to the same account''"
| "error_Error ErrInvalidTransition = ''invalid saga state transition''"
| "error_Error ErrAccountNotFound = ''account not found''"
| "error_Error ErrTransactionNotFound = ''transaction not found''"
| "error_Error ErrPgAccountNotFound = ''account not found''"
| "error_Error ErrVersionConflict =
     ''event version conflict: aggregate was modified concurrently''"
| "error_Error ErrViewNotFound = ''account not found in read model''"
| "error_Error ErrNoRows = ''no rows in result set''"
| "error_Error (ErrExternal s) = s"
| "error_Error (ErrText s) = s"
| "error_Error (Wrap p err) = p @ '': '' @ error_Error err"

text \<open>\<^verbatim>\<open>errors.Is\<close>: the error itself or one it wraps.\<close>

primrec errors_Is :: "error \<Rightarrow> error \<Rightarrow> bool" where
  "errors_Is (Wrap p err) target \<longleftrightarrow> Wrap p err = target \<or> errors_Is err target"
| "errors_Is ErrInvalidCurrency target \<longleftrightarrow> ErrInvalidCurrency = target"
| "errors_Is ErrCurrencyMismatch target \<longleftrightarrow> ErrCurrencyMismatch = target"
| "errors_Is ErrInvalidID target \<longleftrightarrow> ErrInvalidID = target"
| "errors_Is ErrNoEntries target \<longleftrightarrow> ErrNoEntries = target"
| "errors_Is ErrInsufficientEntries target \<longleftrightarrow> ErrInsufficientEntries = target"
| "errors_Is ErrUnbalancedTransaction target \<longleftrightarrow> ErrUnbalancedTransaction = target"
| "errors_Is ErrZeroAmount target \<longleftrightarrow> ErrZeroAmount = target"
| "errors_Is ErrEmptyName target \<longleftrightarrow> ErrEmptyName = target"
| "errors_Is ErrInsufficientFunds target \<longleftrightarrow> ErrInsufficientFunds = target"
| "errors_Is ErrAccountNotActive target \<longleftrightarrow> ErrAccountNotActive = target"
| "errors_Is ErrAccountZeroAmount target \<longleftrightarrow> ErrAccountZeroAmount = target"
| "errors_Is ErrSameAccount target \<longleftrightarrow> ErrSameAccount = target"
| "errors_Is ErrInvalidTransition target \<longleftrightarrow> ErrInvalidTransition = target"
| "errors_Is ErrAccountNotFound target \<longleftrightarrow> ErrAccountNotFound = target"
| "errors_Is ErrTransactionNotFound target \<longleftrightarrow> ErrTransactionNotFound = target"
| "errors_Is ErrPgAccountNotFound target \<longleftrightarrow> ErrPgAccountNotFound = target"
| "errors_Is ErrVersionConflict target \<longleftrightarrow> ErrVersionConflict = target"
| "errors_Is ErrViewNotFound target \<longleftrightarrow> ErrViewNotFound = target"
| "errors_Is ErrNoRows target \<longleftrightarrow> ErrNoRows = target"
| "errors_Is (ErrExternal s) target \<longleftrightarrow> ErrExternal s = target"
| "errors_Is (ErrText s) target \<longleftrightarrow> ErrText s = target"

subsection \<open>Decimal text of a natural number (\<^verbatim>\<open>%d\<close>)\<close>

definition digit :: "nat \<Rightarrow> char" where
  "digit n = char_of (48 + n)"

fun decimal :: "nat \<Rightarrow> string" where
  "decimal n = (if n < 10 then [digit n] else decimal (n div 10) @ [digit (n mod 10)])"

fun undecimal :: "nat \<Rightarrow> string \<Rightarrow> nat" where
  "undecimal acc [] = acc"
| "undecimal acc (c # cs) = undecimal (10 * acc + (of_char c - 48)) cs"

declare decimal.simps [simp del]

text \<open>A concrete environment for the witnesses: UUIDs are numbered from one and printed in decimal,
  the clock advances by one, a map is visited in insertion order.\<close>

definition sample_env :: env where
  "sample_env = \<lparr>
     uuid_Parse = (\<lambda>s. if decimal (undecimal 0 s) = s \<and> int (undecimal 0 s) < 2 ^ 128
                       then Some (of_nat (undecimal 0 s)) else None),
     uuid_String = (\<lambda>u. decimal (unat u)),
     uuid_seq = (\<lambda>n. of_nat (Suc n)),
     clock = int,
     json_time = (\<lambda>t. Some (decimal (nat t))),
     map_order = (\<lambda>n ks. ks)\<rparr>"

definition sample_gen :: gen where
  "sample_gen = \<lparr>ticks = 0, drawn = 0\<rparr>"

definition in_int64 :: "int \<Rightarrow> bool" where
  "in_int64 k \<longleftrightarrow> - (2 ^ 63) \<le> k \<and> k < 2 ^ 63"

subsection \<open>Lemmas\<close>

lemma sint_in_int64 [simp]: "in_int64 (sint (a :: int64))"
  using sint_ge [of a] sint_lt [of a] by (simp add: in_int64_def)

lemma sint_plus_exact [int64_simps]:
  "in_int64 (sint a + sint b) \<Longrightarrow> sint (a + b) = sint a + sint (b :: int64)"
  by (simp add: sint_word_ariths in_int64_def signed_take_bit_int_eq_self)

lemma sint_minus_exact [int64_simps]:
  "in_int64 (sint a - sint b) \<Longrightarrow> sint (a - b) = sint a - sint (b :: int64)"
  by (simp add: sint_word_ariths in_int64_def signed_take_bit_int_eq_self)

lemma sint_of_nat_small [int64_simps]: "n < 2 ^ 63 \<Longrightarrow> sint (of_nat n :: int64) = int n"
  by (simp add: signed_of_nat signed_take_bit_int_eq_self)

lemma sint_zero_iff: "sint (a :: int64) = 0 \<longleftrightarrow> a = 0"
  by (metis signed_0 signed_word_eqI)

lemma take_3: "3 \<le> length xs \<Longrightarrow> take 3 xs = [xs ! 0, xs ! 1, xs ! 2]"
  by (cases xs; cases "tl xs"; cases "tl (tl xs)") (auto simp: numeral_3_eq_3 numeral_2_eq_2)

lemma set_map_filter_Some: "set (List.map_filter f xs) = {y. \<exists>x\<in>set xs. f x = Some y}"
  by (induction xs) (auto simp: map_filter_simps split: option.splits)

lemma errors_Is_refl [simp]: "errors_Is err err"
  by (cases err) simp_all

lemma of_char_digit: "n < 10 \<Longrightarrow> of_char (digit n) = 48 + n"
  by (simp add: digit_def)

lemma undecimal_append: "undecimal acc (xs @ ys) = undecimal (undecimal acc xs) ys"
  by (induction xs arbitrary: acc) simp_all

lemma undecimal_decimal [simp]: "undecimal 0 (decimal n) = n"
proof (induction n rule: decimal.induct)
  case (1 n)
  then show ?case
    by (subst decimal.simps) (auto simp: undecimal_append of_char_digit)
qed

lemma decimal_inject [simp]: "decimal m = decimal n \<longleftrightarrow> m = n"
  by (metis undecimal_decimal)

lemma uuid_String_inject: "uuid_codec e \<Longrightarrow> uuid_String e u = uuid_String e v \<longleftrightarrow> u = v"
  by (metis option.inject uuid_codec_def)

lemma uuid_seq_inject:
  "uuid_unique e N \<Longrightarrow> m < N \<Longrightarrow> n < N \<Longrightarrow> uuid_seq e m = uuid_seq e n \<longleftrightarrow> m = n"
  by (auto simp: uuid_unique_def inj_on_def)

lemma map_range_set: "map_range_ok e \<Longrightarrow> set (map_order e n ks) = set ks"
  by (metis map_range_ok_def set_mset_mset)

lemma map_range_distinct: "map_range_ok e \<Longrightarrow> distinct (map_order e n ks) = distinct ks"
  by (metis map_range_ok_def mset_eq_imp_distinct_iff)

lemma sample_env_simps [simp]:
  "uuid_String sample_env u = decimal (unat u)"
  "uuid_seq sample_env n = of_nat (Suc n)"
  "clock sample_env n = int n"
  "json_time sample_env t = Some (decimal (nat t))"
  "map_order sample_env n ks = ks"
  by (simp_all add: sample_env_def)

lemma sample_env_codec [simp]: "uuid_codec sample_env"
proof -
  have "unat (u :: uuid) < 2 ^ 128" for u using unsigned_less [of u] by simp
  then show ?thesis by (simp add: uuid_codec_def sample_env_def)
qed

lemma sample_env_range [simp]: "map_range_ok sample_env"
  by (simp add: map_range_ok_def)

lemma sample_env_unique [simp]: "uuid_unique sample_env 1000"
proof (unfold uuid_unique_def, rule inj_onI)
  fix m n :: nat
  assume "m \<in> {..<1000}" "n \<in> {..<1000}" "uuid_seq sample_env m = uuid_seq sample_env n"
  then have "unat (of_nat (Suc m) :: uuid) = unat (of_nat (Suc n) :: uuid)"
    "m < 1000" "n < 1000" by (simp_all del: of_nat_Suc)
  then show "m = n" by (simp add: unat_of_nat del: of_nat_Suc)
qed

end
