(* ===== verification/Ledger_Money.thy ===== *)
theory Ledger_Money
  imports Ledger_Prelude
begin

section \<open>Money (internal/domain/ledger/money.go)\<close>

text \<open>
  A currency is a Go string type, so any text is a \<open>Currency\<close>; \<open>NewMoney\<close> is the check that
  admits five of them. The amount is an \<^verbatim>\<open>int64\<close> in the smallest unit: the source adds,
  subtracts and negates it with Go's wrapping operators, and the word operations of the
  model wrap in the same way. The lemmas give the group laws, which hold with wrap-around,
  and the condition under which the result is the exact integer one.
\<close>

datatype Currency = Currency (Currency_string: string)

definition USD :: Currency where
  "USD = Currency ''USD''"

definition MYR :: Currency where
  "MYR = Currency ''MYR''"

definition SGD :: Currency where
  "SGD = Currency ''SGD''"

definition EUR :: Currency where
  "EUR = Currency ''EUR''"

definition GBP :: Currency where
  "GBP = Currency ''GBP''"

text \<open>A Go map lookup of a missing key gives the zero value, here \<^verbatim>\<open>false\<close>.\<close>

definition validCurrencies :: "Currency \<Rightarrow> bool" where
  "validCurrencies c \<longleftrightarrow> c \<in> set [USD, MYR, SGD, EUR, GBP]"

record Money =
  amount :: int64
  currency :: Currency

definition NewMoney :: "int64 \<Rightarrow> Currency \<Rightarrow> error + Money" where
  "NewMoney n c =
     (if \<not> validCurrencies c then Inl ErrInvalidCurrency
      else Inr \<lparr>amount = n, currency = c\<rparr>)"

definition Money_IsZero :: "Money \<Rightarrow> bool" where
  "Money_IsZero m \<longleftrightarrow> amount m = 0"

definition Money_Add :: "Money \<Rightarrow> Money \<Rightarrow> error + Money" where
  "Money_Add m other =
     (if currency m \<noteq> currency other then Inl ErrCurrencyMismatch
      else Inr \<lparr>amount = amount m + amount other, currency = currency m\<rparr>)"

definition Money_Subtract :: "Money \<Rightarrow> Money \<Rightarrow> error + Money" where
  "Money_Subtract m other =
     (if currency m \<noteq> currency other then Inl ErrCurrencyMismatch
      else Inr \<lparr>amount = amount m - amount other, currency = currency m\<rparr>)"

definition Money_Negate :: "Money \<Rightarrow> Money" where
  "Money_Negate m = \<lparr>amount = - amount m, currency = currency m\<rparr>"

definition Money_Equals :: "Money \<Rightarrow> Money \<Rightarrow> bool" where
  "Money_Equals m other \<longleftrightarrow> amount m = amount other \<and> currency m = currency other"

text \<open>"If it exists, it's valid": the well-formedness the constructor establishes.\<close>

definition Money_ok :: "Money \<Rightarrow> bool" where
  "Money_ok m \<longleftrightarrow> validCurrencies (currency m)"

lemmas currency_defs = USD_def MYR_def SGD_def EUR_def GBP_def

subsection \<open>Shared lemmas\<close>

lemma validCurrencies_consts [simp]:
  "validCurrencies USD" "validCurrencies MYR" "validCurrencies SGD"
  "validCurrencies EUR" "validCurrencies GBP"
  by (simp_all add: validCurrencies_def)

lemma not_valid_empty [simp]: "\<not> validCurrencies (Currency '''')"
  by (simp add: validCurrencies_def currency_defs)

lemma NewMoney_eq_Inr_iff [simp]:
  "NewMoney n c = Inr m \<longleftrightarrow> validCurrencies c \<and> m = \<lparr>amount = n, currency = c\<rparr>"
  by (auto simp: NewMoney_def)

lemma NewMoney_eq_Inl_iff [simp]:
  "NewMoney n c = Inl err \<longleftrightarrow> \<not> validCurrencies c \<and> err = ErrInvalidCurrency"
  by (auto simp: NewMoney_def)

lemma Money_Add_eq_Inr_iff:
  "Money_Add m n = Inr s \<longleftrightarrow>
     currency m = currency n \<and> amount s = amount m + amount n \<and> currency s = currency m"
  by (auto simp: Money_Add_def)

lemma Money_Subtract_eq_Inr_iff:
  "Money_Subtract m n = Inr s \<longleftrightarrow>
     currency m = currency n \<and> amount s = amount m - amount n \<and> currency s = currency m"
  by (auto simp: Money_Subtract_def)

lemma Money_arith_error:
  "Money_Add m n = Inl err \<Longrightarrow> err = ErrCurrencyMismatch \<and> currency m \<noteq> currency n"
  "Money_Subtract m n = Inl err \<Longrightarrow> err = ErrCurrencyMismatch \<and> currency m \<noteq> currency n"
  by (auto simp: Money_Add_def Money_Subtract_def split: if_splits)

lemma Money_Equals_iff [simp]: "Money_Equals m n \<longleftrightarrow> m = n"
  by (auto simp: Money_Equals_def)

lemma Money_ok_preserved:
  "NewMoney k c = Inr m \<Longrightarrow> Money_ok m"
  "Money_Add m n = Inr s \<Longrightarrow> Money_ok m \<Longrightarrow> Money_ok s"
  "Money_Subtract m n = Inr s \<Longrightarrow> Money_ok m \<Longrightarrow> Money_ok s"
  "Money_ok m \<Longrightarrow> Money_ok (Money_Negate m)"
  by (auto simp: Money_ok_def Money_Add_eq_Inr_iff Money_Subtract_eq_Inr_iff Money_Negate_def)

lemma Money_Negate_Negate [simp]: "Money_Negate (Money_Negate m) = m"
  by (simp add: Money_Negate_def)

lemma Money_Subtract_is_Add_Negate: "Money_Subtract m n = Money_Add m (Money_Negate n)"
  by (simp add: Money_Subtract_def Money_Add_def Money_Negate_def)

subsection \<open>Properties\<close>

text \<open>Adding an amount and subtracting it again gives the original money back, for every pair of
  amounts of the same currency, overflowing ones included.\<close>

lemma Money_Add_Subtract_roundtrip:
  assumes "currency m = currency n"
  shows "\<exists>s. Money_Add m n = Inr s \<and> Money_Subtract s n = Inr m"
  using assms by (auto simp: Money_Add_def Money_Subtract_def)

lemma Money_Add_Subtract_roundtrip_witness:
  "\<exists>s. Money_Add \<lparr>amount = 9223372036854775807, currency = USD\<rparr> \<lparr>amount = 1, currency = USD\<rparr> = Inr s
     \<and> Money_Subtract s \<lparr>amount = 1, currency = USD\<rparr>
         = Inr \<lparr>amount = 9223372036854775807, currency = USD\<rparr>"
  using Money_Add_Subtract_roundtrip
    [of "\<lparr>amount = 9223372036854775807, currency = USD\<rparr>" "\<lparr>amount = 1, currency = USD\<rparr>"]
  by simp

text \<open>The amount of a sum is the integer sum exactly when that sum fits an int64.\<close>

lemma Money_Add_exact_iff:
  assumes "Money_Add m n = Inr s"
  shows "sint (amount s) = sint (amount m) + sint (amount n)
           \<longleftrightarrow> in_int64 (sint (amount m) + sint (amount n))"
  using assms by (metis Money_Add_eq_Inr_iff sint_in_int64 sint_plus_exact)

lemma Money_Add_exact_iff_witness:
  "\<not> sint (amount (\<lparr>amount = 9223372036854775807 + 1, currency = EUR\<rparr>))
       = sint (9223372036854775807 :: int64) + sint (1 :: int64)"
  using Money_Add_exact_iff
    [of "\<lparr>amount = 9223372036854775807, currency = EUR\<rparr>" "\<lparr>amount = 1, currency = EUR\<rparr>"
        "\<lparr>amount = 9223372036854775807 + 1, currency = EUR\<rparr>"]
  by (simp add: Money_Add_def in_int64_def)

end
