(* ===== verification/Ledger_Identifiers.thy ===== *)
theory Ledger_Identifiers
  imports Ledger_Prelude
begin

section \<open>Identifiers (internal/domain/ledger/identifiers.go)\<close>

text \<open>
  Three wrapper types around a UUID. Parsing, printing and generating the UUID itself is the
  uuid package's work (fields of \<^typ>\<open>env\<close>); the zero value of each type holds
  \<^verbatim>\<open>uuid.Nil\<close>.
\<close>

datatype AccountID = AccountID (AccountID_value: uuid)

datatype TransactionID = TransactionID (TransactionID_value: uuid)

datatype EntryID = EntryID (EntryID_value: uuid)

definition NewAccountID :: "env \<Rightarrow> string \<Rightarrow> error + AccountID" where
  "NewAccountID e s =
     (case uuid_Parse e s of
        None \<Rightarrow> Inl ErrInvalidID
      | Some parsed \<Rightarrow> Inr (AccountID parsed))"

definition GenerateAccountID :: "env \<Rightarrow> gen \<Rightarrow> AccountID \<times> gen" where
  "GenerateAccountID e g = (case uuid_NewV7 e g of (u, g') \<Rightarrow> (AccountID u, g'))"

definition AccountID_String :: "env \<Rightarrow> AccountID \<Rightarrow> string" where
  "AccountID_String e i = uuid_String e (AccountID_value i)"

definition AccountID_IsZero :: "AccountID \<Rightarrow> bool" where
  "AccountID_IsZero i \<longleftrightarrow> AccountID_value i = 0"

definition AccountID_Equals :: "AccountID \<Rightarrow> AccountID \<Rightarrow> bool" where
  "AccountID_Equals i j \<longleftrightarrow> AccountID_value i = AccountID_value j"

definition NewTransactionID :: "env \<Rightarrow> string \<Rightarrow> error + TransactionID" where
  "NewTransactionID e s =
     (case uuid_Parse e s of
        None \<Rightarrow> Inl ErrInvalidID
      | Some parsed \<Rightarrow> Inr (TransactionID parsed))"

definition GenerateTransactionID :: "env \<Rightarrow> gen \<Rightarrow> TransactionID \<times> gen" where
  "GenerateTransactionID e g = (case uuid_NewV7 e g of (u, g') \<Rightarrow> (TransactionID u, g'))"

definition TransactionID_String :: "env \<Rightarrow> TransactionID \<Rightarrow> string" where
  "TransactionID_String e i = uuid_String e (TransactionID_value i)"

definition TransactionID_IsZero :: "TransactionID \<Rightarrow> bool" where
  "TransactionID_IsZero i \<longleftrightarrow> TransactionID_value i = 0"

definition TransactionID_Equals :: "TransactionID \<Rightarrow> TransactionID \<Rightarrow> bool" where
  "TransactionID_Equals i j \<longleftrightarrow> TransactionID_value i = TransactionID_value j"

definition NewEntryID :: "env \<Rightarrow> string \<Rightarrow> error + EntryID" where
  "NewEntryID e s =
     (case uuid_Parse e s of
        None \<Rightarrow> Inl ErrInvalidID
      | Some parsed \<Rightarrow> Inr (EntryID parsed))"

definition GenerateEntryID :: "env \<Rightarrow> gen \<Rightarrow> EntryID \<times> gen" where
  "GenerateEntryID e g = (case uuid_NewV7 e g of (u, g') \<Rightarrow> (EntryID u, g'))"

definition EntryID_String :: "env \<Rightarrow> EntryID \<Rightarrow> string" where
  "EntryID_String e i = uuid_String e (EntryID_value i)"

definition EntryID_IsZero :: "EntryID \<Rightarrow> bool" where
  "EntryID_IsZero i \<longleftrightarrow> EntryID_value i = 0"

lemmas generate_defs =
  GenerateAccountID_def GenerateTransactionID_def GenerateEntryID_def uuid_NewV7_def time_Now_def

subsection \<open>Identifier wrappers as one interface\<close>

text \<open>The three types share one contract: text and parser are inverse, and the printed text
  identifies the value.\<close>

locale id_wrapper =
  fixes new_id :: "env \<Rightarrow> string \<Rightarrow> error + 'i"
    and id_string :: "env \<Rightarrow> 'i \<Rightarrow> string"
    and wrap :: "uuid \<Rightarrow> 'i"
    and unwrap :: "'i \<Rightarrow> uuid"
  assumes unwrap_wrap: "unwrap (wrap u) = u"
    and wrap_unwrap: "wrap (unwrap i) = i"
    and id_string_eq: "id_string e i = uuid_String e (unwrap i)"
    and new_id_eq: "new_id e s =
      (case uuid_Parse e s of None \<Rightarrow> Inl ErrInvalidID | Some u \<Rightarrow> Inr (wrap u))"
begin

lemma parse_print: "uuid_codec e \<Longrightarrow> new_id e (id_string e i) = Inr i"
  by (simp add: id_string_eq new_id_eq uuid_codec_def wrap_unwrap)

lemma print_inject: "uuid_codec e \<Longrightarrow> id_string e i = id_string e j \<longleftrightarrow> i = j"
  by (metis id_string_eq uuid_String_inject wrap_unwrap)

lemma only_error: "new_id e s = Inl err \<Longrightarrow> err = ErrInvalidID \<and> uuid_Parse e s = None"
  by (auto simp: new_id_eq split: option.splits)

end

interpretation account_id: id_wrapper NewAccountID AccountID_String AccountID AccountID_value
  by unfold_locales (simp_all add: NewAccountID_def AccountID_String_def)

interpretation transaction_id:
  id_wrapper NewTransactionID TransactionID_String TransactionID TransactionID_value
  by unfold_locales (simp_all add: NewTransactionID_def TransactionID_String_def)

interpretation entry_id: id_wrapper NewEntryID EntryID_String EntryID EntryID_value
  by unfold_locales (simp_all add: NewEntryID_def EntryID_String_def)

lemma AccountID_Equals_iff [simp]: "AccountID_Equals i j \<longleftrightarrow> i = j"
  by (auto simp: AccountID_Equals_def intro: AccountID.expand)

lemma TransactionID_Equals_iff [simp]: "TransactionID_Equals i j \<longleftrightarrow> i = j"
  by (auto simp: TransactionID_Equals_def intro: TransactionID.expand)

end
