(* ===== verification/Ledger_Transaction.thy ===== *)
theory Ledger_Transaction
  imports Ledger_Money Ledger_Identifiers
begin

section \<open>Entries and transactions (internal/domain/ledger/entry.go, transaction.go)\<close>

text \<open>
  The double-entry core. An entry type is an unrestricted Go string with two declared values;
  the balance check of \<open>NewTransaction\<close> adds the amounts of the debit entries and of the
  credit entries with wrapping int64 arithmetic and compares the two sums, and entries of any
  other type are passed over by its \<^verbatim>\<open>switch\<close>. The lemmas characterise acceptance
  exactly, give the order in which the checks report, and relate the wrapped sums to the
  integer ones.
\<close>

datatype EntryType = EntryType (EntryType_string: string)

definition Debit :: EntryType where
  "Debit = EntryType ''DEBIT''"

definition Credit :: EntryType where
  "Credit = EntryType ''CREDIT''"

record EntryParams =
  ep_AccountID :: AccountID
  ep_Amount :: Money
  ep_Type :: EntryType

record Entry =
  e_id :: EntryID
  e_accountID :: AccountID
  e_amount :: Money
  e_entryType :: EntryType
  e_createdAt :: time

record Transaction =
  tx_id :: TransactionID
  tx_entries :: "Entry list"
  tx_description :: string
  tx_createdAt :: time

definition newEntry :: "env \<Rightarrow> EntryParams \<Rightarrow> time \<Rightarrow> gen \<Rightarrow> Entry \<times> gen" where
  "newEntry e params now g =
     (case GenerateEntryID e g of (i, g') \<Rightarrow>
        (\<lparr>e_id = i, e_accountID = ep_AccountID params, e_amount = ep_Amount params,
          e_entryType = ep_Type params, e_createdAt = now\<rparr>, g'))"

subsection \<open>The loops of NewTransaction\<close>

fun all_nonzero :: "EntryParams list \<Rightarrow> bool" where
  "all_nonzero [] = True"
| "all_nonzero (p # ps) = (if Money_IsZero (ep_Amount p) then False else all_nonzero ps)"

fun all_currency :: "Currency \<Rightarrow> EntryParams list \<Rightarrow> bool" where
  "all_currency c [] = True"
| "all_currency c (p # ps) =
     (if currency (ep_Amount p) \<noteq> c then False else all_currency c ps)"

fun entry_totals :: "EntryParams list \<Rightarrow> int64 \<Rightarrow> int64 \<Rightarrow> int64 \<times> int64" where
  "entry_totals [] totalDebits totalCredits = (totalDebits, totalCredits)"
| "entry_totals (p # ps) totalDebits totalCredits =
     (if ep_Type p = Debit then entry_totals ps (totalDebits + amount (ep_Amount p)) totalCredits
      else if ep_Type p = Credit
        then entry_totals ps totalDebits (totalCredits + amount (ep_Amount p))
      else entry_totals ps totalDebits totalCredits)"

fun newEntries :: "env \<Rightarrow> EntryParams list \<Rightarrow> time \<Rightarrow> gen \<Rightarrow> Entry list \<times> gen" where
  "newEntries e [] now g = ([], g)"
| "newEntries e (p # ps) now g =
     (case newEntry e p now g of (x, g1) \<Rightarrow>
        (case newEntries e ps now g1 of (xs, g2) \<Rightarrow> (x # xs, g2)))"

definition NewTransaction ::
  "env \<Rightarrow> EntryParams list \<Rightarrow> string \<Rightarrow> gen \<Rightarrow> (error + Transaction) \<times> gen" where
  "NewTransaction e params description g =
     (if length params = 0 then (Inl ErrNoEntries, g)
      else if length params < 2 then (Inl ErrInsufficientEntries, g)
      else if \<not> all_nonzero params then (Inl ErrZeroAmount, g)
      else if \<not> all_currency (currency (ep_Amount (hd params))) (tl params)
        then (Inl ErrCurrencyMismatch, g)
      else
        let (totalDebits, totalCredits) = entry_totals params 0 0 in
        if totalDebits \<noteq> totalCredits then (Inl ErrUnbalancedTransaction, g)
        else
          let (now, g1) = time_Now e g;
              (entries, g2) = newEntries e params now g1;
              (i, g3) = GenerateTransactionID e g2
          in (Inr \<lparr>tx_id = i, tx_entries = entries, tx_description = description,
                   tx_createdAt = now\<rparr>, g3))"

text \<open>\<^verbatim>\<open>Entries()\<close> returns a copy of the slice; values are copied anyway in the model.\<close>

definition Transaction_Entries :: "Transaction \<Rightarrow> Entry list" where
  "Transaction_Entries t = tx_entries t"

subsection \<open>Abstract view of a list of legs\<close>

text \<open>What a leg does to the balance of its account: a credit adds, a debit subtracts, an entry of
  any other type does nothing.\<close>

definition signed_leg :: "EntryType \<Rightarrow> int64 \<Rightarrow> int64" where
  "signed_leg ty n = (if ty = Debit then - n else if ty = Credit then n else 0)"

definition leg_delta :: "Entry \<Rightarrow> int64" where
  "leg_delta x = signed_leg (e_entryType x) (amount (e_amount x))"

definition params_of :: "Entry \<Rightarrow> EntryParams" where
  "params_of x = \<lparr>ep_AccountID = e_accountID x, ep_Amount = e_amount x, ep_Type = e_entryType x\<rparr>"

definition legs_total :: "EntryType \<Rightarrow> EntryParams list \<Rightarrow> int64" where
  "legs_total ty ps = sum_list (map (\<lambda>p. amount (ep_Amount p)) (filter (\<lambda>p. ep_Type p = ty) ps))"

definition legs_int_total :: "EntryType \<Rightarrow> EntryParams list \<Rightarrow> int" where
  "legs_int_total ty ps =
     sum_list (map (\<lambda>p. sint (amount (ep_Amount p))) (filter (\<lambda>p. ep_Type p = ty) ps))"

definition params_ok :: "EntryParams list \<Rightarrow> bool" where
  "params_ok ps \<longleftrightarrow>
     2 \<le> length ps \<and> (\<forall>p\<in>set ps. amount (ep_Amount p) \<noteq> 0)
     \<and> (\<forall>p\<in>set ps. \<forall>q\<in>set ps. currency (ep_Amount p) = currency (ep_Amount q))
     \<and> legs_total Debit ps = legs_total Credit ps"

definition Transaction_ok :: "Transaction \<Rightarrow> bool" where
  "Transaction_ok t \<longleftrightarrow> params_ok (map params_of (tx_entries t))
     \<and> (\<forall>x\<in>set (tx_entries t). e_createdAt x = tx_createdAt t)"

definition sample_legs :: "EntryParams list" where
  "sample_legs =
     [\<lparr>ep_AccountID = AccountID 1, ep_Amount = \<lparr>amount = 500, currency = USD\<rparr>, ep_Type = Debit\<rparr>,
      \<lparr>ep_AccountID = AccountID 2, ep_Amount = \<lparr>amount = 500, currency = USD\<rparr>, ep_Type = Credit\<rparr>]"

subsection \<open>Lemmas on the loops\<close>

lemma Debit_neq_Credit [simp]: "Debit \<noteq> Credit" "Credit \<noteq> Debit"
  by (simp_all add: Debit_def Credit_def)

lemma all_nonzero_iff: "all_nonzero ps \<longleftrightarrow> (\<forall>p\<in>set ps. amount (ep_Amount p) \<noteq> 0)"
  by (induction ps) (auto simp: Money_IsZero_def)

lemma all_currency_iff: "all_currency c ps \<longleftrightarrow> (\<forall>p\<in>set ps. currency (ep_Amount p) = c)"
  by (induction ps) auto

lemma legs_total_simps [simp]:
  "legs_total ty [] = 0"
  "legs_total ty (p # ps) =
     (if ep_Type p = ty then amount (ep_Amount p) + legs_total ty ps else legs_total ty ps)"
  by (simp_all add: legs_total_def)

lemma legs_int_total_simps [simp]:
  "legs_int_total ty [] = 0"
  "legs_int_total ty (p # ps) =
     (if ep_Type p = ty then sint (amount (ep_Amount p)) + legs_int_total ty ps
      else legs_int_total ty ps)"
  by (simp_all add: legs_int_total_def)

lemma entry_totals_eq:
  "entry_totals ps d c = (d + legs_total Debit ps, c + legs_total Credit ps)"
  by (induction ps arbitrary: d c) (simp_all add: add.assoc)

lemma legs_total_of_int: "legs_total ty ps = of_int (legs_int_total ty ps)"
  by (induction ps) simp_all

lemma legs_total_exact:
  "in_int64 (legs_int_total ty ps) \<Longrightarrow> sint (legs_total ty ps) = legs_int_total ty ps"
  by (simp add: legs_total_of_int in_int64_def int_word_sint)

lemma legs_int_total_mod: "legs_int_total ty ps mod 2 ^ 64 = uint (legs_total ty ps)"
  by (simp add: legs_total_of_int unsigned_of_int take_bit_eq_mod)

lemma sum_leg_delta:
  "sum_list (map leg_delta xs)
     = legs_total Credit (map params_of xs) - legs_total Debit (map params_of xs)"
  by (induction xs) (simp_all add: leg_delta_def signed_leg_def params_of_def)

lemma newEntry_simps [simp]:
  "params_of (fst (newEntry e p now g)) = p"
  "e_createdAt (fst (newEntry e p now g)) = now"
  "e_id (fst (newEntry e p now g)) = EntryID (uuid_seq e (drawn g))"
  "snd (newEntry e p now g) = g\<lparr>drawn := Suc (drawn g)\<rparr>"
  by (simp_all add: newEntry_def params_of_def generate_defs)

lemma newEntries_spec:
  assumes "newEntries e ps now g = (xs, g')"
  shows "map params_of xs = ps" "\<forall>x\<in>set xs. e_createdAt x = now"
    and "map e_id xs = map (EntryID \<circ> uuid_seq e) [drawn g..<drawn g + length ps]"
    and "g' = g\<lparr>drawn := drawn g + length ps\<rparr>"
proof -
  have "map params_of xs = ps \<and> (\<forall>x\<in>set xs. e_createdAt x = now)
    \<and> map e_id xs = map (EntryID \<circ> uuid_seq e) [drawn g..<drawn g + length ps]
    \<and> g' = g\<lparr>drawn := drawn g + length ps\<rparr>"
    using assms
  proof (induction ps arbitrary: g xs g')
    case Nil
    then show ?case by simp
  next
    case (Cons p ps)
    obtain x g1 where x: "newEntry e p now g = (x, g1)" by fastforce
    obtain ys g2 where ys: "newEntries e ps now g1 = (ys, g2)" by fastforce
    from x newEntry_simps [of e p now g]
    have hd: "params_of x = p" "e_createdAt x = now" "e_id x = EntryID (uuid_seq e (drawn g))"
      "g1 = g\<lparr>drawn := Suc (drawn g)\<rparr>" by simp_all
    from Cons.prems x ys have "xs = x # ys" "g' = g2" by simp_all
    with Cons.IH [OF ys] hd show ?case by (simp add: upt_rec)
  qed
  then show "map params_of xs = ps" "\<forall>x\<in>set xs. e_createdAt x = now"
    and "map e_id xs = map (EntryID \<circ> uuid_seq e) [drawn g..<drawn g + length ps]"
    and "g' = g\<lparr>drawn := drawn g + length ps\<rparr>" by blast+
qed

lemma params_ok_iff:
  "params_ok ps \<longleftrightarrow> 2 \<le> length ps \<and> all_nonzero ps
     \<and> all_currency (currency (ep_Amount (hd ps))) (tl ps)
     \<and> fst (entry_totals ps 0 0) = snd (entry_totals ps 0 0)"
  by (cases ps) (auto simp: params_ok_def all_nonzero_iff all_currency_iff entry_totals_eq)

lemma NewTransaction_accepted:
  assumes "params_ok ps"
  obtains xs where "NewTransaction e ps d g =
      (Inr \<lparr>tx_id = TransactionID (uuid_seq e (drawn g + length ps)), tx_entries = xs,
            tx_description = d, tx_createdAt = clock e (ticks g)\<rparr>,
       g\<lparr>ticks := Suc (ticks g), drawn := Suc (drawn g + length ps)\<rparr>)"
    and "map params_of xs = ps" and "\<forall>x\<in>set xs. e_createdAt x = clock e (ticks g)"
    and "map e_id xs = map (EntryID \<circ> uuid_seq e) [drawn g..<drawn g + length ps]"
proof -
  let ?g1 = "g\<lparr>ticks := Suc (ticks g)\<rparr>"
  obtain xs g2 where xs: "newEntries e ps (clock e (ticks g)) ?g1 = (xs, g2)" by fastforce
  note sp = newEntries_spec [OF xs]
  from assms have len: "2 \<le> length ps" by (simp add: params_ok_def)
  have "NewTransaction e ps d g =
      (Inr \<lparr>tx_id = TransactionID (uuid_seq e (drawn g + length ps)), tx_entries = xs,
            tx_description = d, tx_createdAt = clock e (ticks g)\<rparr>,
       g\<lparr>ticks := Suc (ticks g), drawn := Suc (drawn g + length ps)\<rparr>)"
    using assms len xs sp(4)
    by (auto simp: NewTransaction_def params_ok_iff generate_defs Let_def split: prod.splits)
  with sp that show ?thesis by simp
qed

lemma NewTransaction_total:
  "params_ok ps \<Longrightarrow> \<exists>t g'. NewTransaction e ps d g = (Inr t, g') \<and> drawn g' = Suc (drawn g + length ps)"
  by (rule NewTransaction_accepted [of ps e d g]) auto

lemma NewTransaction_rejected:
  assumes "\<not> params_ok ps"
  shows "\<exists>err. NewTransaction e ps d g = (Inl err, g)"
  using assms by (auto simp: NewTransaction_def params_ok_iff Let_def split: prod.splits)

lemma NewTransaction_drawn: "NewTransaction e ps d g = (r, g') \<Longrightarrow> drawn g \<le> drawn g'"
  using NewTransaction_total [of ps e d g] NewTransaction_rejected [of ps e d g] by (cases "params_ok ps") auto

lemma NewTransaction_InrD:
  assumes "NewTransaction e ps d g = (Inr t, g')"
  shows "params_ok ps" "map params_of (tx_entries t) = ps" "Transaction_ok t"
    and "tx_description t = d"
proof -
  show ok: "params_ok ps"
    using assms NewTransaction_rejected [of ps e d g] by fastforce
  obtain xs where
    new: "NewTransaction e ps d g =
      (Inr \<lparr>tx_id = TransactionID (uuid_seq e (drawn g + length ps)), tx_entries = xs,
            tx_description = d, tx_createdAt = clock e (ticks g)\<rparr>,
       g\<lparr>ticks := Suc (ticks g), drawn := Suc (drawn g + length ps)\<rparr>)"
    and xs: "map params_of xs = ps" "\<forall>x\<in>set xs. e_createdAt x = clock e (ticks g)"
    by (rule NewTransaction_accepted [OF ok])
  from new assms have t: "t = \<lparr>tx_id = TransactionID (uuid_seq e (drawn g + length ps)),
    tx_entries = xs, tx_description = d, tx_createdAt = clock e (ticks g)\<rparr>"
    by simp
  show "map params_of (tx_entries t) = ps" and "tx_description t = d" and "Transaction_ok t"
    using ok xs by (simp_all add: t Transaction_ok_def)
qed

lemma NewTransaction_InlD: "NewTransaction e ps d g = (Inl err, g') \<Longrightarrow> g' = g \<and> \<not> params_ok ps"
  by (metis Inl_Inr_False NewTransaction_accepted NewTransaction_rejected prod.inject)

lemma Transaction_ok_sum_zero: "Transaction_ok t \<Longrightarrow> sum_list (map leg_delta (tx_entries t)) = 0"
  by (simp add: Transaction_ok_def params_ok_def sum_leg_delta)

subsection \<open>Properties\<close>

text \<open>C23. The result of NewTransaction on every input: which check reports, in the order of the
  source, and otherwise a transaction whose entries are the given legs, in order, all stamped
  with the one clock reading.\<close>

theorem NewTransaction_result:
  "case NewTransaction e ps d g of
     (Inl err, g') \<Rightarrow> g' = g \<and> \<not> params_ok ps \<and> err =
       (if ps = [] then ErrNoEntries
        else if length ps = 1 then ErrInsufficientEntries
        else if \<exists>p\<in>set ps. amount (ep_Amount p) = 0 then ErrZeroAmount
        else if \<exists>p\<in>set ps. currency (ep_Amount p) \<noteq> currency (ep_Amount (hd ps))
          then ErrCurrencyMismatch
        else ErrUnbalancedTransaction)
   | (Inr t, g') \<Rightarrow> params_ok ps \<and> map params_of (Transaction_Entries t) = ps \<and> Transaction_ok t
       \<and> tx_description t = d"
proof (cases "NewTransaction e ps d g")
  case (Pair r g')
  show ?thesis
  proof (cases r)
    case (Inr t)
    with Pair NewTransaction_InrD [of e ps d g t g'] show ?thesis
      by (simp add: Transaction_Entries_def)
  next
    case (Inl err)
    with Pair NewTransaction_InlD [of e ps d g err g'] have "g' = g" "\<not> params_ok ps" by simp_all
    moreover from Pair Inl have "err =
       (if ps = [] then ErrNoEntries
        else if length ps = 1 then ErrInsufficientEntries
        else if \<exists>p\<in>set ps. amount (ep_Amount p) = 0 then ErrZeroAmount
        else if \<exists>p\<in>set ps. currency (ep_Amount p) \<noteq> currency (ep_Amount (hd ps))
          then ErrCurrencyMismatch
        else ErrUnbalancedTransaction)"
      by (cases ps) (auto simp: NewTransaction_def all_nonzero_iff all_currency_iff Let_def
          split: if_splits prod.splits)
    ultimately show ?thesis using Pair Inl by simp
  qed
qed

text \<open>C22. Every constructed transaction has at least two entries, no zero amount and one currency. Its
  integer debit and credit totals agree modulo 2 to the 64th (the sums of the check wrap around), and
  they are equal when both fit an int64.\<close>

theorem NewTransaction_balanced:
  assumes "NewTransaction e ps d g = (Inr t, g')"
  shows "2 \<le> length (tx_entries t) \<and> (\<forall>x\<in>set (tx_entries t). amount (e_amount x) \<noteq> 0)
    \<and> (\<exists>c. \<forall>x\<in>set (tx_entries t). currency (e_amount x) = c)
    \<and> legs_int_total Debit (map params_of (tx_entries t)) mod 2 ^ 64
        = legs_int_total Credit (map params_of (tx_entries t)) mod 2 ^ 64
    \<and> (in_int64 (legs_int_total Debit (map params_of (tx_entries t)))
         \<and> in_int64 (legs_int_total Credit (map params_of (tx_entries t))) \<longrightarrow>
         legs_int_total Debit (map params_of (tx_entries t))
           = legs_int_total Credit (map params_of (tx_entries t)))"
proof -
  note acc = NewTransaction_InrD [OF assms(1)]
  from acc(1) have eq: "legs_total Debit ps = legs_total Credit ps" by (simp add: params_ok_def)
  have "legs_int_total Debit ps mod 2 ^ 64 = legs_int_total Credit ps mod 2 ^ 64"
    unfolding legs_int_total_mod eq ..
  moreover have "legs_int_total Debit ps = legs_int_total Credit ps"
    if "in_int64 (legs_int_total Debit ps)" "in_int64 (legs_int_total Credit ps)"
    using arg_cong [OF eq, of sint] that by (simp add: legs_total_exact)
  moreover have len: "2 \<le> length (tx_entries t)" and nz: "\<forall>p\<in>set ps. amount (ep_Amount p) \<noteq> 0"
    and cur: "\<forall>p\<in>set ps. \<forall>q\<in>set ps. currency (ep_Amount p) = currency (ep_Amount q)"
    using acc(1) length_map [of params_of "tx_entries t", unfolded acc(2)] unfolding params_ok_def by metis+
  moreover have leg: "params_of x \<in> set ps" "ep_Amount (params_of x) = e_amount x" if "x \<in> set (tx_entries t)" for x
    using that by (simp_all add: acc(2) [symmetric] params_of_def)
  moreover have "hd (tx_entries t) \<in> set (tx_entries t)" using len by (cases "tx_entries t") simp_all
  then have "\<exists>c. \<forall>x\<in>set (tx_entries t). currency (e_amount x) = c" using cur leg by metis
  ultimately show ?thesis unfolding acc(2) by metis
qed

text \<open>Three positive debits and one positive credit whose integer totals differ by 2 to the 64th
  are accepted: the sums of the balance check wrap around.\<close>

lemma NewTransaction_accepts_wrapped_total:
  "\<exists>ps t g'. NewTransaction e ps d g = (Inr t, g')
     \<and> list_all (\<lambda>p. 0 < sint (amount (ep_Amount p)) \<and> ep_Type p \<in> {Debit, Credit}) ps
     \<and> legs_int_total Debit ps = legs_int_total Credit ps + 2 ^ 64"
proof -
  let ?leg = "\<lambda>n ty. \<lparr>ep_AccountID = AccountID 1,
    ep_Amount = \<lparr>amount = n, currency = USD\<rparr>, ep_Type = ty\<rparr>"
  let ?ps = "[?leg 9223372036854775807 Debit, ?leg 9223372036854775807 Debit, ?leg 3 Debit,
    ?leg 1 Credit]"
  have "params_ok ?ps" by (simp add: params_ok_def)
  then obtain t g' where "NewTransaction e ?ps d g = (Inr t, g')"
    by (metis NewTransaction_accepted)
  moreover have "list_all (\<lambda>p. 0 < sint (amount (ep_Amount p)) \<and> ep_Type p \<in> {Debit, Credit}) ?ps"
    by simp
  moreover have "legs_int_total Debit ?ps = legs_int_total Credit ?ps + 2 ^ 64" by simp
  ultimately show ?thesis by blast
qed

text \<open>With a generator that does not repeat, the entries of a transaction and the transaction
  itself get pairwise different identifiers.\<close>

lemma NewTransaction_fresh_ids:
  assumes "NewTransaction e ps d g = (Inr t, g')" and "uuid_unique e (drawn g')"
  shows "distinct (map e_id (tx_entries t))
    \<and> TransactionID_value (tx_id t) \<notin> EntryID_value ` e_id ` set (tx_entries t)"
proof -
  from NewTransaction_InrD(1) [OF assms(1)] obtain xs where
    new: "NewTransaction e ps d g =
      (Inr \<lparr>tx_id = TransactionID (uuid_seq e (drawn g + length ps)), tx_entries = xs,
            tx_description = d, tx_createdAt = clock e (ticks g)\<rparr>,
       g\<lparr>ticks := Suc (ticks g), drawn := Suc (drawn g + length ps)\<rparr>)"
    and ids: "map e_id xs = map (EntryID \<circ> uuid_seq e) [drawn g..<drawn g + length ps]"
    by (rule NewTransaction_accepted)
  from new assms(1) have t: "tx_entries t = xs"
    "tx_id t = TransactionID (uuid_seq e (drawn g + length ps))"
    and g': "drawn g' = Suc (drawn g + length ps)" by auto
  have inj: "uuid_seq e m = uuid_seq e n \<longleftrightarrow> m = n"
    if "m \<le> drawn g + length ps" "n \<le> drawn g + length ps" for m n
    using uuid_seq_inject [OF assms(2)] that g' by simp
  from ids have "e_id ` set xs = (EntryID \<circ> uuid_seq e) ` {drawn g..<drawn g + length ps}"
    by (metis atLeastLessThan_upt list.set_map)
  moreover have "distinct (map e_id xs)"
    by (simp add: ids distinct_map inj_on_def inj)
  ultimately show ?thesis by (auto simp: t inj)
qed

lemma sample_legs_ok: "params_ok sample_legs"
  by (simp add: params_ok_def sample_legs_def)

theorem NewTransaction_balanced_witness:
  "\<exists>t. fst (NewTransaction sample_env sample_legs ''rent'' sample_gen) = Inr t \<and> 2 \<le> length (tx_entries t)
     \<and> legs_int_total Debit (map params_of (tx_entries t))
         = legs_int_total Credit (map params_of (tx_entries t))"
proof -
  obtain t g' where t: "NewTransaction sample_env sample_legs ''rent'' sample_gen = (Inr t, g')"
    using sample_legs_ok by (metis NewTransaction_accepted)
  have "in_int64 (legs_int_total Debit sample_legs)" "in_int64 (legs_int_total Credit sample_legs)"
    by (simp_all add: sample_legs_def in_int64_def)
  with NewTransaction_balanced [OF t] NewTransaction_InrD(2) [OF t] t show ?thesis by auto
qed

lemma NewTransaction_fresh_ids_witness:
  "\<exists>t. fst (NewTransaction sample_env sample_legs ''rent'' sample_gen) = Inr t
     \<and> distinct (map e_id (tx_entries t))
     \<and> TransactionID_value (tx_id t) \<notin> EntryID_value ` e_id ` set (tx_entries t)"
proof -
  obtain t g' where t: "NewTransaction sample_env sample_legs ''rent'' sample_gen = (Inr t, g')"
    and d: "drawn g' = 3"
    using sample_legs_ok by (rule NewTransaction_accepted [of sample_legs sample_env "''rent''" sample_gen])
      (simp add: sample_gen_def sample_legs_def)
  have "uuid_unique sample_env (drawn g')"
    using sample_env_unique by (auto simp: uuid_unique_def d intro: inj_on_subset)
  from NewTransaction_fresh_ids [OF t this] t show ?thesis by auto
qed

end
