(* ===== verification/Account_Entity.thy ===== *)
theory Account_Entity
  imports Ledger_Money Ledger_Identifiers
begin

section \<open>Accounts (internal/domain/account/account.go)\<close>

text \<open>
  The account entity: constructors, balance operations and the lifecycle. Account type and
  status are Go string types; \<open>Reconstitute\<close> casts stored text to them without a check. The
  operations that stamp \<^verbatim>\<open>updatedAt\<close> read the clock only on the branch that succeeds, as
  the source does. A step relation collects everything that can happen to one account, and
  the invariants of the entity are proved over the accounts reachable from a constructor.
\<close>

datatype AccountType = AccountType (AccountType_string: string)

definition Asset :: AccountType where
  "Asset = AccountType ''ASSET''"

definition Liability :: AccountType where
  "Liability = AccountType ''LIABILITY''"

definition Equity :: AccountType where
  "Equity = AccountType ''EQUITY''"

datatype Status = Status (Status_string: string)

definition Active :: Status where
  "Active = Status ''ACTIVE''"

definition Suspended :: Status where
  "Suspended = Status ''SUSPENDED''"

definition Closed :: Status where
  "Closed = Status ''CLOSED''"

record Account =
  a_id :: AccountID
  a_name :: string
  a_accountType :: AccountType
  a_currency :: Currency
  a_balance :: Money
  a_status :: Status
  a_createdAt :: time
  a_updatedAt :: time

definition NewAccountWithType ::
  "env \<Rightarrow> string \<Rightarrow> AccountType \<Rightarrow> Currency \<Rightarrow> gen \<Rightarrow> (error + Account) \<times> gen" where
  "NewAccountWithType e name accountType c g =
     (if name = '''' then (Inl ErrEmptyName, g)
      else case NewMoney 0 c of
        Inl err \<Rightarrow> (Inl err, g)
      | Inr bal \<Rightarrow>
          let (now, g1) = time_Now e g;
              (i, g2) = GenerateAccountID e g1
          in (Inr \<lparr>a_id = i, a_name = name, a_accountType = accountType, a_currency = c,
                   a_balance = bal, a_status = Active, a_createdAt = now, a_updatedAt = now\<rparr>, g2))"

definition NewAccount :: "env \<Rightarrow> string \<Rightarrow> Currency \<Rightarrow> gen \<Rightarrow> (error + Account) \<times> gen" where
  "NewAccount e name c g = NewAccountWithType e name Asset c g"

definition Reconstitute ::
  "env \<Rightarrow> string \<Rightarrow> string \<Rightarrow> string \<Rightarrow> string \<Rightarrow> int64 \<Rightarrow> string \<Rightarrow> time \<Rightarrow> time \<Rightarrow> error + Account"
where
  "Reconstitute e i name accountType c bal status createdAt updatedAt =
     (case NewAccountID e i of
        Inl err \<Rightarrow> Inl err
      | Inr accID \<Rightarrow>
          (case NewMoney bal (Currency c) of
             Inl err \<Rightarrow> Inl err
           | Inr b \<Rightarrow>
               Inr \<lparr>a_id = accID, a_name = name, a_accountType = AccountType accountType,
                    a_currency = Currency c, a_balance = b, a_status = Status status,
                    a_createdAt = createdAt, a_updatedAt = updatedAt\<rparr>))"

definition AllowsNegativeBalance :: "Account \<Rightarrow> bool" where
  "AllowsNegativeBalance a \<longleftrightarrow> a_accountType a = Liability \<or> a_accountType a = Equity"

definition validateOperation :: "Account \<Rightarrow> Money \<Rightarrow> error option" where
  "validateOperation a m =
     (if a_status a \<noteq> Active then Some ErrAccountNotActive
      else if Money_IsZero m then Some ErrAccountZeroAmount
      else if currency m \<noteq> a_currency a then Some ErrCurrencyMismatch
      else None)"

definition Account_Credit :: "env \<Rightarrow> Account \<Rightarrow> Money \<Rightarrow> gen \<Rightarrow> (error + Account) \<times> gen" where
  "Account_Credit e a m g =
     (case validateOperation a m of
        Some err \<Rightarrow> (Inl err, g)
      | None \<Rightarrow>
          (case Money_Add (a_balance a) m of
             Inl err \<Rightarrow> (Inl err, g)
           | Inr newBalance \<Rightarrow>
               let (now, g1) = time_Now e g
               in (Inr (a\<lparr>a_balance := newBalance, a_updatedAt := now\<rparr>), g1)))"

definition Account_Debit :: "env \<Rightarrow> Account \<Rightarrow> Money \<Rightarrow> gen \<Rightarrow> (error + Account) \<times> gen" where
  "Account_Debit e a m g =
     (case validateOperation a m of
        Some err \<Rightarrow> (Inl err, g)
      | None \<Rightarrow>
          (case Money_Subtract (a_balance a) m of
             Inl err \<Rightarrow> (Inl err, g)
           | Inr newBalance \<Rightarrow>
               if sint (amount newBalance) < 0 \<and> \<not> AllowsNegativeBalance a
               then (Inl ErrInsufficientFunds, g)
               else
                 let (now, g1) = time_Now e g
                 in (Inr (a\<lparr>a_balance := newBalance, a_updatedAt := now\<rparr>), g1)))"

definition Account_Suspend :: "env \<Rightarrow> Account \<Rightarrow> gen \<Rightarrow> Account \<times> gen" where
  "Account_Suspend e a g =
     (if a_status a = Active
      then let (now, g1) = time_Now e g in (a\<lparr>a_status := Suspended, a_updatedAt := now\<rparr>, g1)
      else (a, g))"

definition Account_Reactivate :: "env \<Rightarrow> Account \<Rightarrow> gen \<Rightarrow> Account \<times> gen" where
  "Account_Reactivate e a g =
     (if a_status a = Suspended
      then let (now, g1) = time_Now e g in (a\<lparr>a_status := Active, a_updatedAt := now\<rparr>, g1)
      else (a, g))"

definition Account_Close :: "env \<Rightarrow> Account \<Rightarrow> gen \<Rightarrow> Account \<times> gen" where
  "Account_Close e a g =
     (if a_status a \<noteq> Closed
      then let (now, g1) = time_Now e g in (a\<lparr>a_status := Closed, a_updatedAt := now\<rparr>, g1)
      else (a, g))"

subsection \<open>Step relation\<close>

text \<open>Everything a caller can do with one account value; \<open>pos\<close> restricts the amounts of credits
  and debits to positive ones when it is set.\<close>

inductive acct_step :: "env \<Rightarrow> bool \<Rightarrow> Account \<Rightarrow> Account \<Rightarrow> bool" for e pos where
  credit: "Account_Credit e a m g = (Inr b, g') \<Longrightarrow> (pos \<longrightarrow> 0 < sint (amount m)) \<Longrightarrow>
     (pos \<longrightarrow> in_int64 (sint (amount (a_balance a)) + sint (amount m))) \<Longrightarrow> acct_step e pos a b"
| debit: "Account_Debit e a m g = (Inr b, g') \<Longrightarrow> (pos \<longrightarrow> 0 < sint (amount m)) \<Longrightarrow>
     acct_step e pos a b"
| suspend: "Account_Suspend e a g = (b, g') \<Longrightarrow> acct_step e pos a b"
| reactivate: "Account_Reactivate e a g = (b, g') \<Longrightarrow> acct_step e pos a b"
| close: "Account_Close e a g = (b, g') \<Longrightarrow> acct_step e pos a b"

inductive acct_reach :: "env \<Rightarrow> bool \<Rightarrow> Account \<Rightarrow> bool" for e pos where
  opened: "NewAccountWithType e name ty c g = (Inr a, g') \<Longrightarrow> acct_reach e pos a"
| step: "acct_reach e pos a \<Longrightarrow> acct_step e pos a b \<Longrightarrow> acct_reach e pos b"

text \<open>The well-formedness of the entity.\<close>

definition Account_ok :: "Account \<Rightarrow> bool" where
  "Account_ok a \<longleftrightarrow> validCurrencies (a_currency a) \<and> currency (a_balance a) = a_currency a"

definition same_identity :: "Account \<Rightarrow> Account \<Rightarrow> bool" where
  "same_identity a b \<longleftrightarrow> a_id a = a_id b \<and> a_name a = a_name b
     \<and> a_accountType a = a_accountType b \<and> a_currency a = a_currency b
     \<and> a_createdAt a = a_createdAt b"

definition funds :: "Account \<Rightarrow> int64" where
  "funds a = amount (a_balance a)"

text \<open>A concrete USD account for the witnesses.\<close>

definition sample_account :: "AccountType \<Rightarrow> int64 \<Rightarrow> Status \<Rightarrow> Account" where
  "sample_account ty n st =
     \<lparr>a_id = AccountID 7, a_name = ''Cash'', a_accountType = ty, a_currency = USD,
      a_balance = \<lparr>amount = n, currency = USD\<rparr>, a_status = st, a_createdAt = 3, a_updatedAt = 4\<rparr>"

lemmas type_defs = Asset_def Liability_def Equity_def
lemmas status_defs = Active_def Suspended_def Closed_def

inductive_cases acct_step_from: "acct_step e pos a b"

subsection \<open>Lemmas on the operations\<close>

lemma account_consts_distinct [simp]:
  "Asset \<noteq> Liability" "Asset \<noteq> Equity" "Liability \<noteq> Equity" "Liability \<noteq> Asset"
  "Equity \<noteq> Asset" "Equity \<noteq> Liability" "Active \<noteq> Suspended" "Active \<noteq> Closed"
  "Suspended \<noteq> Closed" "Suspended \<noteq> Active" "Closed \<noteq> Active" "Closed \<noteq> Suspended"
  by (simp_all add: type_defs status_defs)

lemma NewAccountWithType_Inr_iff:
  "NewAccountWithType e name ty c g = (Inr a, g') \<longleftrightarrow>
     name \<noteq> '''' \<and> validCurrencies c
     \<and> a = \<lparr>a_id = AccountID (uuid_seq e (drawn g)), a_name = name, a_accountType = ty,
            a_currency = c, a_balance = \<lparr>amount = 0, currency = c\<rparr>, a_status = Active,
            a_createdAt = clock e (ticks g), a_updatedAt = clock e (ticks g)\<rparr>
     \<and> g' = g\<lparr>ticks := Suc (ticks g), drawn := Suc (drawn g)\<rparr>"
  by (auto simp: NewAccountWithType_def NewMoney_def generate_defs)

lemma NewAccountWithType_Inl_iff:
  "NewAccountWithType e name ty c g = (Inl err, g') \<longleftrightarrow> g' = g \<and>
     (name = '''' \<and> err = ErrEmptyName
      \<or> name \<noteq> '''' \<and> \<not> validCurrencies c \<and> err = ErrInvalidCurrency)"
  by (auto simp: NewAccountWithType_def NewMoney_def generate_defs)

lemma Account_Credit_Inr_iff:
  "Account_Credit e a m g = (Inr b, g') \<longleftrightarrow>
     a_status a = Active \<and> amount m \<noteq> 0 \<and> currency m = a_currency a
     \<and> currency (a_balance a) = currency m
     \<and> b = a\<lparr>a_balance := \<lparr>amount = funds a + amount m, currency = currency (a_balance a)\<rparr>,
             a_updatedAt := clock e (ticks g)\<rparr>
     \<and> g' = g\<lparr>ticks := Suc (ticks g)\<rparr>"
  by (auto simp: Account_Credit_def validateOperation_def Money_IsZero_def Money_Add_def
      funds_def time_Now_def)

lemma Account_Debit_Inr_iff:
  "Account_Debit e a m g = (Inr b, g') \<longleftrightarrow>
     a_status a = Active \<and> amount m \<noteq> 0 \<and> currency m = a_currency a
     \<and> currency (a_balance a) = currency m
     \<and> (0 \<le> sint (funds a - amount m) \<or> AllowsNegativeBalance a)
     \<and> b = a\<lparr>a_balance := \<lparr>amount = funds a - amount m, currency = currency (a_balance a)\<rparr>,
             a_updatedAt := clock e (ticks g)\<rparr>
     \<and> g' = g\<lparr>ticks := Suc (ticks g)\<rparr>"
  by (auto simp: Account_Debit_def validateOperation_def Money_IsZero_def Money_Subtract_def
      funds_def time_Now_def)

lemma Account_Credit_Inl: "Account_Credit e a m g = (Inl err, g') \<Longrightarrow> g' = g"
  by (auto simp: Account_Credit_def time_Now_def split: option.splits sum.splits)

lemma Account_Debit_Inl: "Account_Debit e a m g = (Inl err, g') \<Longrightarrow> g' = g"
  by (auto simp: Account_Debit_def time_Now_def split: option.splits sum.splits if_splits)

lemma Account_ok_credit: "Account_Credit e a m g = (Inr b, g') \<Longrightarrow> Account_ok a \<Longrightarrow> Account_ok b"
  by (auto simp: Account_Credit_Inr_iff Account_ok_def)

lemma Account_ok_debit: "Account_Debit e a m g = (Inr b, g') \<Longrightarrow> Account_ok a \<Longrightarrow> Account_ok b"
  by (auto simp: Account_Debit_Inr_iff Account_ok_def)

lemma Account_op_frame:
  "Account_Credit e a m g = (Inr b, g') \<Longrightarrow> same_identity b a \<and> a_status b = a_status a"
  "Account_Debit e a m g = (Inr b, g') \<Longrightarrow> same_identity b a \<and> a_status b = a_status a"
  by (auto simp: Account_Credit_Inr_iff Account_Debit_Inr_iff same_identity_def)

lemma Account_op_gen:
  "Account_Credit e a m g = (Inr b, g') \<Longrightarrow> g' = g\<lparr>ticks := Suc (ticks g)\<rparr> \<and> currency m = a_currency a"
  "Account_Debit e a m g = (Inr b, g') \<Longrightarrow> g' = g\<lparr>ticks := Suc (ticks g)\<rparr> \<and> currency m = a_currency a"
  by (simp_all add: Account_Credit_Inr_iff Account_Debit_Inr_iff)

lemma funds_credit: "Account_Credit e a m g = (Inr b, g') \<Longrightarrow> funds b = funds a + amount m"
  by (auto simp: Account_Credit_Inr_iff funds_def)

lemma funds_debit: "Account_Debit e a m g = (Inr b, g') \<Longrightarrow> funds b = funds a - amount m"
  by (auto simp: Account_Debit_Inr_iff funds_def)

lemma lifecycle_simps:
  "fst (Account_Suspend e a g) = (if a_status a = Active
     then a\<lparr>a_status := Suspended, a_updatedAt := clock e (ticks g)\<rparr> else a)"
  "fst (Account_Reactivate e a g) = (if a_status a = Suspended
     then a\<lparr>a_status := Active, a_updatedAt := clock e (ticks g)\<rparr> else a)"
  "fst (Account_Close e a g) = (if a_status a \<noteq> Closed
     then a\<lparr>a_status := Closed, a_updatedAt := clock e (ticks g)\<rparr> else a)"
  by (simp_all add: Account_Suspend_def Account_Reactivate_def Account_Close_def time_Now_def)

lemma lifecycle_cases:
  assumes "acct_step e pos a b"
  obtains (credit) m g g' where "Account_Credit e a m g = (Inr b, g')"
      "pos \<longrightarrow> 0 < sint (amount m)" "pos \<longrightarrow> in_int64 (sint (funds a) + sint (amount m))"
  | (debit) m g g' where "Account_Debit e a m g = (Inr b, g')" "pos \<longrightarrow> 0 < sint (amount m)"
  | (suspend) t where "a_status a = Active" "b = a\<lparr>a_status := Suspended, a_updatedAt := t\<rparr>"
  | (reactivate) t where "a_status a = Suspended" "b = a\<lparr>a_status := Active, a_updatedAt := t\<rparr>"
  | (close) t where "a_status a \<noteq> Closed" "b = a\<lparr>a_status := Closed, a_updatedAt := t\<rparr>"
  | (same) "b = a"
  using assms
proof cases
  case (credit m g g')
  then show ?thesis using that(1) by (simp add: funds_def)
next
  case (debit m g g')
  then show ?thesis using that(2) by blast
next
  case (suspend g g')
  then have "b = fst (Account_Suspend e a g)" by simp
  then show ?thesis using that(3,6) by (auto simp: lifecycle_simps split: if_splits)
next
  case (reactivate g g')
  then have "b = fst (Account_Reactivate e a g)" by simp
  then show ?thesis using that(4,6) by (auto simp: lifecycle_simps split: if_splits)
next
  case (close g g')
  then have "b = fst (Account_Close e a g)" by simp
  then show ?thesis using that(5,6) by (auto simp: lifecycle_simps split: if_splits)
qed

lemma acct_step_identity: "acct_step e pos a b \<Longrightarrow> same_identity b a"
  by (erule lifecycle_cases) (auto dest: Account_op_frame simp: same_identity_def)

lemma acct_step_ok: "acct_step e pos a b \<Longrightarrow> Account_ok a \<Longrightarrow> Account_ok b"
  by (erule lifecycle_cases) (auto dest: Account_ok_credit Account_ok_debit simp: Account_ok_def)

lemma AllowsNegativeBalance_identity:
  "same_identity b a \<Longrightarrow> AllowsNegativeBalance b = AllowsNegativeBalance a"
  by (simp add: same_identity_def AllowsNegativeBalance_def)

lemma acct_step_nonnegative:
  assumes "acct_step e True a b" and "\<not> AllowsNegativeBalance a" and "0 \<le> sint (funds a)"
  shows "0 \<le> sint (funds b)"
  using assms(1)
proof (cases rule: lifecycle_cases)
  case (credit m g g')
  then show ?thesis using assms(3) by (simp add: funds_credit int64_simps)
next
  case (debit m g g')
  then show ?thesis using assms(2) by (auto simp: Account_Debit_Inr_iff funds_def)
qed (use assms(3) in \<open>simp_all add: funds_def\<close>)

lemma acct_reach_identity_ok:
  "acct_reach e pos a \<Longrightarrow> Account_ok a \<and> a_name a \<noteq> '''' \<and> a_status a \<in> {Active, Suspended, Closed}"
proof (induction rule: acct_reach.induct)
  case (opened name ty c g a g')
  then show ?case by (auto simp: NewAccountWithType_Inr_iff Account_ok_def)
next
  case (step a b)
  from step.hyps(2) have "a_status b \<in> {a_status a, Active, Suspended, Closed}"
    by (cases rule: lifecycle_cases) (auto dest: Account_op_frame)
  with step acct_step_identity [OF step.hyps(2)] acct_step_ok [OF step.hyps(2)] show ?case
    by (auto simp: same_identity_def)
qed

lemma acct_reach_nonnegative:
  "acct_reach e True a \<Longrightarrow> \<not> AllowsNegativeBalance a \<Longrightarrow> 0 \<le> sint (funds a)"
proof (induction rule: acct_reach.induct)
  case (opened name ty c g a g')
  then show ?case by (simp add: NewAccountWithType_Inr_iff funds_def)
next
  case (step a b)
  then show ?case
    using acct_step_nonnegative AllowsNegativeBalance_identity acct_step_identity by blast
qed

subsection \<open>Properties\<close>

text \<open>C24. Every account that construction, credits, debits and lifecycle calls can produce has a
  valid currency, a balance in that currency, a non-empty name and one of the three statuses.\<close>

theorem acct_reach_invariant:
  assumes "acct_reach e pos a"
  shows "Account_ok a \<and> a_name a \<noteq> '''' \<and> a_status a \<in> {Active, Suspended, Closed}"
  using assms by (rule acct_reach_identity_ok)

theorem acct_reach_invariant_witness:
  "\<exists>a. fst (NewAccount sample_env ''Cash'' USD sample_gen) = Inr a
     \<and> Account_ok a \<and> a_name a \<noteq> '''' \<and> a_status a \<in> {Active, Suspended, Closed}"
proof -
  obtain a g' where new: "NewAccount sample_env ''Cash'' USD sample_gen = (Inr a, g')"
    by (simp add: NewAccount_def NewAccountWithType_Inr_iff)
  then have "acct_reach sample_env False a"
    by (auto simp: NewAccount_def intro: acct_reach.opened)
  from acct_reach_invariant [OF this] new show ?thesis by auto
qed

text \<open>C25. As long as every amount is positive and no credit overflows, an account that is neither a
  liability nor an equity account never has a negative balance.\<close>

theorem asset_balance_nonnegative:
  assumes "acct_reach e True a" and "\<not> AllowsNegativeBalance a"
  shows "0 \<le> sint (funds a)"
  using assms by (rule acct_reach_nonnegative)

theorem asset_balance_nonnegative_witness:
  "case NewAccount sample_env ''Cash'' USD sample_gen of (Inl err, g1) \<Rightarrow> False
   | (Inr a, g1) \<Rightarrow>
       (case Account_Credit sample_env a \<lparr>amount = 100, currency = USD\<rparr> g1 of (Inl err, g2) \<Rightarrow> False
        | (Inr b, g2) \<Rightarrow>
            (case Account_Debit sample_env b \<lparr>amount = 40, currency = USD\<rparr> g2 of (Inl err, g3) \<Rightarrow> False
             | (Inr c, g3) \<Rightarrow> funds c = 60 \<and> 0 \<le> sint (funds c)))"
proof -
  have run: "case NewAccount sample_env ''Cash'' USD sample_gen of (Inl err, g1) \<Rightarrow> False
   | (Inr a, g1) \<Rightarrow> (case Account_Credit sample_env a \<lparr>amount = 100, currency = USD\<rparr> g1 of (Inl err, g2) \<Rightarrow> False
        | (Inr b, g2) \<Rightarrow> (case Account_Debit sample_env b \<lparr>amount = 40, currency = USD\<rparr> g2 of (Inl err, g3) \<Rightarrow> False
             | (Inr c, g3) \<Rightarrow> funds a = 0 \<and> funds c = 60 \<and> \<not> AllowsNegativeBalance c))"
    by code_simp
  then obtain a g1 where new: "NewAccount sample_env ''Cash'' USD sample_gen = (Inr a, g1)"
    by (auto split: prod.splits sum.splits)
  with run obtain b g2 where credit: "Account_Credit sample_env a \<lparr>amount = 100, currency = USD\<rparr> g1 = (Inr b, g2)"
    by (auto split: prod.splits sum.splits)
  with run new obtain c g3 where debit: "Account_Debit sample_env b \<lparr>amount = 40, currency = USD\<rparr> g2 = (Inr c, g3)"
    and funds: "funds a = 0" "funds c = 60" "\<not> AllowsNegativeBalance c"
    by (auto split: prod.splits sum.splits)
  have "acct_reach sample_env True a" using new by (auto simp only: NewAccount_def intro: acct_reach.opened)
  then have "acct_reach sample_env True b"
    by (rule acct_reach.step) (rule acct_step.credit [OF credit], use funds(1) in \<open>simp_all add: in_int64_def funds_def\<close>)
  then have "acct_reach sample_env True c"
    by (rule acct_reach.step) (rule acct_step.debit [OF debit], simp)
  from asset_balance_nonnegative [OF this funds(3)] new credit debit funds(2) show ?thesis by simp
qed

text \<open>A positive debit of an active asset account with a non-negative balance is accepted
  exactly when the balance covers it, and the new balance is then the integer difference: no
  wrap-around is possible on this path.\<close>

lemma Account_Debit_covered:
  assumes "Account_ok a" and "a_status a = Active" and "\<not> AllowsNegativeBalance a"
    and "currency m = a_currency a" and "0 < sint (amount m)" and "0 \<le> sint (funds a)"
  shows "if sint (amount m) \<le> sint (funds a)
         then \<exists>b g'. Account_Debit e a m g = (Inr b, g')
                \<and> sint (funds b) = sint (funds a) - sint (amount m)
         else Account_Debit e a m g = (Inl ErrInsufficientFunds, g)"
proof -
  have "in_int64 (sint (funds a) - sint (amount m))"
    using assms(5,6) sint_in_int64 [of "funds a"] sint_in_int64 [of "amount m"]
    unfolding in_int64_def by linarith
  then have exact: "sint (funds a - amount m) = sint (funds a) - sint (amount m)"
    by (rule sint_minus_exact)
  from assms(5) have "amount m \<noteq> 0" by auto
  with assms exact show ?thesis
    by (auto simp: Account_Debit_def validateOperation_def Money_IsZero_def Money_Subtract_def
        Account_ok_def funds_def time_Now_def)
qed

lemma Account_Debit_covered_witness:
  "fst (Account_Debit sample_env (sample_account Asset 100 Active)
      \<lparr>amount = 101, currency = USD\<rparr> sample_gen) = Inl ErrInsufficientFunds"
  using Account_Debit_covered [of "sample_account Asset 100 Active" "\<lparr>amount = 101, currency = USD\<rparr>"
      sample_env sample_gen]
  by (simp add: Account_ok_def AllowsNegativeBalance_def funds_def sample_account_def)

text \<open>C26. No operation ever changes an account that has been closed, and only an active account
  changes its balance.\<close>

theorem closed_is_terminal:
  assumes "acct_step e pos a b"
  shows "(a_status a = Closed \<longrightarrow> b = a) \<and> (funds b \<noteq> funds a \<longrightarrow> a_status a = Active)
    \<and> same_identity b a"
  using assms acct_step_identity [OF assms]
  by (cases rule: lifecycle_cases)
    (auto simp: Account_Credit_Inr_iff Account_Debit_Inr_iff, auto simp: funds_def)

theorem closed_is_terminal_witness:
  "acct_step sample_env True (sample_account Asset 5 Closed) (sample_account Asset 5 Closed)
   \<and> same_identity (sample_account Asset 5 Closed) (sample_account Asset 5 Closed)"
proof -
  have step: "acct_step sample_env True (sample_account Asset 5 Closed) (sample_account Asset 5 Closed)"
    by (rule acct_step.suspend [of _ _ sample_gen])
      (simp add: Account_Suspend_def sample_account_def)
  with closed_is_terminal [OF step] show ?thesis by simp
qed

text \<open>A debit that was accepted can be reversed by a credit of the same amount, which restores the
  balance, whatever the amounts are.\<close>

lemma Account_debit_credit_restores:
  assumes "Account_Debit e a m g = (Inr b, g1)"
  shows "\<exists>c g2. Account_Credit e' b m g' = (Inr c, g2) \<and> a_balance c = a_balance a"
  using assms by (auto simp: Account_Debit_Inr_iff Account_Credit_Inr_iff funds_def)

lemma Account_debit_credit_restores_witness:
  "\<exists>b c. fst (Account_Debit sample_env (sample_account Asset 100 Active)
        \<lparr>amount = 40, currency = USD\<rparr> sample_gen) = Inr b
     \<and> fst (Account_Credit sample_env b \<lparr>amount = 40, currency = USD\<rparr> sample_gen) = Inr c
     \<and> a_balance c = a_balance (sample_account Asset 100 Active)"
proof -
  obtain b g1 where b: "Account_Debit sample_env (sample_account Asset 100 Active)
      \<lparr>amount = 40, currency = USD\<rparr> sample_gen = (Inr b, g1)"
    by (simp add: Account_Debit_Inr_iff funds_def sample_account_def)
  from Account_debit_credit_restores [OF b, of sample_env sample_gen] b show ?thesis by force
qed

text \<open>Account.Credit accepts a negative amount, so the balance of an asset account can be taken
  below zero without the insufficient-funds check that Debit makes.\<close>

lemma Account_Credit_negative_overdraws:
  "\<exists>a m b g'. Account_ok a \<and> a_accountType a = Asset \<and> a_status a = Active \<and> 0 \<le> sint (funds a)
     \<and> Account_Credit e a m g = (Inr b, g') \<and> sint (funds b) < 0"
proof -
  let ?a = "sample_account Asset 100 Active" and ?m = "\<lparr>amount = -101, currency = USD\<rparr>"
  obtain b g' where b: "Account_Credit e ?a ?m g = (Inr b, g')"
    by (simp add: Account_Credit_Inr_iff sample_account_def)
  then have "sint (funds b) < 0"
    by (simp add: Account_Credit_Inr_iff funds_def sample_account_def)
  moreover have "Account_ok ?a" "a_accountType ?a = Asset" "a_status ?a = Active" "0 \<le> sint (funds ?a)"
    by (simp_all add: Account_ok_def funds_def sample_account_def)
  ultimately show ?thesis using b by blast
qed

text \<open>Rebuilding an account from the text of its fields gives the account back.\<close>

lemma Reconstitute_roundtrip:
  assumes "uuid_codec e" and "Account_ok a"
  shows "Reconstitute e (AccountID_String e (a_id a)) (a_name a)
      (AccountType_string (a_accountType a)) (Currency_string (a_currency a)) (funds a)
      (Status_string (a_status a)) (a_createdAt a) (a_updatedAt a) = Inr a"
  using assms by (simp add: Reconstitute_def account_id.parse_print Account_ok_def funds_def NewMoney_def)

lemma Reconstitute_roundtrip_witness:
  "Reconstitute sample_env (decimal 7) ''Cash'' ''ASSET'' ''USD'' 100 ''ACTIVE'' 3 4
     = Inr (sample_account Asset 100 Active)"
proof -
  have "Account_ok (sample_account Asset 100 Active)"
    by (simp add: Account_ok_def sample_account_def)
  from Reconstitute_roundtrip [OF sample_env_codec this] show ?thesis
    by (simp add: sample_account_def funds_def AccountID_String_def Asset_def Active_def USD_def)
qed

end
