(* ===== verification/Ledger_Events.thy ===== *)
theory Ledger_Events
  imports Ledger_Transaction Account_Entity
begin

section \<open>Domain events (internal/domain/ledger/events.go, event_store.go)\<close>

text \<open>
  The two events the services emit, the stored form of an event, and its JSON payload. The
  payload is modelled as the JSON value that \<^verbatim>\<open>encoding/json\<close> writes for the struct and its
  field tags (the column that receives it has type JSONB); the text of a timestamp comes from
  the environment and is missing where \<^verbatim>\<open>time.Time.MarshalJSON\<close> fails.
\<close>

datatype EventType = EventType (EventType_string: string)

definition EventAccountOpened :: EventType where
  "EventAccountOpened = EventType ''account.opened''"

definition EventAccountSuspended :: EventType where
  "EventAccountSuspended = EventType ''account.suspended''"

definition EventAccountReactivated :: EventType where
  "EventAccountReactivated = EventType ''account.reactivated''"

definition EventAccountClosed :: EventType where
  "EventAccountClosed = EventType ''account.closed''"

definition EventTransactionRecorded :: EventType where
  "EventTransactionRecorded = EventType ''transaction.recorded''"

record AccountOpenedEvent =
  ao_ID :: string
  ao_AccountID :: string
  ao_Name :: string
  ao_AccountType :: string
  ao_Currency :: string
  ao_Timestamp :: time

record EntryEventData =
  ed_EntryID :: string
  ed_AccountID :: string
  ed_Amount :: int64
  ed_Currency :: string
  ed_Type :: string

record TransactionRecordedEvent =
  tr_ID :: string
  tr_TransactionID :: string
  tr_Entries :: "EntryEventData list"
  tr_Description :: string
  tr_Timestamp :: time

datatype DomainEvent =
    AccountOpened AccountOpenedEvent
  | TransactionRecorded TransactionRecordedEvent

fun DomainEvent_EventType :: "DomainEvent \<Rightarrow> EventType" where
  "DomainEvent_EventType (AccountOpened ev) = EventAccountOpened"
| "DomainEvent_EventType (TransactionRecorded ev) = EventTransactionRecorded"

fun DomainEvent_AggregateID :: "DomainEvent \<Rightarrow> string" where
  "DomainEvent_AggregateID (AccountOpened ev) = ao_AccountID ev"
| "DomainEvent_AggregateID (TransactionRecorded ev) = tr_TransactionID ev"

fun DomainEvent_OccurredAt :: "DomainEvent \<Rightarrow> time" where
  "DomainEvent_OccurredAt (AccountOpened ev) = ao_Timestamp ev"
| "DomainEvent_OccurredAt (TransactionRecorded ev) = tr_Timestamp ev"

subsection \<open>JSON payloads\<close>

datatype json =
    JString string
  | JInt int
  | JArray "json list"
  | JObject "(string \<times> json) list"

definition EntryEventData_json :: "EntryEventData \<Rightarrow> json" where
  "EntryEventData_json d = JObject
     [(''entry_id'', JString (ed_EntryID d)),
      (''account_id'', JString (ed_AccountID d)),
      (''amount'', JInt (sint (ed_Amount d))),
      (''currency'', JString (ed_Currency d)),
      (''type'', JString (ed_Type d))]"

fun json_Marshal :: "env \<Rightarrow> DomainEvent \<Rightarrow> error + json" where
  "json_Marshal e (AccountOpened ev) =
     (case json_time e (ao_Timestamp ev) of
        None \<Rightarrow> Inl (ErrExternal ''json: error calling MarshalJSON for type time.Time'')
      | Some t \<Rightarrow> Inr (JObject
          [(''id'', JString (ao_ID ev)),
           (''account_id'', JString (ao_AccountID ev)),
           (''name'', JString (ao_Name ev)),
           (''account_type'', JString (ao_AccountType ev)),
           (''currency'', JString (ao_Currency ev)),
           (''timestamp'', JString t)]))"
| "json_Marshal e (TransactionRecorded ev) =
     (case json_time e (tr_Timestamp ev) of
        None \<Rightarrow> Inl (ErrExternal ''json: error calling MarshalJSON for type time.Time'')
      | Some t \<Rightarrow> Inr (JObject
          [(''id'', JString (tr_ID ev)),
           (''transaction_id'', JString (tr_TransactionID ev)),
           (''entries'', JArray (map EntryEventData_json (tr_Entries ev))),
           (''description'', JString (tr_Description ev)),
           (''timestamp'', JString t)]))"

subsection \<open>Stored events and snapshots\<close>

record StoredEvent =
  se_ID :: string
  se_AggregateID :: string
  se_AggregateType :: string
  se_EventType :: EventType
  se_Version :: int64
  se_Payload :: json
  se_OccurredAt :: time

text \<open>The payload of a snapshot may be nil, as in the zero value.\<close>

record Snapshot =
  sn_AggregateID :: string
  sn_Version :: int64
  sn_Payload :: "json option"

text \<open>The documented behaviour of the timestamp text: different instants have different texts.\<close>

definition json_time_faithful :: "env \<Rightarrow> bool" where
  "json_time_faithful e \<longleftrightarrow> (\<forall>t u s. json_time e t = Some s \<and> json_time e u = Some s \<longrightarrow> t = u)"

subsection \<open>Lemmas\<close>

lemma sint_inject [simp]: "sint (a :: int64) = sint b \<longleftrightarrow> a = b"
  by (auto intro: signed_word_eqI)

lemma EntryEventData_json_inject [simp]: "EntryEventData_json c = EntryEventData_json d \<longleftrightarrow> c = d"
  by (auto simp: EntryEventData_json_def)

lemma map_EntryEventData_json_inject [simp]:
  "map EntryEventData_json xs = map EntryEventData_json ys \<longleftrightarrow> xs = ys"
  by (auto simp: inj_map_eq_map inj_def)

text \<open>Two events with the same JSON payload are the same event: the payload in the event store
  and in the outbox determines kind, identifiers, every entry with its amount, and the
  timestamp.\<close>

lemma json_Marshal_injective:
  assumes "json_time_faithful e" and "json_Marshal e ev = Inr p" and "json_Marshal e ev' = Inr p"
  shows "ev = ev'"
  using assms(2,3) assms(1) [unfolded json_time_faithful_def]
  by (cases ev; cases ev') (auto split: option.splits)

lemma json_Marshal_injective_witness:
  "\<exists>p. json_Marshal (sample_env\<lparr>json_time := \<lambda>t. if 0 \<le> t then Some (decimal (nat t)) else None\<rparr>)
      (AccountOpened \<lparr>ao_ID = '''', ao_AccountID = ''1'', ao_Name = ''Cash'', ao_AccountType = ''ASSET'',
         ao_Currency = ''USD'', ao_Timestamp = 5\<rparr>) = Inr p
    \<and> json_Marshal (sample_env\<lparr>json_time := \<lambda>t. if 0 \<le> t then Some (decimal (nat t)) else None\<rparr>)
      (AccountOpened \<lparr>ao_ID = '''', ao_AccountID = ''1'', ao_Name = ''Cash'', ao_AccountType = ''ASSET'',
         ao_Currency = ''USD'', ao_Timestamp = 6\<rparr>) \<noteq> Inr p"
proof -
  let ?e = "sample_env\<lparr>json_time := \<lambda>t. if 0 \<le> t then Some (decimal (nat t)) else None\<rparr>"
  let ?ev = "\<lambda>t. AccountOpened \<lparr>ao_ID = '''', ao_AccountID = ''1'', ao_Name = ''Cash'',
    ao_AccountType = ''ASSET'', ao_Currency = ''USD'', ao_Timestamp = t\<rparr>"
  have f: "json_time_faithful ?e"
    by (auto simp: json_time_faithful_def eq_nat_nat_iff split: if_splits)
  obtain p where p: "json_Marshal ?e (?ev 5) = Inr p" by simp
  have "json_Marshal ?e (?ev 6) \<noteq> Inr p"
    using json_Marshal_injective [OF f p, of "?ev 6"] by auto
  with p show ?thesis by blast
qed

end
