(* ===== verification/Repository_Ports.thy ===== *)
theory Repository_Ports
  imports Ledger_Events
begin

section \<open>Ports (account/repository.go, ledger/repository.go, ledger/event_store.go)\<close>

text \<open>
  The Go interfaces the services are written against, as records of operations over a store
  \<open>'w\<close>: every call takes the store and returns a result and the store after it, also when the
  result is an error. The locale \<open>account_repository\<close> states what the services rely on, for
  an abstraction \<open>view\<close> of the store as a finite map from identifiers to accounts;
  \<open>reliable_repository\<close> adds that calls do not fail. The providers interpret them.
\<close>

record 'w account_Repository =
  acc_Save :: "Account \<Rightarrow> 'w \<Rightarrow> (error + unit) \<times> 'w"
  acc_FindByID :: "AccountID \<Rightarrow> 'w \<Rightarrow> (error + Account) \<times> 'w"
  acc_FindAll :: "'w \<Rightarrow> (error + Account list) \<times> 'w"

record 'w TransactionRepository =
  txr_Save :: "Transaction \<Rightarrow> 'w \<Rightarrow> (error + unit) \<times> 'w"
  txr_FindByID :: "TransactionID \<Rightarrow> 'w \<Rightarrow> (error + Transaction) \<times> 'w"
  txr_FindByAccountID :: "AccountID \<Rightarrow> 'w \<Rightarrow> (error + Transaction list) \<times> 'w"

record 'w EventStore =
  es_Append :: "string \<Rightarrow> string \<Rightarrow> int64 \<Rightarrow> StoredEvent list \<Rightarrow> 'w \<Rightarrow> (error + unit) \<times> 'w"
  es_LoadEvents :: "string \<Rightarrow> 'w \<Rightarrow> (error + StoredEvent list) \<times> 'w"
  es_LoadEventsFrom :: "string \<Rightarrow> int64 \<Rightarrow> 'w \<Rightarrow> (error + StoredEvent list) \<times> 'w"

record 'w SnapshotStore =
  ss_Save :: "Snapshot \<Rightarrow> 'w \<Rightarrow> (error + unit) \<times> 'w"
  ss_Load :: "string \<Rightarrow> 'w \<Rightarrow> (error + Snapshot) \<times> 'w"

subsection \<open>The contract of an account repository\<close>

definition keeps_identity :: "Account \<Rightarrow> Account option \<Rightarrow> bool" where
  "keeps_identity a old \<longleftrightarrow> (case old of None \<Rightarrow> True | Some b \<Rightarrow> same_identity a b)"

definition accounts_ok :: "(AccountID \<rightharpoonup> Account) \<Rightarrow> bool" where
  "accounts_ok v \<longleftrightarrow> finite (dom v) \<and> (\<forall>i a. v i = Some a \<longrightarrow> Account_ok a \<and> a_id a = i)"

locale account_repository =
  fixes repo :: "'w account_Repository"
    and view :: "'w \<Rightarrow> AccountID \<rightharpoonup> Account"
    and invar :: "'w \<Rightarrow> bool"
    and stored :: "Account \<Rightarrow> Account"
  assumes save_ok: "invar w \<Longrightarrow> Account_ok a \<Longrightarrow> keeps_identity a (view w (a_id a)) \<Longrightarrow>
        acc_Save repo a w = (Inr u, w') \<Longrightarrow> invar w' \<and> view w' = (view w)(a_id a \<mapsto> stored a)"
    and save_err: "invar w \<Longrightarrow> acc_Save repo a w = (Inl err, w') \<Longrightarrow> invar w' \<and> view w' = view w"
    and find_frame: "invar w \<Longrightarrow> acc_FindByID repo i w = (r, w') \<Longrightarrow> invar w' \<and> view w' = view w"
    and find_ok: "invar w \<Longrightarrow> acc_FindByID repo i w = (Inr a, w') \<Longrightarrow> view w i = Some a"
    and all_frame: "invar w \<Longrightarrow> acc_FindAll repo w = (rs, w') \<Longrightarrow> invar w' \<and> view w' = view w"
    and all_ok: "invar w \<Longrightarrow> acc_FindAll repo w = (Inr xs, w') \<Longrightarrow> set xs = ran (view w)"
    and view_ok: "invar w \<Longrightarrow> accounts_ok (view w)"
    and stored_fields: "a_id (stored a) = a_id a" "a_name (stored a) = a_name a"
        "a_accountType (stored a) = a_accountType a" "a_currency (stored a) = a_currency a"
        "a_balance (stored a) = a_balance a" "a_status (stored a) = a_status a"
    and stored_created: "invar w \<Longrightarrow> view w i = Some a \<Longrightarrow> a_createdAt b = a_createdAt a \<Longrightarrow>
        a_createdAt (stored b) = a_createdAt a"
begin

lemma find_missing:
  "invar w \<Longrightarrow> view w i = None \<Longrightarrow> \<exists>err w'. acc_FindByID repo i w = (Inl err, w')"
  by (metis find_ok old.sum.exhaust option.distinct(1) prod.exhaust)

lemma stored_ok: "Account_ok (stored a) = Account_ok a"
  by (simp add: Account_ok_def stored_fields)

lemma stored_funds: "funds (stored a) = funds a"
  by (simp add: funds_def stored_fields)

text \<open>Read after write.\<close>

lemma find_after_save:
  assumes "invar w" "Account_ok a" "keeps_identity a (view w (a_id a))"
    and "acc_Save repo a w = (Inr u, w1)" "acc_FindByID repo (a_id a) w1 = (Inr b, w2)"
  shows "b = stored a"
  using save_ok [OF assms(1-4)] find_ok [OF _ assms(5)] by auto

end

locale reliable_repository = account_repository +
  assumes save_total: "invar w \<Longrightarrow> fst (acc_Save repo a w) = Inr ()"
    and find_total: "invar w \<Longrightarrow> view w i = Some a \<Longrightarrow> fst (acc_FindByID repo i w) = Inr a"
    and all_total: "invar w \<Longrightarrow> \<exists>xs. fst (acc_FindAll repo w) = Inr xs"

subsection \<open>A repository on a part of a larger store\<close>

definition on_part ::
  "('w \<Rightarrow> 'd) \<Rightarrow> ('d \<Rightarrow> 'w \<Rightarrow> 'w) \<Rightarrow> ('d \<Rightarrow> 'a \<times> 'd) \<Rightarrow> 'w \<Rightarrow> 'a \<times> 'w" where
  "on_part get put f w = (case f (get w) of (x, d) \<Rightarrow> (x, put d w))"

definition lift_accounts ::
  "('w \<Rightarrow> 'd) \<Rightarrow> ('d \<Rightarrow> 'w \<Rightarrow> 'w) \<Rightarrow> 'd account_Repository \<Rightarrow> 'w account_Repository" where
  "lift_accounts get put repo =
     \<lparr>acc_Save = (\<lambda>a. on_part get put (acc_Save repo a)),
      acc_FindByID = (\<lambda>i. on_part get put (acc_FindByID repo i)),
      acc_FindAll = on_part get put (acc_FindAll repo)\<rparr>"

lemma on_part_eq_iff:
  "on_part get put f w = (x, w') \<longleftrightarrow> (\<exists>d. f (get w) = (x, d) \<and> w' = put d w)"
  by (auto simp: on_part_def split: prod.splits)

lemma lift_account_repository:
  assumes "account_repository repo view invar stored" and "\<And>d w. get (put d w) = d"
  shows "account_repository (lift_accounts get put repo) (view \<circ> get) (invar \<circ> get) stored"
proof -
  have ops: "acc_Save (lift_accounts get put repo) a w = (r, w') \<longleftrightarrow>
        (\<exists>d. acc_Save repo a (get w) = (r, d) \<and> w' = put d w)"
    "acc_FindByID (lift_accounts get put repo) i w = (q, w') \<longleftrightarrow>
        (\<exists>d. acc_FindByID repo i (get w) = (q, d) \<and> w' = put d w)"
    "acc_FindAll (lift_accounts get put repo) w = (s, w') \<longleftrightarrow>
        (\<exists>d. acc_FindAll repo (get w) = (s, d) \<and> w' = put d w)" for a i w r q s w'
    by (simp_all add: lift_accounts_def on_part_eq_iff)
  note laws = account_repository.save_ok [OF assms(1)] account_repository.save_err [OF assms(1)]
    account_repository.find_frame [OF assms(1)] account_repository.find_ok [OF assms(1)]
    account_repository.all_frame [OF assms(1)] account_repository.all_ok [OF assms(1)]
  show ?thesis
    by (rule account_repository.intro)
      (auto simp: ops assms(2) account_repository.view_ok [OF assms(1)]
        account_repository.stored_fields [OF assms(1)] account_repository.stored_created [OF assms(1)] dest: laws)
qed

end
