(* ===== verification/Postgres_Database.thy ===== *)
theory Postgres_Database
  imports Repository_Ports
begin

section \<open>The database (migrations, and the SQL embedded in the Go code)\<close>

text \<open>
  The tables of the migrations as lists of rows, one record type per table with the columns of the
  migration, and the sequences behind the \<^verbatim>\<open>BIGSERIAL\<close> keys. The server and the
  driver are not part of the repository: \<open>pg_env\<close> holds what they decide, that is which round trip
  fails and with which error, the server clock, how a timestamp and a JSON document come back from
  a column, in which order a scan visits the rows of a table, the collation, and which rows another
  session has locked. A round trip that fails has had no effect.
\<close>

record pg_env =
  pg_fault :: "nat \<Rightarrow> string option"
  pg_now :: "nat \<Rightarrow> time"
  pg_time :: "time \<Rightarrow> time"
  pg_jsonb :: "json \<Rightarrow> json"
  pg_scan :: "nat \<Rightarrow> nat \<Rightarrow> nat list"
  pg_collate :: "string \<Rightarrow> string \<Rightarrow> bool"
  pg_locked :: "nat \<Rightarrow> int64 \<Rightarrow> bool"

record account_row =
  ar_account_id :: string
  ar_name :: string
  ar_account_type :: string
  ar_currency :: string
  ar_balance :: int64
  ar_status :: string
  ar_created_at :: time
  ar_updated_at :: time

record event_row =
  ev_id :: int64
  ev_aggregate_id :: string
  ev_aggregate_type :: string
  ev_event_type :: string
  ev_version :: int64
  ev_payload :: json
  ev_occurred_at :: time

record snapshot_row =
  sr_aggregate_id :: string
  sr_version :: int64
  sr_payload :: json
  sr_created_at :: time

record outbox_row =
  ob_id :: int64
  ob_aggregate_id :: string
  ob_aggregate_type :: string
  ob_event_type :: string
  ob_payload :: json
  ob_published :: bool
  ob_created_at :: time
  ob_published_at :: "time option"

record balance_row =
  br_account_id :: string
  br_name :: string
  br_account_type :: string
  br_currency :: string
  br_balance :: int64
  br_status :: string
  br_version :: int64
  br_updated_at :: time

record history_row =
  hr_id :: int64
  hr_transaction_id :: string
  hr_account_id :: string
  hr_entry_type :: string
  hr_amount :: int64
  hr_currency :: string
  hr_description :: string
  hr_balance_after :: int64
  hr_created_at :: time

record pg_db =
  db_accounts :: "account_row list"
  db_events :: "event_row list"
  db_event_seq :: nat
  db_snapshots :: "snapshot_row list"
  db_outbox :: "outbox_row list"
  db_outbox_seq :: nat
  db_balances :: "balance_row list"
  db_history :: "history_row list"
  db_history_seq :: nat
  db_calls :: nat

definition empty_db :: pg_db where
  "empty_db = \<lparr>db_accounts = [], db_events = [], db_event_seq = 0, db_snapshots = [], db_outbox = [],
     db_outbox_seq = 0, db_balances = [], db_history = [], db_history_seq = 0, db_calls = 0\<rparr>"

text \<open>One round trip: the error the driver reports, if any.\<close>

definition pg_call :: "pg_env \<Rightarrow> pg_db \<Rightarrow> string option \<times> pg_db" where
  "pg_call pe db = (pg_fault pe (db_calls db), db\<lparr>db_calls := Suc (db_calls db)\<rparr>)"

text \<open>The next value of a sequence; a sequence is not rolled back with its transaction.\<close>

definition nextval :: "nat \<Rightarrow> error + int64" where
  "nextval n = (if int n < 2 ^ 63 - 1 then Inr (of_nat (Suc n))
     else Inl (ErrExternal ''nextval: reached maximum value of sequence''))"

text \<open>\<^verbatim>\<open>BIGINT\<close> addition raises an error when the sum is out of range.\<close>

definition bigint_add :: "int64 \<Rightarrow> int64 \<Rightarrow> error + int64" where
  "bigint_add x y = (if in_int64 (sint x + sint y) then Inr (x + y)
     else Inl (ErrExternal ''bigint out of range''))"

text \<open>A scan visits every row once, in any order; \<^verbatim>\<open>ORDER BY\<close> sorts the scan and leaves rows
  with equal keys in the order of the scan.\<close>

definition scan_rows :: "pg_env \<Rightarrow> nat \<Rightarrow> 'r list \<Rightarrow> 'r list" where
  "scan_rows pe n rows = map (\<lambda>i. rows ! i) (pg_scan pe n (length rows))"

fun insert_row :: "('r \<Rightarrow> 'r \<Rightarrow> bool) \<Rightarrow> 'r \<Rightarrow> 'r list \<Rightarrow> 'r list" where
  "insert_row le x [] = [x]"
| "insert_row le x (y # ys) = (if le x y then x # y # ys else y # insert_row le x ys)"

definition order_rows :: "('r \<Rightarrow> 'r \<Rightarrow> bool) \<Rightarrow> 'r list \<Rightarrow> 'r list" where
  "order_rows le rows = foldr (insert_row le) rows []"

subsection \<open>Documented behaviour\<close>

definition pg_scan_ok :: "pg_env \<Rightarrow> bool" where
  "pg_scan_ok pe \<longleftrightarrow> (\<forall>n k. mset (pg_scan pe n k) = mset [0..<k])"

text \<open>A timestamp that came out of a column goes back into it unchanged.\<close>

definition pg_time_stable :: "pg_env \<Rightarrow> bool" where
  "pg_time_stable pe \<longleftrightarrow> (\<forall>t. pg_time pe (pg_time pe t) = pg_time pe t)"

definition pg_laws :: "pg_env \<Rightarrow> bool" where
  "pg_laws pe \<longleftrightarrow> pg_scan_ok pe \<and> pg_time_stable pe"

text \<open>A server that stores microseconds, never fails and scans in table order.\<close>

definition sample_pg :: pg_env where
  "sample_pg = \<lparr>pg_fault = (\<lambda>_. None), pg_now = int, pg_time = (\<lambda>t. t div 1000 * 1000), pg_jsonb = (\<lambda>j. j),
     pg_scan = (\<lambda>_ k. [0..<k]), pg_collate = (\<lambda>_ _. True), pg_locked = (\<lambda>_ _. False)\<rparr>"

lemma sample_pg_laws [simp]: "pg_laws sample_pg"
  by (simp add: pg_laws_def pg_scan_ok_def pg_time_stable_def sample_pg_def)

lemma mset_insert_row [simp]: "mset (insert_row le x ys) = add_mset x (mset ys)"
  by (induction ys) simp_all

lemma mset_order_rows [simp]: "mset (order_rows le rows) = mset rows"
  by (induction rows) (simp_all add: order_rows_def)

lemma set_order_rows [simp]: "set (order_rows le rows) = set rows"
  by (metis mset_order_rows set_mset_mset)

lemma mset_scan_rows:
  assumes "pg_scan_ok pe"
  shows "mset (scan_rows pe n rows) = mset rows"
proof -
  have "mset (scan_rows pe n rows) = image_mset (\<lambda>i. rows ! i) (mset (pg_scan pe n (length rows)))"
    by (simp add: scan_rows_def)
  also have "\<dots> = mset (map (\<lambda>i. rows ! i) [0..<length rows])"
    using assms by (simp add: pg_scan_ok_def)
  finally show ?thesis by (simp add: map_nth)
qed

lemma set_scan_rows: "pg_scan_ok pe \<Longrightarrow> set (scan_rows pe n rows) = set rows"
  by (metis mset_scan_rows set_mset_mset)

lemma set_insert_row [simp]: "set (insert_row le x ys) = insert x (set ys)"
  by (metis mset_insert_row set_mset_add_mset_insert set_mset_mset)

lemma insert_row_sorted:
  assumes "\<And>x y. le x y \<or> le y x" and "\<And>x y z. le x y \<Longrightarrow> le y z \<Longrightarrow> le x z" and "sorted_wrt le ys"
  shows "sorted_wrt le (insert_row le x ys)"
  using assms(3)
proof (induction ys)
  case (Cons y ys)
  show ?case
  proof (cases "le x y")
    case True
    with Cons.prems assms(2) show ?thesis by auto
  next
    case False
    then have "le y x" using assms(1) by blast
    with False Cons show ?thesis by simp
  qed
qed simp

lemma order_rows_sorted:
  assumes "\<And>x y. le x y \<or> le y x" and "\<And>x y z. le x y \<Longrightarrow> le y z \<Longrightarrow> le x z"
  shows "sorted_wrt le (order_rows le rows)"
  by (induction rows) (simp_all add: order_rows_def insert_row_sorted [OF assms])

lemma pg_call_simps [simp]:
  "fst (pg_call pe db) = pg_fault pe (db_calls db)"
  "db_accounts (snd (pg_call pe db)) = db_accounts db"
  "db_events (snd (pg_call pe db)) = db_events db"
  "db_snapshots (snd (pg_call pe db)) = db_snapshots db"
  "db_outbox (snd (pg_call pe db)) = db_outbox db"
  "db_balances (snd (pg_call pe db)) = db_balances db"
  "db_history (snd (pg_call pe db)) = db_history db"
  by (simp_all add: pg_call_def)

end
