(* ===== verification/Postgres_Accounts.thy ===== *)
theory Postgres_Accounts
  imports Postgres_Database
begin

section \<open>Account repository (internal/infra/postgres/account_repository.go)\<close>

text \<open>
  The write model in Postgres: Save is an upsert that updates balance, status and the time of the
  last change only; FindByID and FindAll rebuild the accounts with Reconstitute. The contract of
  an account repository holds for it, with \<open>pg_stored\<close> rounding the two time stamps to what the
  column keeps.
\<close>

fun upsert_account :: "account_row \<Rightarrow> account_row list \<Rightarrow> account_row list" where
  "upsert_account r [] = [r]"
| "upsert_account r (x # xs) =
     (if ar_account_id x = ar_account_id r
      then x\<lparr>ar_balance := ar_balance r, ar_status := ar_status r, ar_updated_at := ar_updated_at r\<rparr> # xs
      else x # upsert_account r xs)"

definition account_params :: "env \<Rightarrow> pg_env \<Rightarrow> Account \<Rightarrow> account_row" where
  "account_params e pe acc =
     \<lparr>ar_account_id = AccountID_String e (a_id acc), ar_name = a_name acc,
      ar_account_type = AccountType_string (a_accountType acc),
      ar_currency = Currency_string (a_currency acc), ar_balance = amount (a_balance acc),
      ar_status = Status_string (a_status acc), ar_created_at = pg_time pe (a_createdAt acc),
      ar_updated_at = pg_time pe (a_updatedAt acc)\<rparr>"

definition pg_acc_Save :: "env \<Rightarrow> pg_env \<Rightarrow> Account \<Rightarrow> pg_db \<Rightarrow> (error + unit) \<times> pg_db" where
  "pg_acc_Save e pe acc db =
     (case pg_call pe db of
        (Some err, db1) \<Rightarrow> (Inl (ErrExternal err), db1)
      | (None, db1) \<Rightarrow>
          (Inr (), db1\<lparr>db_accounts := upsert_account (account_params e pe acc) (db_accounts db1)\<rparr>))"

definition row_Reconstitute :: "env \<Rightarrow> account_row \<Rightarrow> error + Account" where
  "row_Reconstitute e r =
     Reconstitute e (ar_account_id r) (ar_name r) (ar_account_type r) (ar_currency r) (ar_balance r)
       (ar_status r) (ar_created_at r) (ar_updated_at r)"

definition pg_acc_FindByID ::
  "env \<Rightarrow> pg_env \<Rightarrow> AccountID \<Rightarrow> pg_db \<Rightarrow> (error + Account) \<times> pg_db" where
  "pg_acc_FindByID e pe i db =
     (case pg_call pe db of
        (Some err, db1) \<Rightarrow> (Inl (Wrap ''query account'' (ErrExternal err)), db1)
      | (None, db1) \<Rightarrow>
          (case List.find (\<lambda>r. ar_account_id r = AccountID_String e i) (db_accounts db1) of
             None \<Rightarrow> (Inl (Wrap (''find account '' @ AccountID_String e i) ErrPgAccountNotFound), db1)
           | Some r \<Rightarrow> (row_Reconstitute e r, db1)))"

fun reconstitute_rows :: "env \<Rightarrow> account_row list \<Rightarrow> error + Account list" where
  "reconstitute_rows e [] = Inr []"
| "reconstitute_rows e (r # rs) =
     (case row_Reconstitute e r of
        Inl err \<Rightarrow> Inl err
      | Inr acc \<Rightarrow>
          (case reconstitute_rows e rs of
             Inl err \<Rightarrow> Inl err
           | Inr accs \<Rightarrow> Inr (acc # accs)))"

definition pg_acc_FindAll :: "env \<Rightarrow> pg_env \<Rightarrow> pg_db \<Rightarrow> (error + Account list) \<times> pg_db" where
  "pg_acc_FindAll e pe db =
     (case pg_call pe db of
        (Some err, db1) \<Rightarrow> (Inl (ErrExternal err), db1)
      | (None, db1) \<Rightarrow>
          (case reconstitute_rows e (order_rows (\<lambda>r s. pg_collate pe (ar_name r) (ar_name s))
                  (scan_rows pe (db_calls db) (db_accounts db1))) of
             Inl err \<Rightarrow> (Inl err, db1)
           | Inr accounts \<Rightarrow>
               (case pg_call pe db1 of
                  (Some err, db2) \<Rightarrow> (Inl (ErrExternal err), db2)
                | (None, db2) \<Rightarrow> (Inr accounts, db2))))"

subsection \<open>Abstraction\<close>

definition pg_stored :: "pg_env \<Rightarrow> Account \<Rightarrow> Account" where
  "pg_stored pe a = a\<lparr>a_createdAt := pg_time pe (a_createdAt a), a_updatedAt := pg_time pe (a_updatedAt a)\<rparr>"

definition row_ok :: "env \<Rightarrow> pg_env \<Rightarrow> account_row \<Rightarrow> bool" where
  "row_ok e pe r \<longleftrightarrow> (\<exists>a. Account_ok a \<and> r = account_params e pe a)"

definition pg_accounts_view :: "env \<Rightarrow> pg_db \<Rightarrow> AccountID \<rightharpoonup> Account" where
  "pg_accounts_view e db = (\<lambda>i.
     case List.find (\<lambda>r. ar_account_id r = AccountID_String e i) (db_accounts db) of
       None \<Rightarrow> None
     | Some r \<Rightarrow> (case row_Reconstitute e r of Inl _ \<Rightarrow> None | Inr a \<Rightarrow> Some a))"

definition pg_accounts_inv :: "env \<Rightarrow> pg_env \<Rightarrow> pg_db \<Rightarrow> bool" where
  "pg_accounts_inv e pe db \<longleftrightarrow> uuid_codec e \<and> pg_laws pe
     \<and> distinct (map ar_account_id (db_accounts db)) \<and> (\<forall>r\<in>set (db_accounts db). row_ok e pe r)"

subsection \<open>Lemmas\<close>

lemma find_key:
  "distinct (map k xs) \<Longrightarrow> List.find (\<lambda>x. k x = y) xs = Some x \<longleftrightarrow> x \<in> set xs \<and> k x = y"
  by (induction xs) auto

lemma find_key_None: "List.find (\<lambda>x. k x = y) xs = None \<longleftrightarrow> y \<notin> k ` set xs"
  by (induction xs) auto

lemma upsert_keys:
  "ar_account_id ` set (upsert_account r rows) = insert (ar_account_id r) (ar_account_id ` set rows)"
  by (induction rows) auto

lemma upsert_distinct:
  "distinct (map ar_account_id rows) \<Longrightarrow> distinct (map ar_account_id (upsert_account r rows))"
  by (induction rows) (auto simp: upsert_keys)

lemma upsert_find:
  "List.find (\<lambda>x. ar_account_id x = k) (upsert_account r rows) =
     (if k = ar_account_id r
      then Some (case List.find (\<lambda>x. ar_account_id x = k) rows of
          None \<Rightarrow> r
        | Some x \<Rightarrow> x\<lparr>ar_balance := ar_balance r, ar_status := ar_status r, ar_updated_at := ar_updated_at r\<rparr>)
      else List.find (\<lambda>x. ar_account_id x = k) rows)"
  by (induction rows) auto

lemma row_Reconstitute_params:
  "uuid_codec e \<Longrightarrow> Account_ok a \<Longrightarrow> row_Reconstitute e (account_params e pe a) = Inr (pg_stored pe a)"
  by (auto simp: row_Reconstitute_def account_params_def Reconstitute_def account_id.parse_print
      NewMoney_def Account_ok_def pg_stored_def)

lemma reconstitute_rows_params:
  assumes "uuid_codec e" "\<forall>r\<in>set rs. row_ok e pe r"
  shows "\<exists>accs. reconstitute_rows e rs = Inr accs \<and> set accs = {a. \<exists>r\<in>set rs. row_Reconstitute e r = Inr a}"
  using assms(2)
proof (induction rs)
  case (Cons r rs)
  then obtain accs where "reconstitute_rows e rs = Inr accs"
    "set accs = {a. \<exists>r\<in>set rs. row_Reconstitute e r = Inr a}" by auto
  moreover obtain a where "row_Reconstitute e r = Inr a"
    using Cons.prems row_Reconstitute_params [OF assms(1)] by (auto simp: row_ok_def)
  ultimately show ?case by auto
qed simp

lemma row_okE:
  assumes "row_ok e pe r" "uuid_codec e"
  obtains a where "Account_ok a" "r = account_params e pe a" "row_Reconstitute e r = Inr (pg_stored pe a)"
    "ar_account_id r = AccountID_String e (a_id a)"
  using assms row_Reconstitute_params [OF assms(2)] by (auto simp: row_ok_def account_params_def)

lemma pg_stored_ok: "Account_ok a \<Longrightarrow> Account_ok (pg_stored pe a)"
  by (simp add: Account_ok_def pg_stored_def)

lemma pg_view_Some_iff:
  assumes "pg_accounts_inv e pe db"
  shows "pg_accounts_view e db i = Some a \<longleftrightarrow>
    (\<exists>r\<in>set (db_accounts db). ar_account_id r = AccountID_String e i \<and> row_Reconstitute e r = Inr a)"
proof -
  have d: "distinct (map ar_account_id (db_accounts db))" using assms by (simp add: pg_accounts_inv_def)
  have "pg_accounts_view e db i = Some a \<longleftrightarrow>
      (\<exists>r. List.find (\<lambda>r. ar_account_id r = AccountID_String e i) (db_accounts db) = Some r
          \<and> row_Reconstitute e r = Inr a)"
    by (auto simp: pg_accounts_view_def split: option.splits sum.splits)
  then show ?thesis by (auto simp: find_key [OF d])
qed

lemma pg_view_account:
  assumes "pg_accounts_inv e pe db" "pg_accounts_view e db i = Some a"
  shows "Account_ok a" "a_id a = i"
proof -
  from assms(1) have codec: "uuid_codec e" by (simp add: pg_accounts_inv_def)
  from assms obtain r where r: "r \<in> set (db_accounts db)" "ar_account_id r = AccountID_String e i"
    "row_Reconstitute e r = Inr a" "row_ok e pe r"
    using pg_view_Some_iff by (auto simp: pg_accounts_inv_def)
  from r(4) codec obtain b where b: "Account_ok b" "row_Reconstitute e r = Inr (pg_stored pe b)"
    "ar_account_id r = AccountID_String e (a_id b)" by (rule row_okE)
  from b r(3) have "a = pg_stored pe b" by simp
  with b r(2) show "Account_ok a" "a_id a = i"
    using account_id.print_inject [OF codec] by (simp_all add: pg_stored_ok) (simp add: pg_stored_def)
qed

lemma pg_view_ok: "pg_accounts_inv e pe db \<Longrightarrow> accounts_ok (pg_accounts_view e db)"
proof -
  assume inv: "pg_accounts_inv e pe db"
  have "a_id ` ran (pg_accounts_view e db) = dom (pg_accounts_view e db)"
    using pg_view_account(2) [OF inv] by (force simp: ran_def dom_def image_iff)
  moreover have "ran (pg_accounts_view e db) \<subseteq> (\<lambda>r. projr (row_Reconstitute e r)) ` set (db_accounts db)"
    using pg_view_Some_iff [OF inv] by (force simp: ran_def image_iff)
  ultimately have "finite (dom (pg_accounts_view e db))"
    by (metis finite_imageI finite_set finite_subset)
  with pg_view_account [OF inv] show ?thesis by (auto simp: accounts_ok_def)
qed

text \<open>The row that an upsert leaves under the key of an account that keeps its identity.\<close>

lemma upsert_row:
  assumes inv: "pg_accounts_inv e pe db" and keep: "keeps_identity a (pg_accounts_view e db (a_id a))"
  shows "List.find (\<lambda>x. ar_account_id x = AccountID_String e (a_id a))
      (upsert_account (account_params e pe a) (db_accounts db)) = Some (account_params e pe a)"
proof (cases "List.find (\<lambda>x. ar_account_id x = AccountID_String e (a_id a)) (db_accounts db)")
  case None
  then show ?thesis by (simp add: upsert_find account_params_def)
next
  case (Some x)
  have codec: "uuid_codec e" and stable: "pg_time_stable pe"
    and d: "distinct (map ar_account_id (db_accounts db))"
    using inv by (simp_all add: pg_accounts_inv_def pg_laws_def)
  from Some find_key [OF d] have "row_ok e pe x" using inv by (auto simp: pg_accounts_inv_def)
  then obtain b where b: "x = account_params e pe b" "row_Reconstitute e x = Inr (pg_stored pe b)"
    using codec by (rule row_okE)
  from Some b(2) keep have "same_identity a (pg_stored pe b)"
    by (simp add: pg_accounts_view_def keeps_identity_def)
  then show ?thesis
    using Some stable
    by (auto simp: upsert_find b(1) account_params_def same_identity_def pg_stored_def pg_time_stable_def)
qed

lemma pg_save_inv:
  assumes inv: "pg_accounts_inv e pe db" and ok: "Account_ok a"
    and keep: "keeps_identity a (pg_accounts_view e db (a_id a))"
    and rows: "db_accounts db' = upsert_account (account_params e pe a) (db_accounts db)"
  shows "pg_accounts_inv e pe db'"
    "pg_accounts_view e db' = (pg_accounts_view e db)(a_id a \<mapsto> pg_stored pe a)"
proof -
  let ?rows = "upsert_account (account_params e pe a) (db_accounts db)"
  have codec: "uuid_codec e" and d: "distinct (map ar_account_id (db_accounts db))"
    using inv by (simp_all add: pg_accounts_inv_def)
  note d' = upsert_distinct [OF d, of "account_params e pe a"]
  have key: "ar_account_id (account_params e pe a) = AccountID_String e (a_id a)"
    by (simp add: account_params_def)
  have "row_ok e pe r" if "r \<in> set ?rows" for r
  proof -
    have find: "List.find (\<lambda>x. ar_account_id x = ar_account_id r) ?rows = Some r"
      using that find_key [OF d'] by blast
    show ?thesis
    proof (cases "ar_account_id r = AccountID_String e (a_id a)")
      case True
      with find upsert_row [OF inv keep] ok show ?thesis by (auto simp: row_ok_def)
    next
      case False
      with find have "r \<in> set (db_accounts db)" using find_key [OF d] by (simp add: upsert_find key)
      with inv show ?thesis by (simp add: pg_accounts_inv_def)
    qed
  qed
  with inv d' show "pg_accounts_inv e pe db'" by (simp add: pg_accounts_inv_def rows)
  show "pg_accounts_view e db' = (pg_accounts_view e db)(a_id a \<mapsto> pg_stored pe a)"
  proof
    fix i
    show "pg_accounts_view e db' i = ((pg_accounts_view e db)(a_id a \<mapsto> pg_stored pe a)) i"
      using upsert_row [OF inv keep] row_Reconstitute_params [OF codec ok, of pe]
      by (cases "i = a_id a")
        (simp_all add: pg_accounts_view_def rows upsert_find key account_id.print_inject [OF codec])
  qed
qed

lemma pg_created_stable:
  assumes "pg_accounts_inv e pe db" "pg_accounts_view e db i = Some a" "a_createdAt b = a_createdAt a"
  shows "a_createdAt (pg_stored pe b) = a_createdAt a"
proof -
  from assms(1) have codec: "uuid_codec e" and stable: "pg_time_stable pe"
    by (simp_all add: pg_accounts_inv_def pg_laws_def)
  from assms obtain r where "row_Reconstitute e r = Inr a" "row_ok e pe r"
    using pg_view_Some_iff by (auto simp: pg_accounts_inv_def)
  with codec obtain c where "a = pg_stored pe c" by (metis row_okE sum.inject(2))
  with assms(3) stable show ?thesis by (simp add: pg_stored_def pg_time_stable_def)
qed

subsection \<open>The contract\<close>

definition pg_account_port :: "env \<Rightarrow> pg_env \<Rightarrow> pg_db account_Repository" where
  "pg_account_port e pe =
     \<lparr>acc_Save = pg_acc_Save e pe, acc_FindByID = pg_acc_FindByID e pe, acc_FindAll = pg_acc_FindAll e pe\<rparr>"

lemma pg_inv_cong:
  "db_accounts db' = db_accounts db \<Longrightarrow> pg_accounts_inv e pe db' = pg_accounts_inv e pe db"
  "db_accounts db' = db_accounts db \<Longrightarrow> pg_accounts_view e db' = pg_accounts_view e db"
  by (simp_all add: pg_accounts_inv_def pg_accounts_view_def)

lemma pg_find_accounts: "db_accounts (snd (pg_acc_FindByID e pe i db)) = db_accounts db"
  "db_accounts (snd (pg_acc_FindAll e pe db)) = db_accounts db"
  by (simp_all add: pg_acc_FindByID_def pg_acc_FindAll_def pg_call_def split: option.splits sum.splits)

lemma pg_all_set:
  assumes inv: "pg_accounts_inv e pe db" and all: "pg_acc_FindAll e pe db = (Inr xs, db')"
  shows "set xs = ran (pg_accounts_view e db)"
proof -
  let ?rows = "order_rows (\<lambda>r s. pg_collate pe (ar_name r) (ar_name s)) (scan_rows pe (db_calls db) (db_accounts db))"
  have codec: "uuid_codec e" and rows: "set ?rows = set (db_accounts db)"
    using inv by (simp_all add: pg_accounts_inv_def pg_laws_def set_scan_rows)
  have "\<forall>r\<in>set ?rows. row_ok e pe r" using inv rows by (simp add: pg_accounts_inv_def)
  from reconstitute_rows_params [OF codec this] all rows
  have xs: "set xs = {a. \<exists>r\<in>set (db_accounts db). row_Reconstitute e r = Inr a}"
    by (auto simp: pg_acc_FindAll_def pg_call_def split: option.splits sum.splits)
  show ?thesis
  proof (rule set_eqI)
    fix a
    have "\<exists>i. ar_account_id r = AccountID_String e i" if "r \<in> set (db_accounts db)" for r
    proof -
      have "row_ok e pe r" using that inv by (simp add: pg_accounts_inv_def)
      then show ?thesis using codec by (rule row_okE) blast
    qed
    then show "a \<in> set xs \<longleftrightarrow> a \<in> ran (pg_accounts_view e db)"
      by (simp add: xs ran_def pg_view_Some_iff [OF inv]) blast
  qed
qed

interpretation pg_repo: account_repository "pg_account_port e pe" "pg_accounts_view e" "pg_accounts_inv e pe"
  "pg_stored pe" for e pe
proof unfold_locales
  fix w a u w'
  assume inv: "pg_accounts_inv e pe w" "Account_ok a" "keeps_identity a (pg_accounts_view e w (a_id a))"
    and save: "acc_Save (pg_account_port e pe) a w = (Inr u, w')"
  from save have "db_accounts w' = upsert_account (account_params e pe a) (db_accounts w)"
    by (auto simp: pg_account_port_def pg_acc_Save_def pg_call_def split: option.splits)
  from pg_save_inv [OF inv this]
  show "pg_accounts_inv e pe w' \<and> pg_accounts_view e w' = (pg_accounts_view e w)(a_id a \<mapsto> pg_stored pe a)" ..
next
  fix w a err w'
  assume "pg_accounts_inv e pe w" "acc_Save (pg_account_port e pe) a w = (Inl err, w')"
  then have "db_accounts w' = db_accounts w"
    by (auto simp: pg_account_port_def pg_acc_Save_def pg_call_def split: option.splits)
  from pg_inv_cong [OF this] \<open>pg_accounts_inv e pe w\<close>
  show "pg_accounts_inv e pe w' \<and> pg_accounts_view e w' = pg_accounts_view e w" by simp
next
  fix w i r w'
  assume "pg_accounts_inv e pe w" "acc_FindByID (pg_account_port e pe) i w = (r, w')"
  moreover from this have "db_accounts w' = db_accounts w"
    using pg_find_accounts(1) [of e pe i w] by (simp add: pg_account_port_def)
  from pg_inv_cong [OF this] calculation
  show "pg_accounts_inv e pe w' \<and> pg_accounts_view e w' = pg_accounts_view e w" by simp
next
  fix w i a w'
  assume "pg_accounts_inv e pe w" "acc_FindByID (pg_account_port e pe) i w = (Inr a, w')"
  then show "pg_accounts_view e w i = Some a"
    by (auto simp: pg_account_port_def pg_acc_FindByID_def pg_call_def pg_accounts_view_def
        split: option.splits)
next
  fix w rs w'
  assume "pg_accounts_inv e pe w" "acc_FindAll (pg_account_port e pe) w = (rs, w')"
  moreover from this have "db_accounts w' = db_accounts w"
    using pg_find_accounts(2) [of e pe w] by (simp add: pg_account_port_def)
  from pg_inv_cong [OF this] calculation
  show "pg_accounts_inv e pe w' \<and> pg_accounts_view e w' = pg_accounts_view e w" by simp
next
  fix w xs w'
  assume "pg_accounts_inv e pe w" "acc_FindAll (pg_account_port e pe) w = (Inr xs, w')"
  then show "set xs = ran (pg_accounts_view e w)" by (simp add: pg_account_port_def pg_all_set)
qed (use pg_created_stable in \<open>auto simp: pg_view_ok pg_stored_def\<close>)

end
