(* ===== verification/Postgres_Events.thy ===== *)
theory Postgres_Events
  imports Postgres_Database
begin

section \<open>Event store, snapshots and outbox (internal/infra/postgres/event_store.go, outbox.go)\<close>

text \<open>
  Append and AppendWithOutbox run their inserts in one database transaction: on any error the
  deferred rollback restores the tables, but not the sequences. Versions are kept unique per
  aggregate by the constraint of the migration, which is the optimistic concurrency control. Every
  error of the insert into \<^verbatim>\<open>events\<close> is reported as a version conflict.
\<close>

definition pg_rollback :: "pg_db \<Rightarrow> pg_db \<Rightarrow> pg_db" where
  "pg_rollback before db = before\<lparr>db_event_seq := db_event_seq db, db_outbox_seq := db_outbox_seq db,
     db_history_seq := db_history_seq db, db_calls := db_calls db\<rparr>"

definition version_taken :: "string \<Rightarrow> int64 \<Rightarrow> event_row list \<Rightarrow> bool" where
  "version_taken aggregateID version rows \<longleftrightarrow>
     list_ex (\<lambda>r. ev_aggregate_id r = aggregateID \<and> ev_version r = version) rows"

definition insert_event ::
  "pg_env \<Rightarrow> string \<Rightarrow> string \<Rightarrow> int64 \<Rightarrow> StoredEvent \<Rightarrow> pg_db \<Rightarrow> (error + unit) \<times> pg_db" where
  "insert_event pe aggregateID aggregateType version event db =
     (case pg_call pe db of
        (Some err, db1) \<Rightarrow> (Inl (ErrExternal err), db1)
      | (None, db1) \<Rightarrow>
          (case nextval (db_event_seq db1) of
             Inl err \<Rightarrow> (Inl err, db1)
           | Inr i \<Rightarrow>
               let db2 = db1\<lparr>db_event_seq := Suc (db_event_seq db1)\<rparr> in
               if version_taken aggregateID version (db_events db2)
               then (Inl (ErrExternal ''duplicate key value violates unique constraint uq_aggregate_version''), db2)
               else (Inr (), db2\<lparr>db_events := db_events db2 @
                      [\<lparr>ev_id = i, ev_aggregate_id = aggregateID, ev_aggregate_type = aggregateType,
                        ev_event_type = EventType_string (se_EventType event), ev_version = version,
                        ev_payload = pg_jsonb pe (se_Payload event),
                        ev_occurred_at = pg_time pe (se_OccurredAt event)\<rparr>]\<rparr>)))"

fun append_events ::
  "pg_env \<Rightarrow> string \<Rightarrow> string \<Rightarrow> int64 \<Rightarrow> nat \<Rightarrow> StoredEvent list \<Rightarrow> pg_db \<Rightarrow> (error + unit) \<times> pg_db" where
  "append_events pe aggregateID aggregateType expectedVersion i [] db = (Inr (), db)"
| "append_events pe aggregateID aggregateType expectedVersion i (event # events) db =
     (case insert_event pe aggregateID aggregateType (expectedVersion + of_nat i + 1) event db of
        (Inl err, db1) \<Rightarrow> (Inl ErrVersionConflict, db1)
      | (Inr _, db1) \<Rightarrow> append_events pe aggregateID aggregateType expectedVersion (Suc i) events db1)"

definition es_Append_pg ::
  "pg_env \<Rightarrow> string \<Rightarrow> string \<Rightarrow> int64 \<Rightarrow> StoredEvent list \<Rightarrow> pg_db \<Rightarrow> (error + unit) \<times> pg_db" where
  "es_Append_pg pe aggregateID aggregateType expectedVersion events db =
     (case pg_call pe db of
        (Some err, db1) \<Rightarrow> (Inl (Wrap ''begin tx'' (ErrExternal err)), db1)
      | (None, db1) \<Rightarrow>
          (case append_events pe aggregateID aggregateType expectedVersion 0 events db1 of
             (Inl err, db2) \<Rightarrow> (Inl err, pg_rollback db1 db2)
           | (Inr _, db2) \<Rightarrow>
               (case pg_call pe db2 of
                  (Some err, db3) \<Rightarrow> (Inl (ErrExternal err), pg_rollback db1 db3)
                | (None, db3) \<Rightarrow> (Inr (), db3))))"

definition row_StoredEvent :: "event_row \<Rightarrow> StoredEvent" where
  "row_StoredEvent r =
     \<lparr>se_ID = decimal (nat (sint (ev_id r))), se_AggregateID = ev_aggregate_id r,
      se_AggregateType = ev_aggregate_type r, se_EventType = EventType (ev_event_type r),
      se_Version = ev_version r, se_Payload = ev_payload r, se_OccurredAt = ev_occurred_at r\<rparr>"

definition es_LoadEventsFrom_pg ::
  "pg_env \<Rightarrow> string \<Rightarrow> int64 \<Rightarrow> pg_db \<Rightarrow> (error + StoredEvent list) \<times> pg_db" where
  "es_LoadEventsFrom_pg pe aggregateID fromVersion db =
     (case pg_call pe db of
        (Some err, db1) \<Rightarrow> (Inl (Wrap ''query events'' (ErrExternal err)), db1)
      | (None, db1) \<Rightarrow>
          let rows = order_rows (\<lambda>r s. sint (ev_version r) \<le> sint (ev_version s))
                (filter (\<lambda>r. ev_aggregate_id r = aggregateID \<and> sint fromVersion < sint (ev_version r))
                   (scan_rows pe (db_calls db) (db_events db1)))
          in (case pg_call pe db1 of
                (Some err, db2) \<Rightarrow> (Inl (ErrExternal err), db2)
              | (None, db2) \<Rightarrow> (Inr (map row_StoredEvent rows), db2)))"

definition es_LoadEvents_pg ::
  "pg_env \<Rightarrow> string \<Rightarrow> pg_db \<Rightarrow> (error + StoredEvent list) \<times> pg_db" where
  "es_LoadEvents_pg pe aggregateID db = es_LoadEventsFrom_pg pe aggregateID 0 db"

subsection \<open>Snapshots\<close>

fun upsert_snapshot :: "snapshot_row \<Rightarrow> snapshot_row list \<Rightarrow> snapshot_row list" where
  "upsert_snapshot r [] = [r]"
| "upsert_snapshot r (x # xs) =
     (if sr_aggregate_id x = sr_aggregate_id r
      then x\<lparr>sr_version := sr_version r, sr_payload := sr_payload r, sr_created_at := sr_created_at r\<rparr> # xs
      else x # upsert_snapshot r xs)"

definition ss_Save_pg :: "pg_env \<Rightarrow> Snapshot \<Rightarrow> pg_db \<Rightarrow> (error + unit) \<times> pg_db" where
  "ss_Save_pg pe snapshot db =
     (case pg_call pe db of
        (Some err, db1) \<Rightarrow> (Inl (ErrExternal err), db1)
      | (None, db1) \<Rightarrow>
          (case sn_Payload snapshot of
             None \<Rightarrow> (Inl (ErrExternal ''null value in column payload violates not-null constraint''), db1)
           | Some payload \<Rightarrow>
               (Inr (), db1\<lparr>db_snapshots := upsert_snapshot
                  \<lparr>sr_aggregate_id = sn_AggregateID snapshot, sr_version = sn_Version snapshot,
                   sr_payload = pg_jsonb pe payload, sr_created_at = pg_now pe (db_calls db)\<rparr>
                  (db_snapshots db1)\<rparr>)))"

text \<open>A missing snapshot is not an error: the zero value is returned, with the version 0 and a
  nil payload.\<close>

definition ss_Load_pg :: "pg_env \<Rightarrow> string \<Rightarrow> pg_db \<Rightarrow> (error + Snapshot) \<times> pg_db" where
  "ss_Load_pg pe aggregateID db =
     (case pg_call pe db of
        (Some err, db1) \<Rightarrow> (Inl (ErrExternal err), db1)
      | (None, db1) \<Rightarrow>
          (case List.find (\<lambda>r. sr_aggregate_id r = aggregateID) (db_snapshots db1) of
             None \<Rightarrow> (Inr \<lparr>sn_AggregateID = '''', sn_Version = 0, sn_Payload = None\<rparr>, db1)
           | Some r \<Rightarrow> (Inr \<lparr>sn_AggregateID = sr_aggregate_id r, sn_Version = sr_version r,
                            sn_Payload = Some (sr_payload r)\<rparr>, db1)))"

subsection \<open>Outbox\<close>

record OutboxEntry =
  oe_ID :: int64
  oe_AggregateID :: string
  oe_AggregateType :: string
  oe_EventType :: string
  oe_Payload :: json
  oe_CreatedAt :: time

text \<open>\<^verbatim>\<open>NOW()\<close> is the start of the transaction, \<open>now\<close>.\<close>

definition insert_outbox ::
  "pg_env \<Rightarrow> time \<Rightarrow> string \<Rightarrow> string \<Rightarrow> StoredEvent \<Rightarrow> pg_db \<Rightarrow> (error + unit) \<times> pg_db" where
  "insert_outbox pe now aggregateID aggregateType event db =
     (case pg_call pe db of
        (Some err, db1) \<Rightarrow> (Inl (ErrExternal err), db1)
      | (None, db1) \<Rightarrow>
          (case nextval (db_outbox_seq db1) of
             Inl err \<Rightarrow> (Inl err, db1)
           | Inr i \<Rightarrow>
               (Inr (), db1\<lparr>db_outbox_seq := Suc (db_outbox_seq db1),
                  db_outbox := db_outbox db1 @
                    [\<lparr>ob_id = i, ob_aggregate_id = aggregateID, ob_aggregate_type = aggregateType,
                      ob_event_type = EventType_string (se_EventType event),
                      ob_payload = pg_jsonb pe (se_Payload event), ob_published = False,
                      ob_created_at = now, ob_published_at = None\<rparr>]\<rparr>)))"

fun append_both ::
  "pg_env \<Rightarrow> time \<Rightarrow> string \<Rightarrow> string \<Rightarrow> int64 \<Rightarrow> nat \<Rightarrow> StoredEvent list \<Rightarrow> pg_db \<Rightarrow> (error + unit) \<times> pg_db" where
  "append_both pe now aggregateID aggregateType expectedVersion i [] db = (Inr (), db)"
| "append_both pe now aggregateID aggregateType expectedVersion i (event # events) db =
     (case insert_event pe aggregateID aggregateType (expectedVersion + of_nat i + 1) event db of
        (Inl err, db1) \<Rightarrow> (Inl ErrVersionConflict, db1)
      | (Inr _, db1) \<Rightarrow>
          (case insert_outbox pe now aggregateID aggregateType event db1 of
             (Inl err, db2) \<Rightarrow> (Inl (Wrap ''write outbox'' err), db2)
           | (Inr _, db2) \<Rightarrow>
               append_both pe now aggregateID aggregateType expectedVersion (Suc i) events db2))"

definition AppendWithOutbox ::
  "pg_env \<Rightarrow> string \<Rightarrow> string \<Rightarrow> int64 \<Rightarrow> StoredEvent list \<Rightarrow> pg_db \<Rightarrow> (error + unit) \<times> pg_db" where
  "AppendWithOutbox pe aggregateID aggregateType expectedVersion events db =
     (case pg_call pe db of
        (Some err, db1) \<Rightarrow> (Inl (Wrap ''begin tx'' (ErrExternal err)), db1)
      | (None, db1) \<Rightarrow>
          (case append_both pe (pg_now pe (db_calls db)) aggregateID aggregateType expectedVersion 0 events db1 of
             (Inl err, db2) \<Rightarrow> (Inl err, pg_rollback db1 db2)
           | (Inr _, db2) \<Rightarrow>
               (case pg_call pe db2 of
                  (Some err, db3) \<Rightarrow> (Inl (ErrExternal err), pg_rollback db1 db3)
                | (None, db3) \<Rightarrow> (Inr (), db3))))"

definition row_OutboxEntry :: "outbox_row \<Rightarrow> OutboxEntry" where
  "row_OutboxEntry r =
     \<lparr>oe_ID = ob_id r, oe_AggregateID = ob_aggregate_id r, oe_AggregateType = ob_aggregate_type r,
      oe_EventType = ob_event_type r, oe_Payload = ob_payload r, oe_CreatedAt = ob_created_at r\<rparr>"

text \<open>Rows that another session has locked are skipped before the limit is applied.\<close>

definition FetchUnpublished ::
  "pg_env \<Rightarrow> nat \<Rightarrow> pg_db \<Rightarrow> (error + OutboxEntry list) \<times> pg_db" where
  "FetchUnpublished pe batchSize db =
     (case pg_call pe db of
        (Some err, db1) \<Rightarrow> (Inl (Wrap ''fetch outbox'' (ErrExternal err)), db1)
      | (None, db1) \<Rightarrow>
          let rows = take batchSize (order_rows (\<lambda>r s. ob_created_at r \<le> ob_created_at s)
                (filter (\<lambda>r. \<not> ob_published r \<and> \<not> pg_locked pe (db_calls db) (ob_id r))
                   (scan_rows pe (db_calls db) (db_outbox db1))))
          in (case pg_call pe db1 of
                (Some err, db2) \<Rightarrow> (Inl (ErrExternal err), db2)
              | (None, db2) \<Rightarrow> (Inr (map row_OutboxEntry rows), db2)))"

definition MarkPublished :: "pg_env \<Rightarrow> int64 list \<Rightarrow> pg_db \<Rightarrow> (error + unit) \<times> pg_db" where
  "MarkPublished pe ids db =
     (case pg_call pe db of
        (Some err, db1) \<Rightarrow> (Inl (ErrExternal err), db1)
      | (None, db1) \<Rightarrow>
          (Inr (), db1\<lparr>db_outbox := map (\<lambda>r. if ob_id r \<in> set ids
              then r\<lparr>ob_published := True, ob_published_at := Some (pg_now pe (db_calls db))\<rparr> else r)
              (db_outbox db1)\<rparr>))"

subsection \<open>What an append adds\<close>

text \<open>The rows of a stream of events, apart from their serial keys.\<close>

fun stream_rows :: "pg_env \<Rightarrow> string \<Rightarrow> string \<Rightarrow> int64 \<Rightarrow> nat \<Rightarrow> StoredEvent list \<Rightarrow> event_row list" where
  "stream_rows pe aggregateID aggregateType expectedVersion i [] = []"
| "stream_rows pe aggregateID aggregateType expectedVersion i (event # events) =
     \<lparr>ev_id = 0, ev_aggregate_id = aggregateID, ev_aggregate_type = aggregateType,
      ev_event_type = EventType_string (se_EventType event), ev_version = expectedVersion + of_nat i + 1,
      ev_payload = pg_jsonb pe (se_Payload event), ev_occurred_at = pg_time pe (se_OccurredAt event)\<rparr>
     # stream_rows pe aggregateID aggregateType expectedVersion (Suc i) events"

definition row_body :: "event_row \<Rightarrow> event_row" where
  "row_body r = r\<lparr>ev_id := 0\<rparr>"

text \<open>What a row of the events table and its row in the outbox have in common.\<close>

definition event_content :: "event_row \<Rightarrow> string \<times> string \<times> string \<times> json" where
  "event_content r = (ev_aggregate_id r, ev_aggregate_type r, ev_event_type r, ev_payload r)"

definition outbox_content :: "outbox_row \<Rightarrow> string \<times> string \<times> string \<times> json" where
  "outbox_content r = (ob_aggregate_id r, ob_aggregate_type r, ob_event_type r, ob_payload r)"

definition mirrored :: "pg_db \<Rightarrow> bool" where
  "mirrored db \<longleftrightarrow> map event_content (db_events db) = map outbox_content (db_outbox db)"

definition versions_unique :: "pg_db \<Rightarrow> bool" where
  "versions_unique db \<longleftrightarrow> distinct (map (\<lambda>r. (ev_aggregate_id r, ev_version r)) (db_events db))"

text \<open>Everything but the event store and the outbox.\<close>

definition other_tables :: "pg_db \<Rightarrow> pg_db \<Rightarrow> bool" where
  "other_tables db db' \<longleftrightarrow> db_accounts db' = db_accounts db \<and> db_snapshots db' = db_snapshots db
     \<and> db_balances db' = db_balances db \<and> db_history db' = db_history db"

definition same_tables :: "pg_db \<Rightarrow> pg_db \<Rightarrow> bool" where
  "same_tables db db' \<longleftrightarrow> other_tables db db' \<and> db_events db' = db_events db \<and> db_outbox db' = db_outbox db"

lemmas table_frames [frame_simps] = other_tables_def same_tables_def

lemma other_tables_refl [simp]: "other_tables db db"
  by (simp add: other_tables_def)

lemma other_tables_trans: "other_tables a b \<Longrightarrow> other_tables b c \<Longrightarrow> other_tables a c"
  by (simp add: other_tables_def)

lemma same_tables_rollback [simp]: "same_tables db (pg_rollback db db')"
  by (simp add: frame_simps pg_rollback_def)

lemma same_tables_call [simp]: "same_tables db (snd (pg_call pe db))"
  by (simp add: frame_simps)

lemma same_tables_trans: "same_tables a b \<Longrightarrow> same_tables b c \<Longrightarrow> same_tables a c"
  by (simp add: frame_simps)

lemma insert_event_Inr:
  assumes "insert_event pe aid ty v ev db = (Inr u, db')"
  obtains r where "db_events db' = db_events db @ [r]" "[row_body r] = stream_rows pe aid ty (v - 1) 0 [ev]"
    "\<not> version_taken aid v (db_events db)" "db_outbox db' = db_outbox db" "other_tables db db'"
  using assms
  by (auto simp: insert_event_def pg_call_def Let_def row_body_def other_tables_def
      split: option.splits sum.splits if_splits)

lemma insert_outbox_Inr:
  assumes "insert_outbox pe now aid ty ev db = (Inr u, db')"
  obtains r where "db_outbox db' = db_outbox db @ [r]"
    "outbox_content r = (aid, ty, EventType_string (se_EventType ev), pg_jsonb pe (se_Payload ev))"
    "\<not> ob_published r" "db_events db' = db_events db" "other_tables db db'"
  using assms
  by (auto simp: insert_outbox_def pg_call_def outbox_content_def other_tables_def
      split: option.splits sum.splits)

lemma append_events_Inr:
  assumes "append_events pe aid ty ver i evs db = (Inr u, db')"
  shows "(\<exists>news. db_events db' = db_events db @ news \<and> map row_body news = stream_rows pe aid ty ver i evs)
    \<and> db_outbox db' = db_outbox db \<and> other_tables db db'"
  using assms
proof (induction evs arbitrary: i db)
  case (Cons ev evs)
  from Cons.prems obtain u1 db1 where
    ins: "insert_event pe aid ty (ver + of_nat i + 1) ev db = (Inr u1, db1)"
    and rest: "append_events pe aid ty ver (Suc i) evs db1 = (Inr u, db')"
    by (auto split: prod.splits sum.splits)
  from ins obtain r where r: "db_events db1 = db_events db @ [r]"
    "[row_body r] = stream_rows pe aid ty (ver + of_nat i) 0 [ev]" "db_outbox db1 = db_outbox db"
    "other_tables db db1" by (auto elim!: insert_event_Inr)
  from Cons.IH [OF rest] obtain news where "db_events db' = db_events db1 @ news"
    "map row_body news = stream_rows pe aid ty ver (Suc i) evs" "db_outbox db' = db_outbox db1"
    "other_tables db1 db'" by auto
  with r show ?case by (auto intro!: exI [of _ "r # news"] intro: other_tables_trans)
qed simp

lemma append_both_Inr:
  assumes "append_both pe now aid ty ver i evs db = (Inr u, db')"
  shows "\<exists>news outs. db_events db' = db_events db @ news \<and> map row_body news = stream_rows pe aid ty ver i evs
    \<and> db_outbox db' = db_outbox db @ outs \<and> map outbox_content outs = map event_content news
    \<and> list_all (\<lambda>r. \<not> ob_published r) outs \<and> other_tables db db'"
  using assms
proof (induction evs arbitrary: i db)
  case (Cons ev evs)
  from Cons.prems obtain u1 db1 u2 db2 where
    ins: "insert_event pe aid ty (ver + of_nat i + 1) ev db = (Inr u1, db1)"
    and out: "insert_outbox pe now aid ty ev db1 = (Inr u2, db2)"
    and rest: "append_both pe now aid ty ver (Suc i) evs db2 = (Inr u, db')"
    by (auto split: prod.splits sum.splits)
  from ins obtain r where r: "db_events db1 = db_events db @ [r]"
    "[row_body r] = stream_rows pe aid ty (ver + of_nat i) 0 [ev]" "db_outbox db1 = db_outbox db"
    "other_tables db db1" by (auto elim!: insert_event_Inr)
  from out obtain q where q: "db_outbox db2 = db_outbox db1 @ [q]"
    "outbox_content q = (aid, ty, EventType_string (se_EventType ev), pg_jsonb pe (se_Payload ev))"
    "\<not> ob_published q" "db_events db2 = db_events db1" "other_tables db1 db2"
    by (rule insert_outbox_Inr)
  have content: "outbox_content q = event_content r"
    using q(2) r(2) by (cases r) (simp add: row_body_def event_content_def)
  from Cons.IH [OF rest] obtain news outs where "db_events db' = db_events db2 @ news"
    "map row_body news = stream_rows pe aid ty ver (Suc i) evs" "db_outbox db' = db_outbox db2 @ outs"
    "map outbox_content outs = map event_content news" "list_all (\<lambda>r. \<not> ob_published r) outs"
    "other_tables db2 db'" by auto
  with r q content show ?case
    by (auto intro!: exI [of _ "r # news"] exI [of _ "q # outs"] intro: other_tables_trans)
qed simp

lemma same_tables_refl [simp]: "same_tables db db"
  by (simp add: same_tables_def)

lemma Append_result:
  assumes "es_Append_pg pe aid ty ver evs db = (r, db')"
  shows "case r of Inl err \<Rightarrow> same_tables db db'
    | Inr _ \<Rightarrow> (\<exists>news. db_events db' = db_events db @ news \<and> map row_body news = stream_rows pe aid ty ver 0 evs)
        \<and> db_outbox db' = db_outbox db \<and> other_tables db db'"
proof -
  let ?db1 = "snd (pg_call pe db)"
  obtain r2 db2 where app: "append_events pe aid ty ver 0 evs ?db1 = (r2, db2)" by fastforce
  have ok: "same_tables db ?db1" by simp
  show ?thesis
  proof (cases r)
    case (Inl err)
    then have "db' = ?db1 \<or> (\<exists>db3. db' = pg_rollback ?db1 db3)"
      using assms app by (auto simp: es_Append_pg_def split: prod.splits option.splits sum.splits)
    then show ?thesis using Inl ok same_tables_trans [OF ok same_tables_rollback] by auto
  next
    case (Inr u)
    then have "r2 = Inr ()" "db' = snd (pg_call pe db2)"
      using assms app by (auto simp: es_Append_pg_def split: prod.splits option.splits sum.splits)
    with app append_events_Inr [of pe aid ty ver 0 evs ?db1 "()" db2] Inr show ?thesis
      by (auto simp: other_tables_def)
  qed
qed

lemma AppendWithOutbox_result:
  assumes "AppendWithOutbox pe aid ty ver evs db = (r, db')"
  shows "case r of Inl err \<Rightarrow> same_tables db db'
    | Inr _ \<Rightarrow> \<exists>news outs. db_events db' = db_events db @ news
        \<and> map row_body news = stream_rows pe aid ty ver 0 evs \<and> db_outbox db' = db_outbox db @ outs
        \<and> map outbox_content outs = map event_content news \<and> list_all (\<lambda>r. \<not> ob_published r) outs
        \<and> other_tables db db'"
proof -
  let ?db1 = "snd (pg_call pe db)" and ?now = "pg_now pe (db_calls db)"
  obtain r2 db2 where app: "append_both pe ?now aid ty ver 0 evs ?db1 = (r2, db2)" by fastforce
  have ok: "same_tables db ?db1" by simp
  show ?thesis
  proof (cases r)
    case (Inl err)
    then have "db' = ?db1 \<or> (\<exists>db3. db' = pg_rollback ?db1 db3)"
      using assms app by (auto simp: AppendWithOutbox_def split: prod.splits option.splits sum.splits)
    then show ?thesis using Inl ok same_tables_trans [OF ok same_tables_rollback] by auto
  next
    case (Inr u)
    then have "r2 = Inr ()" "db' = snd (pg_call pe db2)"
      using assms app by (auto simp: AppendWithOutbox_def split: prod.splits option.splits sum.splits)
    with app append_both_Inr [of pe ?now aid ty ver 0 evs ?db1 "()" db2] Inr show ?thesis
      by (auto simp: other_tables_def)
  qed
qed

lemma version_taken_iff:
  "version_taken aid v rows \<longleftrightarrow> (aid, v) \<in> (\<lambda>r. (ev_aggregate_id r, ev_version r)) ` set rows"
  by (auto simp: version_taken_def list_ex_iff)

lemma row_body_fields:
  "row_body r = q \<Longrightarrow> ev_aggregate_id r = ev_aggregate_id q \<and> ev_aggregate_type r = ev_aggregate_type q
     \<and> ev_event_type r = ev_event_type q \<and> ev_version r = ev_version q \<and> ev_payload r = ev_payload q
     \<and> ev_occurred_at r = ev_occurred_at q"
  by (auto simp: row_body_def)

lemma insert_event_unique:
  assumes "insert_event pe aid ty v ev db = (Inr u, db')" "versions_unique db"
  shows "versions_unique db'"
proof -
  from assms(1) obtain r where r: "db_events db' = db_events db @ [r]"
    "[row_body r] = stream_rows pe aid ty (v - 1) 0 [ev]" "\<not> version_taken aid v (db_events db)"
    by (rule insert_event_Inr)
  from r(2) have "ev_aggregate_id r = aid \<and> ev_version r = v" by (auto dest!: row_body_fields)
  with r(1,3) assms(2) show ?thesis by (simp add: versions_unique_def version_taken_iff)
qed

lemma append_both_unique:
  "append_both pe now aid ty ver i evs db = (Inr u, db') \<Longrightarrow> versions_unique db \<Longrightarrow> versions_unique db'"
proof (induction evs arbitrary: i db)
  case (Cons ev evs)
  from Cons.prems(1) obtain u1 db1 u2 db2 where
    ins: "insert_event pe aid ty (ver + of_nat i + 1) ev db = (Inr u1, db1)"
    and out: "insert_outbox pe now aid ty ev db1 = (Inr u2, db2)"
    and rest: "append_both pe now aid ty ver (Suc i) evs db2 = (Inr u, db')"
    by (auto split: prod.splits sum.splits)
  have "versions_unique db2"
    using insert_event_unique [OF ins Cons.prems(2)] out
    by (elim insert_outbox_Inr) (simp add: versions_unique_def)
  with Cons.IH [OF rest] show ?case by simp
qed simp

lemma AppendWithOutbox_unique:
  assumes "AppendWithOutbox pe aid ty ver evs db = (r, db')" "versions_unique db"
  shows "versions_unique db'"
proof (cases r)
  case (Inl err)
  then show ?thesis using AppendWithOutbox_result [OF assms(1)] assms(2)
    by (simp add: same_tables_def versions_unique_def)
next
  case (Inr u)
  let ?db1 = "snd (pg_call pe db)"
  have "versions_unique ?db1" using assms(2) by (simp add: versions_unique_def)
  moreover obtain db2 where "append_both pe (pg_now pe (db_calls db)) aid ty ver 0 evs ?db1 = (Inr (), db2)"
    "db' = snd (pg_call pe db2)"
    using assms(1) Inr by (auto simp: AppendWithOutbox_def split: prod.splits option.splits sum.splits)
  ultimately show ?thesis using append_both_unique by (fastforce simp: versions_unique_def)
qed

text \<open>A version that is taken stops the append.\<close>

lemma AppendWithOutbox_conflict:
  assumes "version_taken aid (ver + 1) (db_events db)" and "evs \<noteq> []"
  shows "isl (fst (AppendWithOutbox pe aid ty ver evs db))"
proof -
  from assms(2) obtain ev evs' where evs: "evs = ev # evs'" by (cases evs) auto
  have "isl (fst (insert_event pe aid ty (ver + 1) ev (snd (pg_call pe db))))"
    using assms(1) by (auto simp: insert_event_def pg_call_def Let_def split: option.splits sum.splits)
  then show ?thesis
    by (auto simp: AppendWithOutbox_def evs split: prod.splits option.splits sum.splits)
qed

subsection \<open>Loading a stream\<close>

lemma stream_rows_enumerate:
  "stream_rows pe aid ty ver i evs = map (\<lambda>(k, ev).
     \<lparr>ev_id = 0, ev_aggregate_id = aid, ev_aggregate_type = ty,
      ev_event_type = EventType_string (se_EventType ev), ev_version = ver + of_nat k + 1,
      ev_payload = pg_jsonb pe (se_Payload ev), ev_occurred_at = pg_time pe (se_OccurredAt ev)\<rparr>)
     (enumerate i evs)"
  by (induction evs arbitrary: i) simp_all

lemma sorted_rows_unique:
  fixes f :: "'r \<Rightarrow> int"
  assumes "mset xs = mset ys" "sorted_wrt (\<lambda>a b. f a \<le> f b) xs" "sorted_wrt (\<lambda>a b. f a < f b) ys"
  shows "xs = ys"
proof -
  have le: "sorted_wrt (\<le>) (map f ys)" "distinct (map f ys)" "sorted (map f xs)"
    using assms(2,3) strict_sorted_iff [of "map f ys"]
    by (simp_all add: sorted_wrt_map)
  have set: "set xs = set ys" by (metis assms(1) set_mset_mset)
  have "mset (map f xs) = mset (map f ys)" using assms(1) by (metis mset_map)
  then have "distinct (map f xs)" using le(2) mset_eq_imp_distinct_iff by blast
  moreover have "inj_on f (set xs \<union> set ys)" using le(2) by (simp add: set distinct_map)
  ultimately show ?thesis using le set map_sorted_distinct_set_unique by blast
qed

lemma LoadEventsFrom_Inr:
  assumes "es_LoadEventsFrom_pg pe aid v db = (Inr xs, db')" "pg_scan_ok pe"
  obtains rows where "xs = map row_StoredEvent rows"
    "mset rows = mset (filter (\<lambda>r. ev_aggregate_id r = aid \<and> sint v < sint (ev_version r)) (db_events db))"
    "sorted_wrt (\<lambda>r s. sint (ev_version r) \<le> sint (ev_version s)) rows"
proof -
  let ?rows = "order_rows (\<lambda>r s. sint (ev_version r) \<le> sint (ev_version s))
      (filter (\<lambda>r. ev_aggregate_id r = aid \<and> sint v < sint (ev_version r))
         (scan_rows pe (db_calls db) (db_events db)))"
  have "xs = map row_StoredEvent ?rows"
    using assms(1) by (auto simp: es_LoadEventsFrom_pg_def pg_call_def Let_def split: option.splits)
  moreover have "mset ?rows = mset (filter (\<lambda>r. ev_aggregate_id r = aid \<and> sint v < sint (ev_version r)) (db_events db))"
    by (simp add: mset_scan_rows [OF assms(2)])
  moreover have "sorted_wrt (\<lambda>r s. sint (ev_version r) \<le> sint (ev_version s)) ?rows"
    by (rule order_rows_sorted) auto
  ultimately show ?thesis by (rule that)
qed

text \<open>The versions of a new stream grow strictly, as long as they fit an int64.\<close>

lemma stream_sorted:
  assumes "length evs < 2 ^ 63" "map row_body news = stream_rows pe aid ty 0 0 evs"
  shows "sorted_wrt (\<lambda>r s. sint (ev_version r) < sint (ev_version s)) news"
    "\<forall>r\<in>set news. ev_aggregate_id r = aid \<and> 0 < sint (ev_version r)"
proof -
  have "length (map row_body news) = length evs" unfolding assms(2) stream_rows_enumerate by simp
  then have len: "length news = length evs" by simp
  have nth: "ev_aggregate_id (news ! k) = aid \<and> sint (ev_version (news ! k)) = int (Suc k)"
    if "k < length news" for k
  proof -
    have "row_body (news ! k) = map row_body news ! k" using that by simp
    also have "\<dots> = stream_rows pe aid ty 0 0 evs ! k" by (simp only: assms(2))
    finally have "ev_aggregate_id (news ! k) = aid \<and> ev_version (news ! k) = of_nat (Suc k)"
      using that len by (auto simp: stream_rows_enumerate nth_enumerate_eq dest!: row_body_fields)
    moreover have "sint (of_nat (Suc k) :: int64) = int (Suc k)"
      using that len assms(1) by (intro sint_of_nat_small) simp
    ultimately show ?thesis by metis
  qed
  then show "sorted_wrt (\<lambda>r s. sint (ev_version r) < sint (ev_version s)) news"
    by (simp add: sorted_wrt_iff_nth_less)
  from nth show "\<forall>r\<in>set news. ev_aggregate_id r = aid \<and> 0 < sint (ev_version r)"
    by (auto simp: in_set_conv_nth)
qed

subsection \<open>Properties\<close>

definition sample_event :: "int \<Rightarrow> StoredEvent" where
  "sample_event n = \<lparr>se_ID = '''', se_AggregateID = '''', se_AggregateType = '''',
     se_EventType = EventTransactionRecorded, se_Version = 0, se_Payload = JInt n, se_OccurredAt = 5000\<rparr>"

text \<open>C31. AppendWithOutbox is all or nothing: on an error no table has changed; on success the events
  are appended with consecutive versions after the expected one, in order, and the outbox gets one
  unpublished row with the same content for each of them.\<close>

theorem AppendWithOutbox_atomic:
  assumes "AppendWithOutbox pe aid ty ver evs db = (r, db')"
  shows "case r of Inl err \<Rightarrow> same_tables db db'
    | Inr _ \<Rightarrow> \<exists>news outs. db_events db' = db_events db @ news
        \<and> map row_body news = stream_rows pe aid ty ver 0 evs \<and> db_outbox db' = db_outbox db @ outs
        \<and> map outbox_content outs = map event_content news \<and> list_all (\<lambda>r. \<not> ob_published r) outs
        \<and> other_tables db db'"
  using assms by (rule AppendWithOutbox_result)

theorem AppendWithOutbox_atomic_witness:
  "case AppendWithOutbox sample_pg ''t1'' ''transaction'' 0 [sample_event 1, sample_event 2] empty_db of
     (r, db') \<Rightarrow> r = Inr () \<and> map ev_version (db_events db') = [1, 2] \<and> length (db_outbox db') = 2
       \<and> db_accounts db' = []"
proof -
  obtain r db' where run: "AppendWithOutbox sample_pg ''t1'' ''transaction'' 0
      [sample_event 1, sample_event 2] empty_db = (r, db')" by fastforce
  have "case AppendWithOutbox sample_pg ''t1'' ''transaction'' 0 [sample_event 1, sample_event 2] empty_db of
     (r, db') \<Rightarrow> r = Inr () \<and> map ev_version (db_events db') = [1, 2] \<and> length (db_outbox db') = 2"
    by code_simp
  with AppendWithOutbox_atomic [OF run] run show ?thesis
    by (auto simp: other_tables_def empty_db_def)
qed

text \<open>The unique version constraint and the outbox stay in step with the event store: whatever
  AppendWithOutbox returns, every event has exactly one outbox row with its content, in the same
  order, and no aggregate has two events with one version.\<close>

lemma AppendWithOutbox_invariant:
  assumes "AppendWithOutbox pe aid ty ver evs db = (r, db')" and "mirrored db" and "versions_unique db"
  shows "mirrored db' \<and> versions_unique db'"
proof -
  have "mirrored db'"
    using AppendWithOutbox_result [OF assms(1)] assms(2)
    by (cases r) (auto simp: mirrored_def same_tables_def)
  with AppendWithOutbox_unique [OF assms(1,3)] show ?thesis by simp
qed

lemma AppendWithOutbox_invariant_witness:
  "mirrored (snd (AppendWithOutbox sample_pg ''t1'' ''transaction'' 0 [sample_event 1] empty_db))"
proof -
  obtain r db' where run: "AppendWithOutbox sample_pg ''t1'' ''transaction'' 0 [sample_event 1] empty_db = (r, db')"
    by fastforce
  have "mirrored empty_db" "versions_unique empty_db"
    by (simp_all add: mirrored_def versions_unique_def empty_db_def)
  from AppendWithOutbox_invariant [OF run this] run show ?thesis by simp
qed

text \<open>Optimistic concurrency: of two writers that append after the same version of an aggregate,
  only the first succeeds; the second gets an error and changes nothing.\<close>

lemma append_conflict:
  assumes "AppendWithOutbox pe aid ty ver evs db = (Inr u, db1)" and "evs \<noteq> []" and "evs' \<noteq> []"
    and "AppendWithOutbox pe aid ty' ver evs' db1 = (r, db2)"
  shows "isl r \<and> same_tables db1 db2"
proof -
  from AppendWithOutbox_result [OF assms(1)] obtain news where
    news: "db_events db1 = db_events db @ news" "map row_body news = stream_rows pe aid ty ver 0 evs" by auto
  from assms(2) obtain ev evs0 where "evs = ev # evs0" by (cases evs) auto
  with news(2) obtain r0 rs where "news = r0 # rs" "ev_aggregate_id r0 = aid" "ev_version r0 = ver + 1"
    by (cases news) (auto dest!: row_body_fields)
  then have "version_taken aid (ver + 1) (db_events db1)"
    by (simp add: version_taken_def news(1))
  from AppendWithOutbox_conflict [OF this assms(3), of pe ty'] assms(4) have "isl r" by simp
  with AppendWithOutbox_result [OF assms(4)] show ?thesis by (cases r) auto
qed

lemma append_conflict_witness:
  "\<exists>db1. AppendWithOutbox sample_pg ''t1'' ''transaction'' 0 [sample_event 1] empty_db = (Inr (), db1)
    \<and> isl (fst (AppendWithOutbox sample_pg ''t1'' ''transaction'' 0 [sample_event 2] db1))"
proof -
  have "fst (AppendWithOutbox sample_pg ''t1'' ''transaction'' 0 [sample_event 1] empty_db) = Inr ()"
    by code_simp
  then obtain db1 where run: "AppendWithOutbox sample_pg ''t1'' ''transaction'' 0 [sample_event 1] empty_db
      = (Inr (), db1)" by (metis prod.collapse)
  obtain r db2 where run2: "AppendWithOutbox sample_pg ''t1'' ''transaction'' 0 [sample_event 2] db1 = (r, db2)"
    by fastforce
  from append_conflict [OF run _ _ run2] run run2 show ?thesis by simp
qed

text \<open>C32. Append then load: when the events of an aggregate that had none are appended with version 0 and then
  loaded, both without an error, they come back complete, in the order in which they were appended
  and numbered from 1, with the payloads and times as the columns keep them, whatever order the
  database scans its rows in.\<close>

theorem append_load_roundtrip:
  assumes "pg_scan_ok pe" and "\<forall>r\<in>set (db_events db). ev_aggregate_id r \<noteq> aid" and "length evs < 2 ^ 63"
    and "AppendWithOutbox pe aid ty 0 evs db = (Inr u, db1)" and "es_LoadEvents_pg pe aid db1 = (Inr xs, db2)"
  shows "map (\<lambda>x. (se_AggregateID x, se_AggregateType x, EventType_string (se_EventType x), se_Version x,
           se_Payload x, se_OccurredAt x)) xs
    = map (\<lambda>(k, ev). (aid, ty, EventType_string (se_EventType ev), of_nat k + 1, pg_jsonb pe (se_Payload ev),
           pg_time pe (se_OccurredAt ev))) (enumerate 0 evs)"
proof -
  from AppendWithOutbox_result [OF assms(4)] obtain news where
    news: "db_events db1 = db_events db @ news" "map row_body news = stream_rows pe aid ty 0 0 evs" by auto
  note stream = stream_sorted [OF assms(3) news(2)]
  from assms(5,1) obtain rows where rows: "xs = map row_StoredEvent rows"
    "mset rows = mset (filter (\<lambda>r. ev_aggregate_id r = aid \<and> sint (0 :: int64) < sint (ev_version r)) (db_events db1))"
    "sorted_wrt (\<lambda>r s. sint (ev_version r) \<le> sint (ev_version s)) rows"
    unfolding es_LoadEvents_pg_def by (rule LoadEventsFrom_Inr)
  have "filter (\<lambda>r. ev_aggregate_id r = aid \<and> sint (0 :: int64) < sint (ev_version r)) (db_events db1) = news"
    using assms(2) stream(2) by (auto simp: news(1) filter_empty_conv filter_id_conv)
  then have eq: "rows = news"
    using rows(2) by (intro sorted_rows_unique [where f = "\<lambda>r. sint (ev_version r)", OF _ rows(3) stream(1)]) simp
  let ?cols = "\<lambda>r. (ev_aggregate_id r, ev_aggregate_type r, ev_event_type r, ev_version r, ev_payload r, ev_occurred_at r)"
  have "map (\<lambda>x. (se_AggregateID x, se_AggregateType x, EventType_string (se_EventType x), se_Version x,
           se_Payload x, se_OccurredAt x)) xs = map ?cols (map row_body news)"
    by (simp add: rows(1) eq row_StoredEvent_def row_body_def)
  then show ?thesis unfolding news(2) stream_rows_enumerate by (simp add: case_prod_beta)
qed

theorem append_load_roundtrip_witness:
  "\<exists>db1 xs db2. AppendWithOutbox sample_pg ''t1'' ''transaction'' 0 [sample_event 1, sample_event 2] empty_db
       = (Inr (), db1) \<and> es_LoadEvents_pg sample_pg ''t1'' db1 = (Inr xs, db2)
     \<and> map se_Payload xs = [JInt 1, JInt 2]"
proof -
  have "case AppendWithOutbox sample_pg ''t1'' ''transaction'' 0 [sample_event 1, sample_event 2] empty_db of
      (r, db1) \<Rightarrow> r = Inr () \<and> \<not> isl (fst (es_LoadEvents_pg sample_pg ''t1'' db1))" by code_simp
  then obtain db1 xs db2 where
    run: "AppendWithOutbox sample_pg ''t1'' ''transaction'' 0 [sample_event 1, sample_event 2] empty_db = (Inr (), db1)"
    and load: "es_LoadEvents_pg sample_pg ''t1'' db1 = (Inr xs, db2)"
    by (auto simp: isl_def split: prod.splits) (metis prod.collapse sum.exhaust)
  have "pg_scan_ok sample_pg" using sample_pg_laws by (simp add: pg_laws_def)
  from append_load_roundtrip [OF this _ _ run load]
  have "map snd (map snd (map snd (map snd (map (\<lambda>x. (se_AggregateID x, se_AggregateType x,
      EventType_string (se_EventType x), se_Version x, se_Payload x, se_OccurredAt x)) xs))))
    = [(JInt 1, 5000), (JInt 2, 5000)]"
    by (simp add: empty_db_def sample_pg_def sample_event_def)
  then have "map fst (map (\<lambda>x. (se_Payload x, se_OccurredAt x)) xs) = [JInt 1, JInt 2]"
    by (simp add: comp_def)
  with run load show ?thesis by (simp add: comp_def)
qed

subsection \<open>Snapshots as checkpoints\<close>

lemma sorted_split:
  assumes "sorted_wrt (\<lambda>x y. f x \<le> f y) xs"
  shows "xs = takeWhile (\<lambda>x. f x \<le> (v :: int)) xs @ filter (\<lambda>x. v < f x) xs"
  using assms
proof (induction xs)
  case (Cons x xs)
  show ?case
  proof (cases "f x \<le> v")
    case False
    with Cons.prems have "\<forall>y\<in>set (x # xs). v < f y" by fastforce
    then show ?thesis by (auto simp: filter_id_conv)
  qed (use Cons in auto)
qed simp

text \<open>With unique versions the rows of a load are strictly sorted.\<close>

lemma LoadEventsFrom_strict:
  assumes "es_LoadEventsFrom_pg pe aid v db = (Inr xs, db')" "pg_scan_ok pe" "versions_unique db"
  obtains rows where "xs = map row_StoredEvent rows"
    "mset rows = mset (filter (\<lambda>r. ev_aggregate_id r = aid \<and> sint v < sint (ev_version r)) (db_events db))"
    "sorted_wrt (\<lambda>r s. sint (ev_version r) < sint (ev_version s)) rows"
proof -
  from assms(1,2) obtain rows where rows: "xs = map row_StoredEvent rows"
    "mset rows = mset (filter (\<lambda>r. ev_aggregate_id r = aid \<and> sint v < sint (ev_version r)) (db_events db))"
    "sorted_wrt (\<lambda>r s. sint (ev_version r) \<le> sint (ev_version s)) rows" by (rule LoadEventsFrom_Inr)
  let ?key = "\<lambda>r. (ev_aggregate_id r, ev_version r)" and ?ver = "\<lambda>r. sint (ev_version r)"
  have "mset (map ?key rows) = mset (map ?key (filter (\<lambda>r. ev_aggregate_id r = aid \<and> sint v < sint (ev_version r)) (db_events db)))"
    by (simp only: mset_map rows(2))
  then have "distinct (map ?key rows)"
    using assms(3) mset_eq_imp_distinct_iff by (fastforce simp: versions_unique_def distinct_map_filter)
  moreover have "\<forall>r\<in>set rows. ev_aggregate_id r = aid" using mset_eq_setD [OF rows(2)] by auto
  ultimately have "distinct (map ?ver rows)" by (auto simp: distinct_map inj_on_def)
  with rows(3) have "sorted_wrt (<) (map ?ver rows)" using strict_sorted_iff [of "map ?ver rows"] by (simp add: sorted_wrt_map)
  with that [OF rows(1,2)] show ?thesis by (simp add: sorted_wrt_map)
qed

lemma load_from_checkpoint:
  assumes "pg_scan_ok pe" "versions_unique db" "es_LoadEventsFrom_pg pe aid v0 db = (Inr all, db1)"
    and "db_events db2 = db_events db" "es_LoadEventsFrom_pg pe aid v db2 = (Inr rest, db3)" "sint v0 \<le> sint v"
  shows "all = takeWhile (\<lambda>x. sint (se_Version x) \<le> sint v) all @ rest"
proof -
  let ?late = "\<lambda>r. sint v < sint (ev_version r)"
  from assms(3,1,2) obtain rows where rows: "all = map row_StoredEvent rows"
    "mset rows = mset (filter (\<lambda>r. ev_aggregate_id r = aid \<and> sint v0 < sint (ev_version r)) (db_events db))"
    "sorted_wrt (\<lambda>r s. sint (ev_version r) < sint (ev_version s)) rows" by (rule LoadEventsFrom_strict)
  from assms(5,1) obtain rows2 where rows2: "rest = map row_StoredEvent rows2"
    "mset rows2 = mset (filter (\<lambda>r. ev_aggregate_id r = aid \<and> ?late r) (db_events db2))"
    "sorted_wrt (\<lambda>r s. sint (ev_version r) \<le> sint (ev_version s)) rows2" by (rule LoadEventsFrom_Inr)
  have "mset (filter ?late rows) = filter_mset ?late (mset rows)" by simp
  also have "\<dots> = mset rows2"
    using assms(6) unfolding rows(2) rows2(2) assms(4) by (auto simp: filter_filter_mset intro!: filter_mset_cong)
  finally have "rows2 = filter ?late rows"
    using rows2(3) sorted_wrt_filter [OF rows(3), of ?late]
    by (intro sorted_rows_unique [where f = "\<lambda>r. sint (ev_version r)"]) simp_all
  moreover have "sorted_wrt (\<lambda>r s. sint (ev_version r) \<le> sint (ev_version s)) rows"
    using rows(3) by (rule sorted_wrt_mono_rel [rotated]) simp
  ultimately have "rows = takeWhile (\<lambda>r. sint (ev_version r) \<le> sint v) rows @ rows2"
    using sorted_split [of "\<lambda>r. sint (ev_version r)" rows "sint v"] by simp
  then show ?thesis
    by (simp add: rows(1) rows2(1) takeWhile_map comp_def row_StoredEvent_def) (metis map_append)
qed

text \<open>C33. A snapshot is a checkpoint: for any way of replaying events, the state after all events of an aggregate
  is the state at the snapshot's version, replayed with what LoadEventsFrom returns for that version,
  whatever order the database scans its rows in.\<close>

theorem checkpoint_replay:
  assumes "pg_scan_ok pe" "versions_unique db" "es_LoadEvents_pg pe aid db = (Inr all, db1)"
    and "db_events db2 = db_events db" "es_LoadEventsFrom_pg pe aid v db2 = (Inr rest, db3)" "0 \<le> sint v"
  shows "foldl f s all = foldl f (foldl f s (takeWhile (\<lambda>x. sint (se_Version x) \<le> sint v) all)) rest"
proof -
  from load_from_checkpoint [OF assms(1,2) assms(3) [unfolded es_LoadEvents_pg_def] assms(4,5)] assms(6)
  have "all = takeWhile (\<lambda>x. sint (se_Version x) \<le> sint v) all @ rest" by simp
  then show ?thesis by (metis foldl_append)
qed

theorem checkpoint_replay_witness:
  "case AppendWithOutbox sample_pg ''t1'' ''transaction'' 0 [sample_event 1, sample_event 2, sample_event 3] empty_db of
     (r, db) \<Rightarrow>
       (case (es_LoadEvents_pg sample_pg ''t1'' db, es_LoadEventsFrom_pg sample_pg ''t1'' 2 db) of
          ((Inr all, db1), (Inr rest, db2)) \<Rightarrow>
             map se_Payload all = map se_Payload (takeWhile (\<lambda>x. sint (se_Version x) \<le> 2) all) @ map se_Payload rest
        | _ \<Rightarrow> False)"
proof -
  let ?app = "AppendWithOutbox sample_pg ''t1'' ''transaction'' 0 [sample_event 1, sample_event 2, sample_event 3] empty_db"
  obtain r db where app: "?app = (r, db)" by fastforce
  obtain ra db1 where load: "es_LoadEvents_pg sample_pg ''t1'' db = (ra, db1)" by fastforce
  obtain rb db2 where from2: "es_LoadEventsFrom_pg sample_pg ''t1'' 2 db = (rb, db2)" by fastforce
  have "\<not> isl (fst (es_LoadEvents_pg sample_pg ''t1'' (snd ?app))) \<and> \<not> isl (fst (es_LoadEventsFrom_pg sample_pg ''t1'' 2 (snd ?app)))"
    by code_simp
  then obtain all rest where rs: "ra = Inr all" "rb = Inr rest"
    by (cases ra; cases rb) (simp_all add: app load from2)
  have "versions_unique empty_db" by (simp add: versions_unique_def empty_db_def)
  with AppendWithOutbox_unique [OF app] have "versions_unique db" by simp
  moreover have "pg_scan_ok sample_pg" using sample_pg_laws by (simp add: pg_laws_def)
  ultimately have "foldl (\<lambda>xs x. xs @ [se_Payload x]) [] all =
      foldl (\<lambda>xs x. xs @ [se_Payload x]) (foldl (\<lambda>xs x. xs @ [se_Payload x]) []
        (takeWhile (\<lambda>x. sint (se_Version x) \<le> sint (2 :: int64)) all)) rest"
    by (intro checkpoint_replay [OF _ _ load [unfolded rs] refl from2 [unfolded rs]]) simp_all
  moreover have "foldl (\<lambda>xs x. xs @ [se_Payload x]) ys zs = ys @ map se_Payload zs" for ys and zs :: "StoredEvent list"
    by (induction zs arbitrary: ys) simp_all
  ultimately show ?thesis by (simp add: app load from2 rs)
qed

end
