(* ===== verification/Read_Projection.thy ===== *)
theory Read_Projection
  imports Postgres_Events
begin

section \<open>Read model (internal/projection)\<close>

text \<open>
  The read side: the projector applies events to the tables \<^verbatim>\<open>account_balances\<close> and
  \<^verbatim>\<open>transaction_history\<close>, the query service reads them. SQL addition reports an overflow
  where the write model wraps around, and every entry type other than CREDIT is projected as a
  debit. Projecting a transaction is one database transaction.
\<close>

record AccountView =
  av_AccountID :: string
  av_Name :: string
  av_AccountType :: string
  av_Currency :: string
  av_Balance :: int64
  av_Status :: string
  av_Version :: int64
  av_UpdatedAt :: time

record TransactionHistoryEntry =
  th_ID :: int64
  th_TransactionID :: string
  th_AccountID :: string
  th_EntryType :: string
  th_Amount :: int64
  th_Currency :: string
  th_Description :: string
  th_BalanceAfter :: int64
  th_CreatedAt :: time

subsection \<open>Projector\<close>

definition ProjectAccountOpened ::
  "pg_env \<Rightarrow> AccountOpenedEvent \<Rightarrow> pg_db \<Rightarrow> (error + unit) \<times> pg_db" where
  "ProjectAccountOpened pe event db =
     (case pg_call pe db of
        (Some err, db1) \<Rightarrow> (Inl (Wrap ''project account opened'' (ErrExternal err)), db1)
      | (None, db1) \<Rightarrow>
          if list_ex (\<lambda>r. br_account_id r = ao_AccountID event) (db_balances db1) then (Inr (), db1)
          else (Inr (), db1\<lparr>db_balances := db_balances db1 @
            [\<lparr>br_account_id = ao_AccountID event, br_name = ao_Name event,
              br_account_type = ao_AccountType event, br_currency = ao_Currency event, br_balance = 0,
              br_status = ''ACTIVE'', br_version = 1, br_updated_at = pg_time pe (ao_Timestamp event)\<rparr>]\<rparr>))"

definition entry_delta :: "EntryEventData \<Rightarrow> int64" where
  "entry_delta entry = (if ed_Type entry = ''CREDIT'' then ed_Amount entry else - ed_Amount entry)"

text \<open>The \<^verbatim>\<open>UPDATE\<close>: no row with the key is not an error.\<close>

fun bump_balance :: "string \<Rightarrow> int64 \<Rightarrow> time \<Rightarrow> balance_row list \<Rightarrow> error + balance_row list" where
  "bump_balance k delta t [] = Inr []"
| "bump_balance k delta t (r # rs) =
     (if br_account_id r = k then
        (case bigint_add (br_balance r) delta of
           Inl err \<Rightarrow> Inl err
         | Inr b \<Rightarrow>
             (case bigint_add (br_version r) 1 of
                Inl err \<Rightarrow> Inl err
              | Inr v \<Rightarrow> Inr (r\<lparr>br_balance := b, br_version := v, br_updated_at := t\<rparr> # rs)))
      else
        (case bump_balance k delta t rs of
           Inl err \<Rightarrow> Inl err
         | Inr rs' \<Rightarrow> Inr (r # rs')))"

definition project_entry ::
  "pg_env \<Rightarrow> TransactionRecordedEvent \<Rightarrow> EntryEventData \<Rightarrow> pg_db \<Rightarrow> (error + unit) \<times> pg_db" where
  "project_entry pe event entry db =
     (let k = ed_AccountID entry; t = pg_time pe (tr_Timestamp event) in
      case pg_call pe db of
        (Some err, db1) \<Rightarrow> (Inl (Wrap (''update balance for '' @ k) (ErrExternal err)), db1)
      | (None, db1) \<Rightarrow>
          (case bump_balance k (entry_delta entry) t (db_balances db1) of
             Inl err \<Rightarrow> (Inl (Wrap (''update balance for '' @ k) err), db1)
           | Inr rows \<Rightarrow>
               (case pg_call pe (db1\<lparr>db_balances := rows\<rparr>) of
                  (Some err, db2) \<Rightarrow> (Inl (Wrap (''get balance after for '' @ k) (ErrExternal err)), db2)
                | (None, db2) \<Rightarrow>
                    (case List.find (\<lambda>r. br_account_id r = k) (db_balances db2) of
                       None \<Rightarrow> (Inl (Wrap (''get balance after for '' @ k) ErrNoRows), db2)
                     | Some r \<Rightarrow>
                         (case pg_call pe db2 of
                            (Some err, db3) \<Rightarrow> (Inl (Wrap (''insert history for '' @ k) (ErrExternal err)), db3)
                          | (None, db3) \<Rightarrow>
                              (case nextval (db_history_seq db3) of
                                 Inl err \<Rightarrow> (Inl (Wrap (''insert history for '' @ k) err), db3)
                               | Inr i \<Rightarrow>
                                   (Inr (), db3\<lparr>db_history_seq := Suc (db_history_seq db3),
                                      db_history := db_history db3 @
                                        [\<lparr>hr_id = i, hr_transaction_id = tr_TransactionID event,
                                          hr_account_id = k, hr_entry_type = ed_Type entry,
                                          hr_amount = ed_Amount entry, hr_currency = ed_Currency entry,
                                          hr_description = tr_Description event,
                                          hr_balance_after = br_balance r, hr_created_at = t\<rparr>]\<rparr>)))))))"

fun project_entries ::
  "pg_env \<Rightarrow> TransactionRecordedEvent \<Rightarrow> EntryEventData list \<Rightarrow> pg_db \<Rightarrow> (error + unit) \<times> pg_db" where
  "project_entries pe event [] db = (Inr (), db)"
| "project_entries pe event (entry # entries) db =
     (case project_entry pe event entry db of
        (Inl err, db1) \<Rightarrow> (Inl err, db1)
      | (Inr _, db1) \<Rightarrow> project_entries pe event entries db1)"

definition ProjectTransactionRecorded ::
  "pg_env \<Rightarrow> TransactionRecordedEvent \<Rightarrow> pg_db \<Rightarrow> (error + unit) \<times> pg_db" where
  "ProjectTransactionRecorded pe event db =
     (case pg_call pe db of
        (Some err, db1) \<Rightarrow> (Inl (Wrap ''begin tx'' (ErrExternal err)), db1)
      | (None, db1) \<Rightarrow>
          (case project_entries pe event (tr_Entries event) db1 of
             (Inl err, db2) \<Rightarrow> (Inl err, pg_rollback db1 db2)
           | (Inr _, db2) \<Rightarrow>
               (case pg_call pe db2 of
                  (Some err, db3) \<Rightarrow> (Inl (ErrExternal err), pg_rollback db1 db3)
                | (None, db3) \<Rightarrow> (Inr (), db3))))"

subsection \<open>Query service\<close>

definition row_AccountView :: "balance_row \<Rightarrow> AccountView" where
  "row_AccountView r =
     \<lparr>av_AccountID = br_account_id r, av_Name = br_name r, av_AccountType = br_account_type r,
      av_Currency = br_currency r, av_Balance = br_balance r, av_Status = br_status r,
      av_Version = br_version r, av_UpdatedAt = br_updated_at r\<rparr>"

definition GetAccountBalance :: "pg_env \<Rightarrow> string \<Rightarrow> pg_db \<Rightarrow> (error + AccountView) \<times> pg_db" where
  "GetAccountBalance pe accountID db =
     (case pg_call pe db of
        (Some err, db1) \<Rightarrow> (Inl (Wrap ''query account balance'' (ErrExternal err)), db1)
      | (None, db1) \<Rightarrow>
          (case List.find (\<lambda>r. br_account_id r = accountID) (db_balances db1) of
             None \<Rightarrow> (Inl ErrViewNotFound, db1)
           | Some r \<Rightarrow> (Inr (row_AccountView r), db1)))"

definition ListAccounts :: "pg_env \<Rightarrow> pg_db \<Rightarrow> (error + AccountView list) \<times> pg_db" where
  "ListAccounts pe db =
     (case pg_call pe db of
        (Some err, db1) \<Rightarrow> (Inl (Wrap ''query accounts'' (ErrExternal err)), db1)
      | (None, db1) \<Rightarrow>
          let rows = order_rows (\<lambda>r s. pg_collate pe (br_name r) (br_name s))
                (scan_rows pe (db_calls db) (db_balances db1))
          in (case pg_call pe db1 of
                (Some err, db2) \<Rightarrow> (Inl (ErrExternal err), db2)
              | (None, db2) \<Rightarrow> (Inr (map row_AccountView rows), db2)))"

definition row_HistoryEntry :: "history_row \<Rightarrow> TransactionHistoryEntry" where
  "row_HistoryEntry r =
     \<lparr>th_ID = hr_id r, th_TransactionID = hr_transaction_id r, th_AccountID = hr_account_id r,
      th_EntryType = hr_entry_type r, th_Amount = hr_amount r, th_Currency = hr_currency r,
      th_Description = hr_description r, th_BalanceAfter = hr_balance_after r,
      th_CreatedAt = hr_created_at r\<rparr>"

text \<open>\<^verbatim>\<open>limit\<close> and \<^verbatim>\<open>offset\<close> are Go ints; the server refuses a negative offset.\<close>

definition GetTransactionHistory ::
  "pg_env \<Rightarrow> string \<Rightarrow> int64 \<Rightarrow> int64 \<Rightarrow> pg_db \<Rightarrow> (error + TransactionHistoryEntry list) \<times> pg_db" where
  "GetTransactionHistory pe accountID limit offset db =
     (let limit' = (if sint limit \<le> 0 then 50 else sint limit) in
      case pg_call pe db of
        (Some err, db1) \<Rightarrow> (Inl (Wrap ''query history'' (ErrExternal err)), db1)
      | (None, db1) \<Rightarrow>
          if sint offset < 0 then (Inl (ErrExternal ''OFFSET must not be negative''), db1)
          else
            let rows = take (nat limit') (drop (nat (sint offset))
                  (order_rows (\<lambda>r s. hr_created_at s \<le> hr_created_at r)
                     (filter (\<lambda>r. hr_account_id r = accountID)
                        (scan_rows pe (db_calls db) (db_history db1)))))
            in (case pg_call pe db1 of
                  (Some err, db2) \<Rightarrow> (Inl (ErrExternal err), db2)
                | (None, db2) \<Rightarrow> (Inr (map row_HistoryEntry rows), db2)))"

text \<open>The interface, over any store.\<close>

record 'w QueryService =
  qs_GetAccountBalance :: "string \<Rightarrow> 'w \<Rightarrow> (error + AccountView) \<times> 'w"
  qs_ListAccounts :: "'w \<Rightarrow> (error + AccountView list) \<times> 'w"
  qs_GetTransactionHistory :: "string \<Rightarrow> int64 \<Rightarrow> int64 \<Rightarrow> 'w \<Rightarrow> (error + TransactionHistoryEntry list) \<times> 'w"

subsection \<open>What a projection does\<close>

definition read_balance :: "balance_row list \<Rightarrow> string \<Rightarrow> int64 option" where
  "read_balance rows k = map_option br_balance (List.find (\<lambda>r. br_account_id r = k) rows)"

text \<open>What the entries of an event add to the balance of an account.\<close>

definition entries_delta :: "EntryEventData list \<Rightarrow> string \<Rightarrow> int64" where
  "entries_delta entries k = sum_list (map entry_delta (filter (\<lambda>d. ed_AccountID d = k) entries))"

text \<open>The balance the history shows for an account: the one after its last entry, 0 before any.\<close>

definition history_balance :: "history_row list \<Rightarrow> string \<Rightarrow> int64" where
  "history_balance rows k =
     (case filter (\<lambda>r. hr_account_id r = k) rows of [] \<Rightarrow> 0 | xs \<Rightarrow> hr_balance_after (last xs))"

definition history_consistent :: "pg_db \<Rightarrow> bool" where
  "history_consistent db \<longleftrightarrow>
     (\<forall>k b. read_balance (db_balances db) k = Some b \<longrightarrow> history_balance (db_history db) k = b)
     \<and> (\<forall>h\<in>set (db_history db). read_balance (db_balances db) (hr_account_id h) \<noteq> None)"

definition write_side_same :: "pg_db \<Rightarrow> pg_db \<Rightarrow> bool" where
  "write_side_same db db' \<longleftrightarrow> db_accounts db' = db_accounts db \<and> db_events db' = db_events db
     \<and> db_outbox db' = db_outbox db \<and> db_snapshots db' = db_snapshots db"

lemmas write_side_frame [frame_simps] = write_side_same_def

lemma write_side_same_refl [simp]: "write_side_same db db"
  by (simp add: write_side_same_def)

lemma bigint_add_Inr: "bigint_add x y = Inr z \<Longrightarrow> z = x + y"
  by (auto simp: bigint_add_def split: if_splits)

lemma bump_balance_read:
  "bump_balance k delta t rows = Inr rows' \<Longrightarrow>
     read_balance rows' k' = (if k' = k then map_option (\<lambda>b. b + delta) (read_balance rows k)
                              else read_balance rows k')"
  by (induction rows arbitrary: rows')
    (auto simp: read_balance_def dest: bigint_add_Inr split: if_splits sum.splits)

lemma project_entry_Inr:
  assumes "project_entry pe event entry db = (Inr u, db')"
  obtains h b where "read_balance (db_balances db) (ed_AccountID entry) = Some b"
    "\<And>k. read_balance (db_balances db') k = (if k = ed_AccountID entry then Some (b + entry_delta entry)
           else read_balance (db_balances db) k)"
    "db_history db' = db_history db @ [h]" "hr_account_id h = ed_AccountID entry"
    "hr_balance_after h = b + entry_delta entry" "hr_entry_type h = ed_Type entry"
    "hr_amount h = ed_Amount entry" "hr_transaction_id h = tr_TransactionID event" "write_side_same db db'"
proof -
  let ?k = "ed_AccountID entry"
  from assms obtain rows r i where
    bump: "bump_balance ?k (entry_delta entry) (pg_time pe (tr_Timestamp event)) (db_balances db) = Inr rows"
    and find: "List.find (\<lambda>r. br_account_id r = ?k) rows = Some r"
    and db': "db_balances db' = rows" "write_side_same db db'"
    "db_history db' = db_history db @ [\<lparr>hr_id = i, hr_transaction_id = tr_TransactionID event,
        hr_account_id = ?k, hr_entry_type = ed_Type entry, hr_amount = ed_Amount entry,
        hr_currency = ed_Currency entry, hr_description = tr_Description event,
        hr_balance_after = br_balance r, hr_created_at = pg_time pe (tr_Timestamp event)\<rparr>]"
    by (auto simp: project_entry_def pg_call_def Let_def write_side_same_def
        split: option.splits sum.splits)
  note read = bump_balance_read [OF bump]
  from find have "read_balance rows ?k = Some (br_balance r)" by (simp add: read_balance_def)
  with read [of ?k] obtain b where b: "read_balance (db_balances db) ?k = Some b"
    "br_balance r = b + entry_delta entry" by (cases "read_balance (db_balances db) ?k") auto
  show ?thesis by (rule that [OF b(1) _ db'(3)]) (use read b db' in \<open>auto\<close>)
qed

lemma history_balance_snoc:
  "history_balance (rows @ [h]) k = (if hr_account_id h = k then hr_balance_after h else history_balance rows k)"
  by (cases "filter (\<lambda>r. hr_account_id r = k) rows") (auto simp: history_balance_def)

lemma project_entries_Inr:
  assumes "project_entries pe event entries db = (Inr u, db')"
  shows "(\<forall>k. read_balance (db_balances db') k
            = map_option (\<lambda>b. b + entries_delta entries k) (read_balance (db_balances db) k))
    \<and> (\<exists>news. db_history db' = db_history db @ news
         \<and> map (\<lambda>h. (hr_account_id h, hr_entry_type h, hr_amount h)) news
           = map (\<lambda>d. (ed_AccountID d, ed_Type d, ed_Amount d)) entries)
    \<and> write_side_same db db' \<and> (history_consistent db \<longrightarrow> history_consistent db')"
  using assms
proof (induction entries arbitrary: db)
  case Nil
  then show ?case by (simp add: entries_delta_def option.map_ident)
next
  case (Cons entry entries)
  from Cons.prems obtain u1 db1 where
    one: "project_entry pe event entry db = (Inr u1, db1)"
    and rest: "project_entries pe event entries db1 = (Inr u, db')"
    by (auto split: prod.splits sum.splits)
  from one obtain h b where h: "read_balance (db_balances db) (ed_AccountID entry) = Some b"
    "\<And>k. read_balance (db_balances db1) k = (if k = ed_AccountID entry then Some (b + entry_delta entry)
           else read_balance (db_balances db) k)"
    "db_history db1 = db_history db @ [h]" "hr_account_id h = ed_AccountID entry"
    "hr_balance_after h = b + entry_delta entry" "hr_entry_type h = ed_Type entry"
    "hr_amount h = ed_Amount entry" "hr_transaction_id h = tr_TransactionID event" "write_side_same db db1"
    by (rule project_entry_Inr) (rule that)
  have cons1: "history_consistent db \<longrightarrow> history_consistent db1"
    using h(1-5) by (auto simp: history_consistent_def history_balance_snoc)
  from Cons.IH [OF rest] obtain news where IH:
    "\<And>k. read_balance (db_balances db') k
       = map_option (\<lambda>b. b + entries_delta entries k) (read_balance (db_balances db1) k)"
    "db_history db' = db_history db1 @ news"
    "map (\<lambda>h. (hr_account_id h, hr_entry_type h, hr_amount h)) news
       = map (\<lambda>d. (ed_AccountID d, ed_Type d, ed_Amount d)) entries"
    "write_side_same db1 db'" "history_consistent db1 \<longrightarrow> history_consistent db'" by auto
  have "read_balance (db_balances db') k
      = map_option (\<lambda>b. b + entries_delta (entry # entries) k) (read_balance (db_balances db) k)" for k
    using h(1) by (simp add: IH(1) h(2) entries_delta_def add.assoc)
  then show ?case using IH(2-5) h(3,4,6,7,9) cons1
    by (auto simp: write_side_same_def intro!: exI [of _ "h # news"])
qed

lemma projection_call_simps [simp]:
  "history_consistent (snd (pg_call pe db)) = history_consistent db"
  "write_side_same (snd (pg_call pe db)) db' = write_side_same db db'"
  "write_side_same db (snd (pg_call pe db')) = write_side_same db db'"
  by (simp_all add: history_consistent_def write_side_same_def)

lemma read_balance_append:
  "read_balance (rows @ [r]) k = (case read_balance rows k of
      Some b \<Rightarrow> Some b | None \<Rightarrow> if br_account_id r = k then Some (br_balance r) else None)"
  by (induction rows) (auto simp: read_balance_def)

lemma read_balance_None_iff: "read_balance rows k = None \<longleftrightarrow> \<not> list_ex (\<lambda>r. br_account_id r = k) rows"
  by (induction rows) (auto simp: read_balance_def)

lemma ProjectTransactionRecorded_result:
  assumes "ProjectTransactionRecorded pe event db = (r, db')"
  shows "case r of
      Inl err \<Rightarrow> same_tables db db'
    | Inr _ \<Rightarrow> (\<forall>k. read_balance (db_balances db') k
            = map_option (\<lambda>b. b + entries_delta (tr_Entries event) k) (read_balance (db_balances db) k))
        \<and> (\<exists>news. db_history db' = db_history db @ news
             \<and> map (\<lambda>h. (hr_account_id h, hr_entry_type h, hr_amount h)) news
               = map (\<lambda>d. (ed_AccountID d, ed_Type d, ed_Amount d)) (tr_Entries event))
        \<and> write_side_same db db' \<and> (history_consistent db \<longrightarrow> history_consistent db')"
proof -
  let ?db1 = "snd (pg_call pe db)"
  obtain r2 db2 where run: "project_entries pe event (tr_Entries event) ?db1 = (r2, db2)" by fastforce
  have ok: "same_tables db ?db1" by simp
  show ?thesis
  proof (cases r)
    case (Inl err)
    then have "db' = ?db1 \<or> (\<exists>db3. db' = pg_rollback ?db1 db3)"
      using assms run by (auto simp: ProjectTransactionRecorded_def split: prod.splits option.splits sum.splits)
    then show ?thesis using Inl ok same_tables_trans [OF ok same_tables_rollback] by auto
  next
    case (Inr u)
    then have "r2 = Inr ()" "db' = snd (pg_call pe db2)"
      using assms run by (auto simp: ProjectTransactionRecorded_def split: prod.splits option.splits sum.splits)
    with run project_entries_Inr [of pe event "tr_Entries event" ?db1 "()" db2] Inr show ?thesis
      by simp
  qed
qed

lemma ProjectAccountOpened_result:
  assumes "ProjectAccountOpened pe event db = (r, db')"
  shows "write_side_same db db' \<and> db_history db' = db_history db"
    "read_balance (db_balances db') k =
       (case read_balance (db_balances db) k of
          Some b \<Rightarrow> Some b
        | None \<Rightarrow> if r = Inr () \<and> k = ao_AccountID event then Some 0 else None)"
proof -
  show "write_side_same db db' \<and> db_history db' = db_history db"
    using assms by (auto simp: ProjectAccountOpened_def pg_call_def write_side_same_def
        split: option.splits if_splits)
  show "read_balance (db_balances db') k =
       (case read_balance (db_balances db) k of
          Some b \<Rightarrow> Some b
        | None \<Rightarrow> if r = Inr () \<and> k = ao_AccountID event then Some 0 else None)"
    using assms read_balance_None_iff [of "db_balances db" k]
    by (auto simp: ProjectAccountOpened_def pg_call_def read_balance_append split: option.splits if_splits)
qed

subsection \<open>When a projection fails\<close>

text \<open>There is room for the entries: the history has keys left, and no version and no balance that is
  reached on the way leaves the range of \<^verbatim>\<open>BIGINT\<close>.\<close>

definition int_delta :: "EntryEventData list \<Rightarrow> string \<Rightarrow> int" where
  "int_delta ds k = sum_list (map (\<lambda>d. sint (entry_delta d)) (filter (\<lambda>d. ed_AccountID d = k) ds))"

definition entries_fit :: "pg_db \<Rightarrow> EntryEventData list \<Rightarrow> bool" where
  "entries_fit db ds \<longleftrightarrow> int (db_history_seq db) + int (length ds) < 2 ^ 63
     \<and> (\<forall>k r. List.find (\<lambda>r. br_account_id r = k) (db_balances db) = Some r \<longrightarrow>
          sint (br_version r) + int (length ds) < 2 ^ 63
          \<and> (\<forall>n\<le>length ds. in_int64 (sint (br_balance r) + int_delta (take n ds) k)))"

text \<open>One of the round trips between two states of the database failed.\<close>

definition faulted :: "pg_env \<Rightarrow> pg_db \<Rightarrow> pg_db \<Rightarrow> bool" where
  "faulted pe db db' \<longleftrightarrow> (\<exists>n. db_calls db \<le> n \<and> n < db_calls db' \<and> pg_fault pe n \<noteq> None)"

lemma bigint_add_fits:
  assumes "in_int64 (sint x + sint y)"
  shows "bigint_add x y = Inr (x + y)" "sint (x + y) = sint x + sint y"
  using assms by (simp_all add: bigint_add_def int64_simps)

lemma bump_balance_total:
  assumes "List.find (\<lambda>r. br_account_id r = k) rows = Some r"
    and "in_int64 (sint (br_balance r) + sint delta)" "in_int64 (sint (br_version r) + 1)"
  obtains rows' r' where "bump_balance k delta t rows = Inr rows'"
    "List.find (\<lambda>r. br_account_id r = k) rows' = Some r'"
    "sint (br_balance r') = sint (br_balance r) + sint delta" "sint (br_version r') = sint (br_version r) + 1"
    "\<And>k'. k' \<noteq> k \<Longrightarrow> List.find (\<lambda>r. br_account_id r = k') rows' = List.find (\<lambda>r. br_account_id r = k') rows"
  using assms(1)
proof (induction rows arbitrary: thesis)
  case (Cons x rows)
  show ?case
  proof (cases "br_account_id x = k")
    case True
    then have "x = r" using Cons.prems(2) by simp
    note fits = bigint_add_fits [OF assms(2)] bigint_add_fits [of "br_version r" 1, simplified, OF assms(3)]
    show ?thesis
      by (rule Cons.prems(1) [of "r\<lparr>br_balance := br_balance r + delta, br_version := br_version r + 1, br_updated_at := t\<rparr> # rows"
            "r\<lparr>br_balance := br_balance r + delta, br_version := br_version r + 1, br_updated_at := t\<rparr>"])
        (use True \<open>x = r\<close> fits in simp_all)
  next
    case False
    with Cons.prems(2) have "List.find (\<lambda>r. br_account_id r = k) rows = Some r" by simp
    from Cons.IH [OF _ this] obtain rows' r' where "bump_balance k delta t rows = Inr rows'"
      "List.find (\<lambda>r. br_account_id r = k) rows' = Some r'"
      "sint (br_balance r') = sint (br_balance r) + sint delta" "sint (br_version r') = sint (br_version r) + 1"
      "\<And>k'. k' \<noteq> k \<Longrightarrow> List.find (\<lambda>r. br_account_id r = k') rows' = List.find (\<lambda>r. br_account_id r = k') rows"
      by blast
    then show ?thesis using False by (intro Cons.prems(1) [of "x # rows'" r']) auto
  qed
qed simp

lemma faulted_trans: "faulted pe db1 db2 \<Longrightarrow> db_calls db \<le> db_calls db1 \<Longrightarrow> db_calls db2 \<le> db_calls db3 \<Longrightarrow>
    faulted pe db db3"
  unfolding faulted_def by (meson order_trans less_le_trans)

lemma faulted_call: "pg_fault pe (db_calls db) = Some err \<Longrightarrow> db_calls db' = Suc (db_calls db) \<Longrightarrow> faulted pe db db'"
  unfolding faulted_def by (intro exI [of _ "db_calls db"]) simp

text \<open>One entry whose account has a row and for which there is room.\<close>

lemma entries_fit_head:
  assumes "entries_fit db (d # ds)" "List.find (\<lambda>r. br_account_id r = ed_AccountID d) (db_balances db) = Some r"
  shows "in_int64 (sint (br_balance r) + sint (entry_delta d))" "in_int64 (sint (br_version r) + 1)"
    "nextval (db_history_seq db) = Inr (of_nat (Suc (db_history_seq db)))"
proof -
  from assms have fit: "sint (br_version r) + int (length (d # ds)) < 2 ^ 63"
    "\<And>n. n \<le> length (d # ds) \<Longrightarrow> in_int64 (sint (br_balance r) + int_delta (take n (d # ds)) (ed_AccountID d))"
    by (auto simp: entries_fit_def)
  from fit(2) [of 1] show "in_int64 (sint (br_balance r) + sint (entry_delta d))" by (simp add: int_delta_def)
  have "- (2 ^ 63) \<le> sint (br_version r)" using sint_ge [of "br_version r"] by simp
  with fit(1) show "in_int64 (sint (br_version r) + 1)" by (simp add: in_int64_def)
  show "nextval (db_history_seq db) = Inr (of_nat (Suc (db_history_seq db)))"
    using assms(1) by (simp add: entries_fit_def nextval_def)
qed

lemma entries_fit_tail:
  assumes "entries_fit db (d # ds)" "List.find (\<lambda>r. br_account_id r = ed_AccountID d) (db_balances db) = Some r"
    and "List.find (\<lambda>r. br_account_id r = ed_AccountID d) (db_balances db') = Some r'"
    and "sint (br_balance r') = sint (br_balance r) + sint (entry_delta d)"
    and "sint (br_version r') = sint (br_version r) + 1"
    and other: "\<And>k. k \<noteq> ed_AccountID d \<Longrightarrow>
      List.find (\<lambda>r. br_account_id r = k) (db_balances db') = List.find (\<lambda>r. br_account_id r = k) (db_balances db)"
    and "db_history_seq db' = Suc (db_history_seq db)"
  shows "entries_fit db' ds"
  unfolding entries_fit_def
proof (intro conjI allI impI)
  show "int (db_history_seq db') + int (length ds) < 2 ^ 63" using assms(1,7) by (simp add: entries_fit_def)
  fix k x assume x: "List.find (\<lambda>r. br_account_id r = k) (db_balances db') = Some x"
  obtain y where y: "List.find (\<lambda>r. br_account_id r = k) (db_balances db) = Some y"
    "sint (br_balance x) = sint (br_balance y) + (if k = ed_AccountID d then sint (entry_delta d) else 0)"
    "sint (br_version x) \<le> sint (br_version y) + 1"
    using x assms(2-5) other by (cases "k = ed_AccountID d") auto
  from assms(1) y(1) have fit: "sint (br_version y) + int (length (d # ds)) < 2 ^ 63"
    "\<And>n. n \<le> length (d # ds) \<Longrightarrow> in_int64 (sint (br_balance y) + int_delta (take n (d # ds)) k)"
    by (auto simp: entries_fit_def)
  from fit(1) y(3) show "sint (br_version x) + int (length ds) < 2 ^ 63" by simp
  fix n assume "n \<le> length ds"
  then show "in_int64 (sint (br_balance x) + int_delta (take n ds) k)"
    using fit(2) [of "Suc n"] y(2) by (auto simp: int_delta_def add.assoc split: if_splits)
qed

lemma project_entry_total:
  assumes "project_entry pe event d db = (r, db')" "entries_fit db (d # ds)"
    and "read_balance (db_balances db) (ed_AccountID d) \<noteq> None"
  shows "db_calls db \<le> db_calls db'
    \<and> (case r of Inl err \<Rightarrow> faulted pe db db'
       | Inr u \<Rightarrow> entries_fit db' ds \<and> (\<forall>k. read_balance (db_balances db') k = None \<longleftrightarrow> read_balance (db_balances db) k = None))"
proof -
  let ?k = "ed_AccountID d" and ?t = "pg_time pe (tr_Timestamp event)"
  obtain r0 where r0: "List.find (\<lambda>r. br_account_id r = ?k) (db_balances db) = Some r0"
    using assms(3) by (auto simp: read_balance_def)
  note head = entries_fit_head [OF assms(2) r0]
  from r0 head(1,2) obtain rows r1 where rows: "bump_balance ?k (entry_delta d) ?t (db_balances db) = Inr rows"
    "List.find (\<lambda>r. br_account_id r = ?k) rows = Some r1"
    "sint (br_balance r1) = sint (br_balance r0) + sint (entry_delta d)" "sint (br_version r1) = sint (br_version r0) + 1"
    "\<And>k'. k' \<noteq> ?k \<Longrightarrow> List.find (\<lambda>r. br_account_id r = k') rows = List.find (\<lambda>r. br_account_id r = k') (db_balances db)"
    by (rule bump_balance_total [where t = ?t]) (rule that)
  consider (fault) err where "r = Inl err" "\<exists>n\<in>{0, 1, 2}. pg_fault pe (db_calls db + n) \<noteq> None \<and> db_calls db' = db_calls db + Suc n"
    | (went) u where "r = Inr u" "db_calls db' = db_calls db + 3" "db_balances db' = rows"
        "db_history_seq db' = Suc (db_history_seq db)"
    using assms(1) rows(1,2) head(3)
    by (auto simp: project_entry_def pg_call_def Let_def split: option.splits)
  then show ?thesis
  proof cases
    case fault
    then obtain n where "pg_fault pe (db_calls db + n) \<noteq> None" "db_calls db' = db_calls db + Suc n" by blast
    with fault(1) show ?thesis by (auto simp: faulted_def intro!: exI [of _ "db_calls db + n"])
  next
    case went
    have "entries_fit db' ds"
      by (rule entries_fit_tail [OF assms(2) r0 _ rows(3,4)]) (use went rows in auto)
    moreover have "read_balance (db_balances db') k = None \<longleftrightarrow> read_balance (db_balances db) k = None" for k
      using rows(2) rows(5) [of k] r0 by (cases "k = ?k") (auto simp: read_balance_def went(3))
    ultimately show ?thesis using went by simp
  qed
qed

lemma project_entries_total:
  assumes "project_entries pe event ds db = (r, db')" "entries_fit db ds"
    and "\<forall>d\<in>set ds. read_balance (db_balances db) (ed_AccountID d) \<noteq> None"
  shows "db_calls db \<le> db_calls db' \<and> (r \<noteq> Inr () \<longrightarrow> faulted pe db db')"
  using assms
proof (induction ds arbitrary: db)
  case (Cons d ds)
  obtain r1 db1 where one: "project_entry pe event d db = (r1, db1)" by fastforce
  note t = project_entry_total [OF one Cons.prems(2)]
  show ?case
  proof (cases r1)
    case (Inl err)
    with Cons.prems one t show ?thesis by auto
  next
    case (Inr u)
    with Cons.prems one t have "db_calls db1 \<le> db_calls db' \<and> (r \<noteq> Inr () \<longrightarrow> faulted pe db1 db')"
      by (intro Cons.IH) auto
    with t Inr Cons.prems(3) show ?thesis by (auto intro: faulted_trans)
  qed
qed simp

text \<open>A projection for which there is room fails only with the database.\<close>

lemma ProjectTransactionRecorded_fails:
  assumes "ProjectTransactionRecorded pe event db = (Inl err, db')" "entries_fit db (tr_Entries event)"
    and "\<forall>d\<in>set (tr_Entries event). read_balance (db_balances db) (ed_AccountID d) \<noteq> None"
  shows "faulted pe db db'"
proof -
  let ?db1 = "snd (pg_call pe db)"
  obtain r2 db2 where run: "project_entries pe event (tr_Entries event) ?db1 = (r2, db2)" by fastforce
  have "entries_fit ?db1 (tr_Entries event)" using assms(2) by (simp add: entries_fit_def pg_call_def)
  from project_entries_total [OF run this] assms(3)
  have t: "db_calls ?db1 \<le> db_calls db2" "r2 \<noteq> Inr () \<longrightarrow> faulted pe ?db1 db2" by simp_all
  have c: "db_calls db \<le> db_calls ?db1" by (simp add: pg_call_def)
  consider "pg_fault pe (db_calls db) \<noteq> None" "db' = ?db1" | "r2 \<noteq> Inr ()" "db_calls db' = db_calls db2"
    | "pg_fault pe (db_calls db2) \<noteq> None" "db_calls db' = Suc (db_calls db2)"
    using assms(1) run
    by (auto simp: ProjectTransactionRecorded_def pg_rollback_def pg_call_def split: option.splits sum.splits)
  then show ?thesis
  proof cases
    case 1
    then show ?thesis by (auto simp: faulted_def pg_call_def intro!: exI [of _ "db_calls db"])
  next
    case 2
    with t c show ?thesis by (auto intro: faulted_trans)
  next
    case 3
    with t c show ?thesis by (auto simp: faulted_def intro!: exI [of _ "db_calls db2"])
  qed
qed
subsection \<open>Properties\<close>

text \<open>C34. Projecting a recorded transaction is all or nothing: on an error no table has changed; on
  success the balance of every account in the read model moves by its entries (credits add, all
  others subtract) and the history gets one row per entry, in order. The write side is not touched.\<close>

theorem projection_atomic:
  assumes "ProjectTransactionRecorded pe event db = (r, db')"
  shows "case r of
      Inl err \<Rightarrow> same_tables db db'
    | Inr _ \<Rightarrow> (\<forall>k. read_balance (db_balances db') k
            = map_option (\<lambda>b. b + entries_delta (tr_Entries event) k) (read_balance (db_balances db) k))
        \<and> (\<exists>news. db_history db' = db_history db @ news
             \<and> map (\<lambda>h. (hr_account_id h, hr_entry_type h, hr_amount h)) news
               = map (\<lambda>d. (ed_AccountID d, ed_Type d, ed_Amount d)) (tr_Entries event))
        \<and> write_side_same db db'"
  using ProjectTransactionRecorded_result [OF assms] by (auto split: sum.splits)

definition sample_entry :: "string \<Rightarrow> int64 \<Rightarrow> string \<Rightarrow> EntryEventData" where
  "sample_entry k n ty = \<lparr>ed_EntryID = ''e'', ed_AccountID = k, ed_Amount = n, ed_Currency = ''USD'', ed_Type = ty\<rparr>"

definition sample_recorded :: TransactionRecordedEvent where
  "sample_recorded = \<lparr>tr_ID = '''', tr_TransactionID = ''t1'',
     tr_Entries = [sample_entry ''a'' 30 ''DEBIT'', sample_entry ''b'' 30 ''CREDIT''],
     tr_Description = ''rent'', tr_Timestamp = 7000\<rparr>"

definition sample_opened :: "string \<Rightarrow> AccountOpenedEvent" where
  "sample_opened k = \<lparr>ao_ID = '''', ao_AccountID = k, ao_Name = k, ao_AccountType = ''ASSET'',
     ao_Currency = ''USD'', ao_Timestamp = 6000\<rparr>"

definition sample_read_db :: pg_db where
  "sample_read_db = snd (ProjectAccountOpened sample_pg (sample_opened ''b'')
     (snd (ProjectAccountOpened sample_pg (sample_opened ''a'') empty_db)))"

theorem projection_atomic_witness:
  "case ProjectTransactionRecorded sample_pg sample_recorded sample_read_db of
     (r, db') \<Rightarrow> r = Inr () \<and> read_balance (db_balances db') ''a'' = Some (-30)
       \<and> read_balance (db_balances db') ''b'' = Some 30 \<and> length (db_history db') = 2"
proof -
  obtain r db' where run: "ProjectTransactionRecorded sample_pg sample_recorded sample_read_db = (r, db')"
    by fastforce
  have "case ProjectTransactionRecorded sample_pg sample_recorded sample_read_db of
     (r, db') \<Rightarrow> r = Inr () \<and> length (db_history db') = 2" by code_simp
  then have ok: "r = Inr ()" "length (db_history db') = 2" by (simp_all add: run)
  have before: "read_balance (db_balances sample_read_db) ''a'' = Some 0 \<and> read_balance (db_balances sample_read_db) ''b'' = Some 0"
    by code_simp
  from projection_atomic [OF run] ok(1) before
  have "read_balance (db_balances db') ''a'' = Some (-30)" "read_balance (db_balances db') ''b'' = Some 30"
    by (simp_all add: entries_delta_def sample_recorded_def sample_entry_def entry_delta_def)
  with run ok show ?thesis by simp
qed

lemma projection_history:
  assumes "history_consistent db"
  shows "history_consistent (snd (ProjectTransactionRecorded pe event db))
    \<and> history_consistent (snd (ProjectAccountOpened pe opened_event db))"
proof -
  obtain r db1 where tr: "ProjectTransactionRecorded pe event db = (r, db1)" by fastforce
  have "history_consistent db1"
    using ProjectTransactionRecorded_result [OF tr] assms
    by (cases r) (auto simp: frame_simps history_consistent_def)
  moreover obtain r2 db2 where op: "ProjectAccountOpened pe opened_event db = (r2, db2)" by fastforce
  have "history_balance (db_history db) k = 0" if "read_balance (db_balances db) k = None" for k
  proof -
    have "filter (\<lambda>h. hr_account_id h = k) (db_history db) = []"
      using assms that by (auto simp: history_consistent_def filter_empty_conv)
    then show ?thesis by (simp add: history_balance_def)
  qed
  then have "history_consistent db2"
    using ProjectAccountOpened_result [OF op] assms
    by (auto simp: history_consistent_def split: option.splits if_splits)
  ultimately show ?thesis using tr op by simp
qed

text \<open>The read model agrees with its own history: after any projection, whether it succeeds or
  fails, the balance of every account is the balance after the last history row of that account, and
  0 if it has none.\<close>

lemma projection_history_invariant:
  assumes "history_consistent db"
  shows "history_consistent (snd (ProjectTransactionRecorded pe event db))
    \<and> history_consistent (snd (ProjectAccountOpened pe opened_event db))"
  using assms by (rule projection_history)

lemma projection_history_invariant_witness:
  "history_consistent (snd (ProjectTransactionRecorded sample_pg sample_recorded empty_db))"
proof -
  have "history_consistent empty_db" by (simp add: history_consistent_def empty_db_def read_balance_def)
  from projection_history_invariant [OF this] show ?thesis by blast
qed

text \<open>The history page of an account: at most \<^verbatim>\<open>limit\<close> rows (50 when it is not positive), all of
  them of the account, newest first, and rows of the table.\<close>

lemma history_page:
  assumes "GetTransactionHistory pe k limit offset db = (Inr xs, db')" and "pg_scan_ok pe"
  shows "int (length xs) \<le> (if sint limit \<le> 0 then 50 else sint limit)
    \<and> sorted_wrt (\<lambda>x y. th_CreatedAt y \<le> th_CreatedAt x) xs
    \<and> set xs \<subseteq> row_HistoryEntry ` {r\<in>set (db_history db). hr_account_id r = k}"
proof -
  let ?all = "order_rows (\<lambda>r s. hr_created_at s \<le> hr_created_at r)
     (filter (\<lambda>r. hr_account_id r = k) (scan_rows pe (db_calls db) (db_history db)))"
  have xs: "xs = map row_HistoryEntry (take (nat (if sint limit \<le> 0 then 50 else sint limit))
      (drop (nat (sint offset)) ?all))"
    using assms(1)
    by (auto simp: GetTransactionHistory_def pg_call_def Let_def split: option.splits if_splits)
  have "sorted_wrt (\<lambda>r s. hr_created_at s \<le> hr_created_at r) ?all"
    by (rule order_rows_sorted) auto
  then have "sorted_wrt (\<lambda>x y. th_CreatedAt y \<le> th_CreatedAt x) xs"
    by (simp add: xs sorted_wrt_map row_HistoryEntry_def sorted_wrt_take sorted_wrt_drop)
  moreover have "set ?all = {r\<in>set (db_history db). hr_account_id r = k}"
    by (simp add: set_scan_rows [OF assms(2)])
  then have "set xs \<subseteq> row_HistoryEntry ` {r\<in>set (db_history db). hr_account_id r = k}"
    unfolding xs by (auto dest!: in_set_takeD in_set_dropD)
  moreover have "length xs \<le> nat (if sint limit \<le> 0 then 50 else sint limit)" by (simp add: xs)
  then have "int (length xs) \<le> (if sint limit \<le> 0 then 50 else sint limit)"
    by (cases "sint limit \<le> 0") simp_all
  ultimately show ?thesis by blast
qed

lemma history_page_witness:
  "\<exists>xs db'. GetTransactionHistory sample_pg ''a'' 0 0
      (snd (ProjectTransactionRecorded sample_pg sample_recorded sample_read_db)) = (Inr xs, db')
    \<and> int (length xs) \<le> 50"
proof -
  have "\<not> isl (fst (GetTransactionHistory sample_pg ''a'' 0 0
      (snd (ProjectTransactionRecorded sample_pg sample_recorded sample_read_db))))" by code_simp
  then obtain xs db' where page: "GetTransactionHistory sample_pg ''a'' 0 0
      (snd (ProjectTransactionRecorded sample_pg sample_recorded sample_read_db)) = (Inr xs, db')"
    by (metis isl_def prod.collapse sum.exhaust)
  have "pg_scan_ok sample_pg" using sample_pg_laws by (simp add: pg_laws_def)
  from history_page [OF page this] page show ?thesis by auto
qed

end
