(* ===== verification/Ledger_Balances.thy ===== *)
theory Ledger_Balances
  imports Repository_Ports
begin

section \<open>The abstract ledger: movements and totals\<close>

text \<open>
  What the services promise, free of stores and of the order of calls: a list of legs moves the
  funds of each account by the sum of the legs posted to it (\<open>posted\<close>, \<open>moved\<close>), and the funds of
  all accounts of one currency add up to a total (\<open>total_funds\<close>). The sums are int64 words, so that they
  describe the wrapping arithmetic of the program exactly.
\<close>

definition param_delta :: "EntryParams \<Rightarrow> int64" where
  "param_delta p = signed_leg (ep_Type p) (amount (ep_Amount p))"

definition posted :: "EntryParams list \<Rightarrow> AccountID \<Rightarrow> int64" where
  "posted ps i = sum_list (map param_delta (filter (\<lambda>p. ep_AccountID p = i) ps))"

text \<open>Everything about an account except its funds and the time of its last update.\<close>

definition same_holder :: "Account \<Rightarrow> Account \<Rightarrow> bool" where
  "same_holder a b \<longleftrightarrow> a_id a = a_id b \<and> a_name a = a_name b \<and> a_accountType a = a_accountType b
     \<and> a_currency a = a_currency b \<and> a_status a = a_status b \<and> a_createdAt a = a_createdAt b"

definition moved ::
  "(AccountID \<rightharpoonup> Account) \<Rightarrow> (AccountID \<Rightarrow> int64) \<Rightarrow> (AccountID \<rightharpoonup> Account) \<Rightarrow> bool" where
  "moved v d v' \<longleftrightarrow> dom v' = dom v \<and>
     (\<forall>i a b. v i = Some a \<and> v' i = Some b \<longrightarrow> same_holder b a \<and> funds b = funds a + d i)"

definition holders :: "(AccountID \<rightharpoonup> Account) \<Rightarrow> Currency \<Rightarrow> AccountID set" where
  "holders v c = {i. \<exists>a. v i = Some a \<and> a_currency a = c}"

definition total_funds :: "(AccountID \<rightharpoonup> Account) \<Rightarrow> Currency \<Rightarrow> int64" where
  "total_funds v c = (\<Sum>i\<in>holders v c. funds (the (v i)))"

text \<open>A leg can be posted: its account exists and, if the leg moves money, is in its currency.\<close>

definition postable :: "(AccountID \<rightharpoonup> Account) \<Rightarrow> EntryParams \<Rightarrow> bool" where
  "postable v p \<longleftrightarrow> (case v (ep_AccountID p) of None \<Rightarrow> False
     | Some a \<Rightarrow> ep_Type p \<in> {Debit, Credit} \<longrightarrow> a_currency a = currency (ep_Amount p))"

subsection \<open>Lemmas\<close>

lemma leg_delta_param: "leg_delta x = param_delta (params_of x)"
  by (simp add: leg_delta_def param_delta_def params_of_def)

lemma posted_simps [simp]:
  "posted [] i = 0"
  "posted (p # ps) i = (if ep_AccountID p = i then param_delta p else 0) + posted ps i"
  by (simp_all add: posted_def)

lemma sum_param_delta:
  "params_ok ps \<Longrightarrow> sum_list (map param_delta ps) = 0"
proof -
  have "sum_list (map param_delta ps) = legs_total Credit ps - legs_total Debit ps"
    by (induction ps) (simp_all add: param_delta_def signed_leg_def)
  then show "params_ok ps \<Longrightarrow> ?thesis" by (simp add: params_ok_def)
qed

lemma same_holder_refl [simp]: "same_holder a a"
  by (simp add: same_holder_def)

lemma same_identity_holder:
  "same_identity b a \<and> a_status b = a_status a \<Longrightarrow> same_holder b a"
  by (simp add: same_identity_def same_holder_def)

lemma moved_refl [simp]: "moved v (\<lambda>_. 0) v"
  by (auto simp: moved_def)

lemma moved_none [simp]: "moved v (posted []) v"
  by (auto simp: moved_def)

lemma movedI: "v' = v \<Longrightarrow> moved v (posted []) v'"
  by (auto simp: moved_def)

lemma moved_update:
  "v i = Some a \<Longrightarrow> same_holder b a \<Longrightarrow> funds b = funds a + n \<Longrightarrow>
     moved v (\<lambda>j. if i = j then n else 0) (v(i \<mapsto> b))"
  by (auto simp: moved_def)

lemma moved_SomeD:
  assumes "moved v d v'" "v i = Some a"
  obtains b where "v' i = Some b" "same_holder b a" "funds b = funds a + d i"
proof -
  have "i \<in> dom v'" using assms by (auto simp: moved_def)
  then obtain b where "v' i = Some b" by blast
  with that assms show ?thesis by (auto simp: moved_def)
qed

lemma moved_SomeD':
  assumes "moved v d v'" "v' i = Some b"
  obtains a where "v i = Some a" "same_holder b a" "funds b = funds a + d i"
proof -
  have "i \<in> dom v'" using assms(2) by blast
  then obtain a where "v i = Some a" using assms(1) by (auto simp: moved_def)
  with that assms show ?thesis by (auto simp: moved_def)
qed

text \<open>Whatever is said of an account apart from its funds and last update survives a movement.\<close>

lemma moved_holder_iff:
  assumes "moved v d v'" and "\<And>a b. same_holder b a \<Longrightarrow> Q b = Q a"
  shows "(\<exists>b. v' i = Some b \<and> Q b) \<longleftrightarrow> (\<exists>a. v i = Some a \<and> Q a)"
proof
  assume "\<exists>b. v' i = Some b \<and> Q b"
  then obtain b where b: "v' i = Some b" "Q b" by blast
  from assms(1) b(1) obtain a where "v i = Some a" "same_holder b a" by (rule moved_SomeD')
  with assms(2) b(2) show "\<exists>a. v i = Some a \<and> Q a" by blast
next
  assume "\<exists>a. v i = Some a \<and> Q a"
  then obtain a where a: "v i = Some a" "Q a" by blast
  from assms(1) a(1) obtain b where "v' i = Some b" "same_holder b a" by (rule moved_SomeD)
  with assms(2) a(2) show "\<exists>b. v' i = Some b \<and> Q b" by blast
qed

lemma moved_trans:
  assumes "moved v d v1" and "moved v1 d' v2"
  shows "moved v (\<lambda>i. d i + d' i) v2"
  unfolding moved_def
proof (intro conjI allI impI; (elim conjE)?)
  show "dom v2 = dom v" using assms by (simp add: moved_def)
  fix i a b
  assume a: "v i = Some a" and b: "v2 i = Some b"
  obtain a1 where a1: "v1 i = Some a1" "same_holder a1 a" "funds a1 = funds a + d i"
    using assms(1) a by (rule moved_SomeD)
  have "same_holder b a1 \<and> funds b = funds a1 + d' i"
    using assms(2) a1(1) b by (auto simp: moved_def)
  with a1 show "same_holder b a" "funds b = funds a + (d i + d' i)"
    by (simp_all add: same_holder_def)
qed

text \<open>Two results of one movement differ at most in the times of the last update.\<close>

lemma moved_twice:
  assumes "moved v d v1" "moved v d v2"
  shows "moved v1 (\<lambda>_. 0) v2"
  unfolding moved_def
proof (intro conjI allI impI; (elim conjE)?)
  show "dom v2 = dom v1" using assms by (simp add: moved_def)
  fix i a b
  assume a: "v1 i = Some a" and b: "v2 i = Some b"
  obtain x where x: "v i = Some x" "same_holder a x" "funds a = funds x + d i"
    using assms(1) a by (rule moved_SomeD')
  have "same_holder b x \<and> funds b = funds x + d i" using assms(2) x(1) b by (auto simp: moved_def)
  with x show "same_holder b a" "funds b = funds a + 0" by (simp_all add: same_holder_def)
qed

lemma posted_append: "posted (ps @ qs) = (\<lambda>i. posted ps i + posted qs i)"
  by (simp add: posted_def fun_eq_iff)

lemma moved_append:
  "moved v (posted ps) v1 \<Longrightarrow> moved v1 (posted qs) v2 \<Longrightarrow> moved v (posted (ps @ qs)) v2"
  unfolding posted_append by (rule moved_trans)

lemma moved_step:
  assumes "v i = Some a" "same_holder b a" "funds b = funds a + param_delta p" "ep_AccountID p = i"
    and "moved (v(i \<mapsto> b)) (posted ps) v'"
  shows "moved v (posted (p # ps)) v'"
proof -
  have "moved v (\<lambda>j. (if i = j then param_delta p else 0) + posted ps j) v'"
    using moved_update [of v i a b "param_delta p", OF assms(1-3)] assms(5) by (rule moved_trans)
  moreover have "(\<lambda>j. (if i = j then param_delta p else 0) + posted ps j) = posted (p # ps)"
    using assms(4) by auto
  ultimately show ?thesis by simp
qed

lemma holders_moved: "moved v d v' \<Longrightarrow> holders v' c = holders v c"
  by (auto simp: holders_def same_holder_def elim: moved_SomeD moved_SomeD')

lemma finite_holders: "finite (dom v) \<Longrightarrow> finite (holders v c)"
  by (rule finite_subset [of _ "dom v"]) (auto simp: holders_def)

lemma total_moved:
  assumes "moved v d v'" and "finite (dom v)"
  shows "total_funds v' c = total_funds v c + (\<Sum>i\<in>holders v c. d i)"
proof -
  have "funds (the (v' i)) = funds (the (v i)) + d i" if "i \<in> holders v c" for i
    using that assms(1) by (auto simp: holders_def elim: moved_SomeD)
  then have "total_funds v' c = (\<Sum>i\<in>holders v c. funds (the (v i)) + d i)"
    by (simp add: total_funds_def holders_moved [OF assms(1)])
  then show ?thesis by (simp add: total_funds_def sum.distrib)
qed

lemma sum_posted:
  "finite S \<Longrightarrow> (\<Sum>i\<in>S. posted ps i) =
     sum_list (map (\<lambda>p. if ep_AccountID p \<in> S then param_delta p else 0) ps)"
  by (induction ps) (simp_all add: sum.distrib sum.delta')

lemma postable_moved:
  "moved v d v' \<Longrightarrow> postable v' p = postable v p"
  unfolding postable_def moved_def same_holder_def
  by (auto split: option.splits)

text \<open>The double-entry argument: balanced legs of one currency, posted to accounts of that currency,
  leave the total of every currency as it was. So do several such lists of legs together.\<close>

lemma legs_in_currency:
  assumes "params_ok ps" and "\<forall>p\<in>set ps. postable v p"
  shows "sum_list (map (\<lambda>p. if ep_AccountID p \<in> holders v c then param_delta p else 0) ps) = 0"
proof -
  let ?in = "\<lambda>p. if ep_AccountID p \<in> holders v c then param_delta p else 0"
  have leg: "?in p = (if currency (ep_Amount p) = c then param_delta p else 0)" if "p \<in> set ps" for p
    using assms(2) that
    by (auto simp: postable_def holders_def param_delta_def signed_leg_def split: option.splits)
  show ?thesis
  proof (cases "\<forall>p\<in>set ps. currency (ep_Amount p) = c")
    case True
    then have "map ?in ps = map param_delta ps" using leg by (intro map_cong) auto
    with sum_param_delta [OF assms(1)] show ?thesis by (simp only:)
  next
    case False
    then have "\<forall>p\<in>set ps. currency (ep_Amount p) \<noteq> c"
      using assms(1) by (metis params_ok_def)
    then have "map ?in ps = map (\<lambda>_. 0) ps" using leg by (intro map_cong) auto
    then show ?thesis by (simp only: sum_list_0)
  qed
qed

lemma total_conserved_concat:
  assumes "\<forall>ps\<in>set pss. params_ok ps \<and> list_all (postable v) ps" and "moved v (posted (concat pss)) v'"
    and "finite (dom v)"
  shows "total_funds v' c = total_funds v c"
proof -
  have "sum_list (map (\<lambda>p. if ep_AccountID p \<in> holders v c then param_delta p else 0) (concat pss)) = 0"
    using assms(1) by (induction pss) (simp_all add: legs_in_currency list_all_iff)
  then show ?thesis
    by (simp add: total_moved [OF assms(2,3)] sum_posted finite_holders assms(3))
qed

lemma total_conserved:
  assumes "params_ok ps" and "\<forall>p\<in>set ps. postable v p" and "moved v (posted ps) v'"
    and "finite (dom v)"
  shows "total_funds v' c = total_funds v c"
  using total_conserved_concat [of "[ps]" v v' c] assms by (simp add: list_all_iff)

subsection \<open>Opening accounts\<close>

text \<open>New accounts may appear, without funds and under new identifiers; the old ones stay as they
  are.\<close>

definition opened :: "(AccountID \<rightharpoonup> Account) \<Rightarrow> (AccountID \<rightharpoonup> Account) \<Rightarrow> bool" where
  "opened v v' \<longleftrightarrow> (\<forall>i a. v i = Some a \<longrightarrow> v' i = Some a) \<and> finite (dom v' - dom v)
     \<and> (\<forall>i a. v i = None \<and> v' i = Some a \<longrightarrow> funds a = 0)"

lemma opened_refl [simp]: "opened v v"
  by (auto simp: opened_def)

lemma opened_new: "v i = None \<Longrightarrow> funds a = 0 \<Longrightarrow> opened v (v(i \<mapsto> a))"
  by (auto simp: opened_def Diff_insert intro: finite_subset [of _ "{i}"])

lemma opened_SomeD: "opened v v' \<Longrightarrow> v i = Some a \<Longrightarrow> v' i = Some a"
  by (simp add: opened_def)

lemma total_opened:
  assumes "opened v v'" and "finite (dom v)"
  shows "total_funds v' c = total_funds v c"
proof -
  have sub: "holders v c \<subseteq> holders v' c"
    using assms(1) by (auto simp: holders_def opened_def)
  have "finite (dom v \<union> (dom v' - dom v))" using assms by (simp add: opened_def)
  then have fin: "finite (holders v' c)"
    by (rule finite_subset [rotated]) (auto simp: holders_def)
  have new: "funds (the (v' i)) = 0" if "i \<in> holders v' c - holders v c" for i
    using that assms(1) unfolding holders_def opened_def by (cases "v i") auto
  have old: "funds (the (v' i)) = funds (the (v i))" if "i \<in> holders v c" for i
    using that assms(1) by (auto simp: holders_def opened_def)
  have "total_funds v' c = (\<Sum>i\<in>holders v c. funds (the (v' i)))"
    unfolding total_funds_def using fin sub new by (intro sum.mono_neutral_right) auto
  then show ?thesis using old by (simp add: total_funds_def)
qed

end
