(* ===== verification/Ledger_Service.thy ===== *)
theory Ledger_Service
  imports Ledger_Balances
begin

section \<open>Ledger service (internal/app/commands.go, ledger_service.go)\<close>

text \<open>
  The command side. The service is a record of ports over a store \<open>'w\<close>; its methods take the
  generator and the store and return the result with both after the call. A Go error return
  does not undo anything: the store after an error is the store as the calls so far left it,
  and \<open>RecordTransaction\<close> saves one account per entry before it records the transaction.
  The locale \<open>ledger_ports\<close> states what the other ports leave alone; inside it the effect of
  every method on the accounts is proved once for all stores.
\<close>

record OpenAccountCmd =
  oc_Name :: string
  oc_AccountType :: string
  oc_Currency :: Currency

record EntryCmd =
  ec_AccountID :: AccountID
  ec_Amount :: int64
  ec_Currency :: Currency
  ec_Type :: EntryType

record RecordTransactionCmd =
  rc_Entries :: "EntryCmd list"
  rc_Description :: string

record 'w OutboxAppender =
  ob_AppendWithOutbox ::
    "string \<Rightarrow> string \<Rightarrow> int64 \<Rightarrow> StoredEvent list \<Rightarrow> 'w \<Rightarrow> (error + unit) \<times> 'w"

record 'w Projector =
  pj_ProjectAccountOpened :: "AccountOpenedEvent \<Rightarrow> 'w \<Rightarrow> (error + unit) \<times> 'w"
  pj_ProjectTransactionRecorded :: "TransactionRecordedEvent \<Rightarrow> 'w \<Rightarrow> (error + unit) \<times> 'w"

record 'w LedgerService =
  ls_accounts :: "'w account_Repository"
  ls_transactions :: "'w TransactionRepository"
  ls_eventStore :: "'w EventStore option"
  ls_outbox :: "'w OutboxAppender option"
  ls_projector :: "'w Projector option"

definition NewLedgerService ::
  "'w account_Repository \<Rightarrow> 'w TransactionRepository \<Rightarrow> 'w EventStore option \<Rightarrow>
   'w OutboxAppender option \<Rightarrow> 'w Projector option \<Rightarrow> 'w LedgerService" where
  "NewLedgerService accounts transactions eventStore outbox projector =
     \<lparr>ls_accounts = accounts, ls_transactions = transactions, ls_eventStore = eventStore,
      ls_outbox = outbox, ls_projector = projector\<rparr>"

definition appendEvent ::
  "env \<Rightarrow> 'w LedgerService \<Rightarrow> string \<Rightarrow> string \<Rightarrow> int64 \<Rightarrow> DomainEvent \<Rightarrow> 'w \<Rightarrow> (error + unit) \<times> 'w"
where
  "appendEvent e s aggregateID aggregateType expectedVersion event w =
     (case json_Marshal e event of
        Inl err \<Rightarrow> (Inl (Wrap ''marshal event'' err), w)
      | Inr payload \<Rightarrow>
          let stored = \<lparr>se_ID = '''', se_AggregateID = '''', se_AggregateType = '''',
                        se_EventType = DomainEvent_EventType event, se_Version = 0,
                        se_Payload = payload, se_OccurredAt = DomainEvent_OccurredAt event\<rparr>
          in case ls_outbox s of
               Some ob \<Rightarrow> ob_AppendWithOutbox ob aggregateID aggregateType expectedVersion [stored] w
             | None \<Rightarrow>
                 (case ls_eventStore s of
                    Some es \<Rightarrow> es_Append es aggregateID aggregateType expectedVersion [stored] w
                  | None \<Rightarrow> (Inr (), w)))"

definition accType_of :: "string \<Rightarrow> AccountType" where
  "accType_of t = (if t = ''EQUITY'' then Equity else if t = ''LIABILITY'' then Liability else Asset)"

definition OpenAccount ::
  "env \<Rightarrow> 'w LedgerService \<Rightarrow> OpenAccountCmd \<Rightarrow> gen \<Rightarrow> 'w \<Rightarrow> (error + Account) \<times> gen \<times> 'w" where
  "OpenAccount e s cmd g w =
     (let accType = accType_of (oc_AccountType cmd) in
      case NewAccountWithType e (oc_Name cmd) accType (oc_Currency cmd) g of
        (Inl err, g1) \<Rightarrow> (Inl (Wrap ''open account'' err), g1, w)
      | (Inr acc, g1) \<Rightarrow>
          (case acc_Save (ls_accounts s) acc w of
             (Inl err, w1) \<Rightarrow> (Inl (Wrap ''save account'' err), g1, w1)
           | (Inr _, w1) \<Rightarrow>
               let (now, g2) = time_Now e g1;
                   event = \<lparr>ao_ID = '''', ao_AccountID = AccountID_String e (a_id acc),
                            ao_Name = a_name acc, ao_AccountType = AccountType_string accType,
                            ao_Currency = Currency_string (a_currency acc), ao_Timestamp = now\<rparr>
               in (case appendEvent e s (AccountID_String e (a_id acc)) ''account'' 0
                          (AccountOpened event) w1 of
                     (Inl err, w2) \<Rightarrow> (Inl (Wrap ''emit account opened'' err), g2, w2)
                   | (Inr _, w2) \<Rightarrow>
                       (case ls_projector s of
                          None \<Rightarrow> (Inr acc, g2, w2)
                        | Some p \<Rightarrow> (Inr acc, g2, snd (pj_ProjectAccountOpened p event w2))))))"

definition OpenEquityAccount ::
  "env \<Rightarrow> 'w LedgerService \<Rightarrow> string \<Rightarrow> Currency \<Rightarrow> gen \<Rightarrow> 'w \<Rightarrow> (error + Account) \<times> gen \<times> 'w" where
  "OpenEquityAccount e s name c g w =
     OpenAccount e s \<lparr>oc_Name = name, oc_AccountType = ''EQUITY'', oc_Currency = c\<rparr> g w"

fun account_named :: "string \<Rightarrow> Account list \<Rightarrow> Account option" where
  "account_named name [] = None"
| "account_named name (acc # rest) = (if a_name acc = name then Some acc else account_named name rest)"

definition getOrCreateSystemAccount ::
  "env \<Rightarrow> 'w LedgerService \<Rightarrow> string \<Rightarrow> string \<Rightarrow> Currency \<Rightarrow> gen \<Rightarrow> 'w \<Rightarrow> (error + Account) \<times> gen \<times> 'w"
where
  "getOrCreateSystemAccount e s name accType c g w =
     (case acc_FindAll (ls_accounts s) w of
        (Inl err, w1) \<Rightarrow> (Inl err, g, w1)
      | (Inr all, w1) \<Rightarrow>
          (case account_named name all of
             Some acc \<Rightarrow> (Inr acc, g, w1)
           | None \<Rightarrow>
               OpenAccount e s \<lparr>oc_Name = name, oc_AccountType = accType, oc_Currency = c\<rparr> g w1))"

definition equity_name :: "Currency \<Rightarrow> string" where
  "equity_name c = ''System Equity ('' @ Currency_string c @ '')''"

definition suspense_name :: "Currency \<Rightarrow> string" where
  "suspense_name c = ''System Suspense ('' @ Currency_string c @ '')''"

definition getOrCreateSystemEquity ::
  "env \<Rightarrow> 'w LedgerService \<Rightarrow> Currency \<Rightarrow> gen \<Rightarrow> 'w \<Rightarrow> (error + Account) \<times> gen \<times> 'w" where
  "getOrCreateSystemEquity e s c g w =
     getOrCreateSystemAccount e s (equity_name c) ''EQUITY'' c g w"

definition suspenseAccountID ::
  "env \<Rightarrow> 'w LedgerService \<Rightarrow> Currency \<Rightarrow> gen \<Rightarrow> 'w \<Rightarrow> AccountID \<times> gen \<times> 'w" where
  "suspenseAccountID e s c g w =
     (case getOrCreateSystemAccount e s (suspense_name c) ''LIABILITY'' c g w of
        (Inl _, g1, w1) \<Rightarrow> (AccountID 0, g1, w1)
      | (Inr acc, g1, w1) \<Rightarrow> (a_id acc, g1, w1))"

definition GetAccount ::
  "'w LedgerService \<Rightarrow> AccountID \<Rightarrow> 'w \<Rightarrow> (error + Account) \<times> 'w" where
  "GetAccount s i w = acc_FindByID (ls_accounts s) i w"

definition GetBalance ::
  "'w LedgerService \<Rightarrow> AccountID \<Rightarrow> 'w \<Rightarrow> (error + Money) \<times> 'w" where
  "GetBalance s i w =
     (case acc_FindByID (ls_accounts s) i w of
        (Inl err, w1) \<Rightarrow> (Inl (Wrap ''get balance'' err), w1)
      | (Inr acc, w1) \<Rightarrow> (Inr (a_balance acc), w1))"

subsection \<open>RecordTransaction\<close>

fun cmd_params :: "nat \<Rightarrow> EntryCmd list \<Rightarrow> error + EntryParams list" where
  "cmd_params i [] = Inr []"
| "cmd_params i (ec # ecs) =
     (case NewMoney (ec_Amount ec) (ec_Currency ec) of
        Inl err \<Rightarrow> Inl (Wrap (''invalid money in entry '' @ decimal i) err)
      | Inr money \<Rightarrow>
          (case cmd_params (Suc i) ecs of
             Inl err \<Rightarrow> Inl err
           | Inr ps \<Rightarrow> Inr (\<lparr>ep_AccountID = ec_AccountID ec, ep_Amount = money,
                            ep_Type = ec_Type ec\<rparr> # ps)))"

text \<open>The \<^verbatim>\<open>switch\<close> on the entry type: no default branch, the account is then saved unchanged.\<close>

definition apply_leg :: "env \<Rightarrow> Entry \<Rightarrow> Account \<Rightarrow> gen \<Rightarrow> (error + Account) \<times> gen" where
  "apply_leg e x acc g =
     (if e_entryType x = Debit then Account_Debit e acc (e_amount x) g
      else if e_entryType x = Credit then Account_Credit e acc (e_amount x) g
      else (Inr acc, g))"

fun update_balances ::
  "env \<Rightarrow> 'w LedgerService \<Rightarrow> Entry list \<Rightarrow> gen \<Rightarrow> 'w \<Rightarrow> (error + unit) \<times> gen \<times> 'w" where
  "update_balances e s [] g w = (Inr (), g, w)"
| "update_balances e s (x # xs) g w =
     (case acc_FindByID (ls_accounts s) (e_accountID x) w of
        (Inl err, w1) \<Rightarrow>
          (Inl (Wrap (''find account '' @ AccountID_String e (e_accountID x)) err), g, w1)
      | (Inr acc, w1) \<Rightarrow>
          (case apply_leg e x acc g of
             (Inl err, g1) \<Rightarrow>
               (Inl (Wrap (''apply '' @ EntryType_string (e_entryType x) @ '' to account '' @
                      AccountID_String e (e_accountID x)) err), g1, w1)
           | (Inr acc', g1) \<Rightarrow>
               (case acc_Save (ls_accounts s) acc' w1 of
                  (Inl err, w2) \<Rightarrow>
                    (Inl (Wrap (''save account '' @ AccountID_String e (e_accountID x)) err), g1, w2)
                | (Inr _, w2) \<Rightarrow> update_balances e s xs g1 w2)))"

definition entry_data :: "env \<Rightarrow> Entry \<Rightarrow> EntryEventData" where
  "entry_data e x =
     \<lparr>ed_EntryID = EntryID_String e (e_id x), ed_AccountID = AccountID_String e (e_accountID x),
      ed_Amount = amount (e_amount x), ed_Currency = Currency_string (currency (e_amount x)),
      ed_Type = EntryType_string (e_entryType x)\<rparr>"

definition RecordTransaction ::
  "env \<Rightarrow> 'w LedgerService \<Rightarrow> RecordTransactionCmd \<Rightarrow> gen \<Rightarrow> 'w \<Rightarrow> (error + Transaction) \<times> gen \<times> 'w"
where
  "RecordTransaction e s cmd g w =
     (case cmd_params 0 (rc_Entries cmd) of
        Inl err \<Rightarrow> (Inl err, g, w)
      | Inr params \<Rightarrow>
          (case NewTransaction e params (rc_Description cmd) g of
             (Inl err, g1) \<Rightarrow> (Inl (Wrap ''create transaction'' err), g1, w)
           | (Inr tx, g1) \<Rightarrow>
               (case update_balances e s (Transaction_Entries tx) g1 w of
                  (Inl err, g2, w1) \<Rightarrow> (Inl err, g2, w1)
                | (Inr _, g2, w1) \<Rightarrow>
                    (case txr_Save (ls_transactions s) tx w1 of
                       (Inl err, w2) \<Rightarrow> (Inl (Wrap ''save transaction'' err), g2, w2)
                     | (Inr _, w2) \<Rightarrow>
                         let (now, g3) = time_Now e g2;
                             event = \<lparr>tr_ID = '''',
                                      tr_TransactionID = TransactionID_String e (tx_id tx),
                                      tr_Entries = map (entry_data e) (Transaction_Entries tx),
                                      tr_Description = rc_Description cmd, tr_Timestamp = now\<rparr>
                         in (case appendEvent e s (TransactionID_String e (tx_id tx)) ''transaction'' 0
                                    (TransactionRecorded event) w2 of
                               (Inl err, w3) \<Rightarrow>
                                 (Inl (Wrap ''emit transaction recorded'' err), g3, w3)
                             | (Inr _, w3) \<Rightarrow>
                                 (case ls_projector s of
                                    None \<Rightarrow> (Inr tx, g3, w3)
                                  | Some p \<Rightarrow>
                                      (Inr tx, g3, snd (pj_ProjectTransactionRecorded p event w3))))))))"

definition Deposit ::
  "env \<Rightarrow> 'w LedgerService \<Rightarrow> AccountID \<Rightarrow> int64 \<Rightarrow> Currency \<Rightarrow> string \<Rightarrow> gen \<Rightarrow> 'w \<Rightarrow>
   (error + unit) \<times> gen \<times> 'w" where
  "Deposit e s accountID n c description g w =
     (case getOrCreateSystemEquity e s c g w of
        (Inl err, g1, w1) \<Rightarrow> (Inl (Wrap ''get system equity'' err), g1, w1)
      | (Inr equityAcc, g1, w1) \<Rightarrow>
          (case RecordTransaction e s
                  \<lparr>rc_Entries =
                     [\<lparr>ec_AccountID = a_id equityAcc, ec_Amount = n, ec_Currency = c,
                       ec_Type = Debit\<rparr>,
                      \<lparr>ec_AccountID = accountID, ec_Amount = n, ec_Currency = c,
                       ec_Type = Credit\<rparr>],
                   rc_Description = description\<rparr> g1 w1 of
             (Inl err, g2, w2) \<Rightarrow> (Inl err, g2, w2)
           | (Inr _, g2, w2) \<Rightarrow> (Inr (), g2, w2)))"

text \<open>The legs a command asks for, as the accepted transaction holds them.\<close>

definition cmd_legs :: "RecordTransactionCmd \<Rightarrow> EntryParams list" where
  "cmd_legs cmd = map (\<lambda>ec. \<lparr>ep_AccountID = ec_AccountID ec,
     ep_Amount = \<lparr>amount = ec_Amount ec, currency = ec_Currency ec\<rparr>, ep_Type = ec_Type ec\<rparr>)
     (rc_Entries cmd)"

definition cmd_ok :: "RecordTransactionCmd \<Rightarrow> bool" where
  "cmd_ok cmd \<longleftrightarrow> params_ok (cmd_legs cmd) \<and> (\<forall>ec\<in>set (rc_Entries cmd). validCurrencies (ec_Currency ec))"

text \<open>Every account identifier in use was drawn from the generator before.\<close>

definition ids_drawn :: "env \<Rightarrow> gen \<Rightarrow> (AccountID \<rightharpoonup> Account) \<Rightarrow> bool" where
  "ids_drawn e g v \<longleftrightarrow> (\<forall>i\<in>dom v. \<exists>n<drawn g. i = AccountID (uuid_seq e n))"

text \<open>What a deposit of \<open>n\<close> on account \<open>i\<close> amounts to: the account holds \<open>n\<close> more, a different account
  with the name of the system equity account of the currency, newly opened when there was none, holds
  \<open>n\<close> less, and every other account is exactly as it was.\<close>

definition deposited ::
  "(AccountID \<rightharpoonup> Account) \<Rightarrow> AccountID \<Rightarrow> int64 \<Rightarrow> Currency \<Rightarrow> (AccountID \<rightharpoonup> Account) \<Rightarrow> bool" where
  "deposited v i n c v' \<longleftrightarrow> (\<exists>a a' eq b. v i = Some a \<and> a_currency a = c
     \<and> v' i = Some a' \<and> same_holder a' a \<and> funds a' = funds a + n
     \<and> eq \<noteq> i \<and> v' eq = Some b \<and> a_name b = equity_name c \<and> a_currency b = c
     \<and> (case v eq of None \<Rightarrow> a_accountType b = Equity \<and> funds b = - n
        | Some x \<Rightarrow> same_holder b x \<and> funds b = funds x - n)
     \<and> (\<forall>k. k \<noteq> i \<and> k \<noteq> eq \<longrightarrow> v' k = v k))"

text \<open>An account computed from a leg and not yet saved: what saving it amounts to, as long as the
  accounts are as they were when it was read.\<close>

definition leg_pending :: "(AccountID \<rightharpoonup> Account) \<Rightarrow> Entry \<Rightarrow> Account \<Rightarrow> bool" where
  "leg_pending v x b \<longleftrightarrow> (\<exists>acc. v (e_accountID x) = Some acc \<and> Account_ok b \<and> same_identity b acc
     \<and> a_status b = a_status acc \<and> funds b = funds acc + leg_delta x
     \<and> (e_entryType x \<in> {Debit, Credit} \<longrightarrow> a_currency acc = currency (e_amount x)))"

subsection \<open>Lemmas without ports\<close>

lemma cmd_params_Inr_iff:
  "cmd_params i ecs = Inr ps \<longleftrightarrow>
     (\<forall>ec\<in>set ecs. validCurrencies (ec_Currency ec))
     \<and> ps = map (\<lambda>ec. \<lparr>ep_AccountID = ec_AccountID ec,
         ep_Amount = \<lparr>amount = ec_Amount ec, currency = ec_Currency ec\<rparr>, ep_Type = ec_Type ec\<rparr>) ecs"
proof (induction ecs arbitrary: i ps)
  case (Cons ec ecs)
  let ?ps = "map (\<lambda>ec. \<lparr>ep_AccountID = ec_AccountID ec,
         ep_Amount = \<lparr>amount = ec_Amount ec, currency = ec_Currency ec\<rparr>, ep_Type = ec_Type ec\<rparr>) ecs"
  show ?case
    using Cons.IH [of "Suc i" ?ps] Cons.IH [of "Suc i"]
    by (cases "cmd_params (Suc i) ecs") (auto simp: NewMoney_def)
qed auto

lemma cmd_params_legs:
  "cmd_params 0 (rc_Entries cmd) = Inr ps \<Longrightarrow>
     ps = cmd_legs cmd \<and> (\<forall>ec\<in>set (rc_Entries cmd). validCurrencies (ec_Currency ec))"
  by (simp add: cmd_params_Inr_iff cmd_legs_def)

lemma cmd_params_Inl:
  "cmd_params i ecs = Inl err \<Longrightarrow> errors_Is err ErrInvalidCurrency
     \<and> (\<exists>ec\<in>set ecs. \<not> validCurrencies (ec_Currency ec))"
  by (induction ecs arbitrary: i) (auto simp: NewMoney_def split: sum.splits if_splits)

lemma apply_leg_InrD:
  assumes "apply_leg e x acc g = (Inr b, g')" and "Account_ok acc"
  shows "Account_ok b" "same_identity b acc" "a_status b = a_status acc"
    "funds b = funds acc + leg_delta x" "drawn g' = drawn g"
    "e_entryType x \<in> {Debit, Credit} \<Longrightarrow> a_currency acc = currency (e_amount x)"
proof -
  show "Account_ok b"
    using assms by (auto simp: apply_leg_def dest: Account_ok_credit Account_ok_debit split: if_splits)
  have "same_identity b acc \<and> a_status b = a_status acc"
    using assms(1)
    by (auto simp: apply_leg_def dest: Account_op_frame split: if_splits) (simp_all add: same_identity_def)
  then show "same_identity b acc" "a_status b = a_status acc" by simp_all
  show "funds b = funds acc + leg_delta x"
    using assms(1)
    by (auto simp: apply_leg_def leg_delta_def signed_leg_def dest: funds_credit funds_debit
        split: if_splits)
  show "drawn g' = drawn g"
    using assms(1) by (auto simp: apply_leg_def dest: Account_op_gen split: if_splits)
  show "a_currency acc = currency (e_amount x)" if "e_entryType x \<in> {Debit, Credit}"
    using assms(1) that by (auto simp: apply_leg_def dest: Account_op_gen split: if_splits)
qed

lemma apply_leg_Inl: "apply_leg e x acc g = (Inl err, g') \<Longrightarrow> g' = g"
  by (auto simp: apply_leg_def dest: Account_Credit_Inl Account_Debit_Inl split: if_splits)

lemma account_named_Some: "account_named name xs = Some a \<Longrightarrow> a \<in> set xs \<and> a_name a = name"
  by (induction xs) (auto split: if_splits)

lemma account_named_None: "account_named name xs = None \<longleftrightarrow> (\<forall>a\<in>set xs. a_name a \<noteq> name)"
  by (induction xs) auto

lemma ids_drawn_fresh:
  "ids_drawn e g v \<Longrightarrow> uuid_unique e N \<Longrightarrow> drawn g < N \<Longrightarrow> v (AccountID (uuid_seq e (drawn g))) = None"
proof (rule ccontr)
  assume ids: "ids_drawn e g v" and uq: "uuid_unique e N" and N: "drawn g < N"
    and "v (AccountID (uuid_seq e (drawn g))) \<noteq> None"
  then obtain n where n: "n < drawn g" "uuid_seq e (drawn g) = uuid_seq e n"
    by (force simp: ids_drawn_def)
  with uuid_seq_inject [OF uq N, of n] N show False by simp
qed

lemma ids_drawn_mono: "ids_drawn e g v \<Longrightarrow> dom v' = dom v \<Longrightarrow> drawn g \<le> drawn g' \<Longrightarrow> ids_drawn e g' v'"
  unfolding ids_drawn_def by (metis order_less_le_trans)

lemma cmd_legs_length [simp]: "length (cmd_legs cmd) = length (rc_Entries cmd)"
  by (simp add: cmd_legs_def)

lemma cmd_accepted:
  assumes "cmd_ok cmd"
  obtains tx g1 where "cmd_params 0 (rc_Entries cmd) = Inr (cmd_legs cmd)"
    "NewTransaction e (cmd_legs cmd) d g = (Inr tx, g1)" "map params_of (tx_entries tx) = cmd_legs cmd"
    "Transaction_ok tx" "tx_description tx = d" "drawn g \<le> drawn g1"
proof -
  have params: "cmd_params 0 (rc_Entries cmd) = Inr (cmd_legs cmd)"
    using assms by (simp add: cmd_params_Inr_iff cmd_legs_def cmd_ok_def)
  have ok: "params_ok (cmd_legs cmd)" using assms by (simp add: cmd_ok_def)
  obtain tx g1 where new: "NewTransaction e (cmd_legs cmd) d g = (Inr tx, g1)" "drawn g \<le> drawn g1"
    using NewTransaction_total [OF ok, of e d g] by (metis le_SucI le_add1)
  show ?thesis using that [OF params new(1)] NewTransaction_InrD [OF new(1)] new(2) by simp
qed

text \<open>A command that fails validation is rejected before anything is read, drawn or written.\<close>

lemma record_rejected:
  assumes "\<not> cmd_ok cmd"
  shows "\<exists>err. RecordTransaction e s cmd g w = (Inl err, g, w)"
proof (cases "cmd_params 0 (rc_Entries cmd)")
  case (Inl err)
  then show ?thesis by (simp add: RecordTransaction_def)
next
  case (Inr ps)
  with assms cmd_params_legs [OF Inr] have "\<not> params_ok ps" by (simp add: cmd_ok_def)
  then obtain err where "NewTransaction e ps (rc_Description cmd) g = (Inl err, g)"
    using NewTransaction_rejected by blast
  with Inr show ?thesis by (simp add: RecordTransaction_def)
qed

text \<open>The generator only moves forward, whatever the ports do.\<close>

lemma apply_leg_drawn: "apply_leg e x acc g = (r, g') \<Longrightarrow> drawn g' = drawn g"
  by (cases r) (auto simp: apply_leg_def dest: Account_op_gen Account_Credit_Inl Account_Debit_Inl
      split: if_splits)

lemma update_balances_drawn: "update_balances e s xs g w = (r, g', w') \<Longrightarrow> drawn g' = drawn g"
  by (induction xs arbitrary: g w) (auto dest: apply_leg_drawn split: prod.splits sum.splits)

lemma record_drawn:
  assumes "RecordTransaction e s cmd g w = (r, g', w')"
  shows "drawn g \<le> drawn g'"
proof (cases "cmd_ok cmd")
  case False
  then show ?thesis using record_rejected [of cmd e s g w] assms by auto
next
  case True
  obtain tx g1 where tx: "cmd_params 0 (rc_Entries cmd) = Inr (cmd_legs cmd)"
    "NewTransaction e (cmd_legs cmd) (rc_Description cmd) g = (Inr tx, g1)" "drawn g \<le> drawn g1"
    using cmd_accepted [OF True] by metis
  obtain r1 g2 w1 where upd: "update_balances e s (Transaction_Entries tx) g1 w = (r1, g2, w1)"
    by (metis prod_cases3)
  have "drawn g' = drawn g2"
    using assms by (auto simp: RecordTransaction_def tx upd time_Now_def Let_def
        split: sum.splits prod.splits option.splits)
  then show ?thesis using tx(3) update_balances_drawn [OF upd] by simp
qed

lemma open_drawn: "OpenAccount e s cmd g w = (r, g', w') \<Longrightarrow> drawn g \<le> drawn g'"
  by (auto simp: OpenAccount_def NewAccountWithType_Inr_iff NewAccountWithType_Inl_iff time_Now_def Let_def
      split: sum.splits prod.splits option.splits)

lemma system_drawn: "getOrCreateSystemAccount e s name ty c g w = (r, g', w') \<Longrightarrow> drawn g \<le> drawn g'"
  by (auto simp: getOrCreateSystemAccount_def dest: open_drawn
      split: sum.splits prod.splits option.splits)

lemma suspense_drawn: "suspenseAccountID e s c g w = (i, g', w') \<Longrightarrow> drawn g \<le> drawn g'"
  by (auto simp: suspenseAccountID_def dest: system_drawn split: sum.splits prod.splits)

lemma deposit_drawn: "Deposit e s i n c d g w = (r, g', w') \<Longrightarrow> drawn g \<le> drawn g'"
  by (auto simp: Deposit_def getOrCreateSystemEquity_def dest!: system_drawn record_drawn
      split: sum.splits prod.splits)

subsection \<open>The contract of the ports, and the service on top of it\<close>

locale ledger_ports = account_repository "ls_accounts svc" view invar stored
  for svc :: "'w LedgerService" and view :: "'w \<Rightarrow> AccountID \<rightharpoonup> Account"
    and invar :: "'w \<Rightarrow> bool" and stored :: "Account \<Rightarrow> Account" +
  assumes tx_frame: "invar w \<Longrightarrow> txr_Save (ls_transactions svc) t w = (r, w') \<Longrightarrow>
        invar w' \<and> view w' = view w"
    and outbox_frame: "invar w \<Longrightarrow> ls_outbox svc = Some ob \<Longrightarrow>
        ob_AppendWithOutbox ob i ty n evs w = (r, w') \<Longrightarrow> invar w' \<and> view w' = view w"
    and store_frame: "invar w \<Longrightarrow> ls_eventStore svc = Some es \<Longrightarrow>
        es_Append es i ty n evs w = (r, w') \<Longrightarrow> invar w' \<and> view w' = view w"
    and projector_frame: "invar w \<Longrightarrow> ls_projector svc = Some p \<Longrightarrow>
        pj_ProjectAccountOpened p ao w = (r, w') \<Longrightarrow> invar w' \<and> view w' = view w"
      "invar w \<Longrightarrow> ls_projector svc = Some p \<Longrightarrow>
        pj_ProjectTransactionRecorded p tr w = (r, w') \<Longrightarrow> invar w' \<and> view w' = view w"
begin

lemma append_frame:
  "invar w \<Longrightarrow> appendEvent e svc i ty n ev w = (r, w') \<Longrightarrow> invar w' \<and> view w' = view w"
  by (auto simp: appendEvent_def Let_def dest: outbox_frame store_frame
      split: sum.splits option.splits)

lemma view_finite: "invar w \<Longrightarrow> finite (dom (view w))"
  using view_ok by (simp add: accounts_ok_def)

lemma view_account: "invar w \<Longrightarrow> view w i = Some a \<Longrightarrow> Account_ok a \<and> a_id a = i"
  using view_ok by (simp add: accounts_ok_def)

text \<open>One round of the loop in RecordTransaction, in two halves: what was read and computed is still
  to be saved, and the saved leg.\<close>

lemma leg_found:
  assumes "invar w" "acc_FindByID (ls_accounts svc) (e_accountID x) w = (Inr acc, w1)"
    and "apply_leg e x acc g = (Inr b, g1)"
  shows "leg_pending (view w) x b" "drawn g1 = drawn g"
proof -
  from find_ok [OF assms(1,2)] have acc: "view w (e_accountID x) = Some acc" .
  with view_account assms(1) have ok: "Account_ok acc" by blast
  note leg = apply_leg_InrD [OF assms(3) ok]
  show "leg_pending (view w) x b" using acc leg by (simp add: leg_pending_def)
  show "drawn g1 = drawn g" by (rule leg(5))
qed

lemma leg_saved:
  assumes "invar w" "leg_pending (view w) x b" "acc_Save (ls_accounts svc) b w = (Inr u, w1)"
  shows "invar w1" "view w1 = (view w)(e_accountID x \<mapsto> stored b)" "postable (view w) (params_of x)"
    "moved (view w) (posted [params_of x]) (view w1)"
proof -
  from assms(2) obtain acc where acc: "view w (e_accountID x) = Some acc" and ok: "Account_ok b"
    and same: "same_identity b acc" "a_status b = a_status acc" "funds b = funds acc + leg_delta x"
    and cur: "e_entryType x \<in> {Debit, Credit} \<longrightarrow> a_currency acc = currency (e_amount x)"
    unfolding leg_pending_def by blast
  have i: "a_id b = e_accountID x" using view_account [OF assms(1) acc] same(1) by (simp add: same_identity_def)
  have "keeps_identity b (view w (a_id b))" by (simp add: keeps_identity_def i acc same(1))
  from save_ok [OF assms(1) ok this assms(3)]
  show "invar w1" and w1: "view w1 = (view w)(e_accountID x \<mapsto> stored b)" by (simp_all add: i)
  show "postable (view w) (params_of x)" using cur acc by (simp add: postable_def params_of_def)
  have "same_holder (stored b) acc"
    using same(1,2) stored_created [OF assms(1) acc, of b]
    by (simp add: same_holder_def same_identity_def stored_fields)
  moreover have "funds (stored b) = funds acc + param_delta (params_of x)"
    using same(3) by (simp add: leg_delta_param stored_funds)
  ultimately show "moved (view w) (posted [params_of x]) (view w1)"
    using moved_step [of "view w" _ acc "stored b" "params_of x" "[]", OF acc] by (simp add: w1 movedI params_of_def)
qed

end

subsection \<open>The effect of the methods on the accounts\<close>

context ledger_ports
begin

text \<open>One round of the loop: it stops with an error and the accounts as they were, or it posts the
  leg and goes on.\<close>

lemma update_balances_round:
  assumes "invar w" and "update_balances e svc (x # xs) g w = (r, g', w')"
  obtains (stop) err where "r = Inl err" "invar w'" "view w' = view w" "drawn g' = drawn g"
  | (go) g1 w2 where "update_balances e svc xs g1 w2 = (r, g', w')" "invar w2" "drawn g1 = drawn g"
      "postable (view w) (params_of x)" "moved (view w) (posted [params_of x]) (view w2)"
      "\<And>i. i \<noteq> e_accountID x \<Longrightarrow> view w2 i = view w i"
proof -
  obtain r1 w1 where find: "acc_FindByID (ls_accounts svc) (e_accountID x) w = (r1, w1)" by fastforce
  note w1 = find_frame [OF assms(1) find]
  show ?thesis
  proof (cases r1)
    case (Inl err)
    with assms(2) find w1 show ?thesis by (intro stop) auto
  next
    case acc: (Inr acc)
    obtain r2 g1 where leg: "apply_leg e x acc g = (r2, g1)" by fastforce
    show ?thesis
    proof (cases r2)
      case (Inl err)
      with assms(2) find acc leg w1 show ?thesis by (intro stop) (auto dest: apply_leg_Inl)
    next
      case b: (Inr b)
      note found = leg_found [OF assms(1) find [unfolded acc] leg [unfolded b]]
      obtain r3 w2 where save: "acc_Save (ls_accounts svc) b w1 = (r3, w2)" by fastforce
      show ?thesis
      proof (cases r3)
        case (Inl err)
        with assms(2) find acc leg b save save_err [of w1 b err w2] w1 found(2) show ?thesis
          by (intro stop) auto
      next
        case u: (Inr u)
        have "leg_pending (view w1) x b" using found(1) w1 by simp
        from leg_saved [OF conjunct1 [OF w1] this save [unfolded u]] w1
        have "invar w2" "postable (view w) (params_of x)" "moved (view w) (posted [params_of x]) (view w2)"
          "\<And>i. i \<noteq> e_accountID x \<Longrightarrow> view w2 i = view w i"
          by simp_all
        with assms(2) find acc leg b save u found(2) show ?thesis by (intro go [of g1 w2]) auto
      qed
    qed
  qed
qed

text \<open>The loop over the entries: some prefix of the legs is posted, all of them if it succeeds.\<close>

lemma update_balances_spec:
  assumes "invar w" and "update_balances e svc xs g w = (r, g', w')"
  shows "invar w' \<and> drawn g' = drawn g \<and>
    (\<exists>k\<le>length xs. moved (view w) (posted (map params_of (take k xs))) (view w')
       \<and> list_all (postable (view w)) (map params_of (take k xs)) \<and> (r = Inr () \<longrightarrow> k = length xs))"
  using assms
proof (induction xs arbitrary: g w)
  case Nil
  then show ?case by (auto intro!: movedI)
next
  case (Cons x xs)
  from Cons.prems show ?case
  proof (cases rule: update_balances_round)
    case (stop err)
    then show ?thesis by (auto intro!: exI [of _ 0] movedI)
  next
    case (go g1 w2)
    from Cons.IH [OF go(2,1)] obtain k where k: "k \<le> length xs"
      "moved (view w2) (posted (map params_of (take k xs))) (view w')"
      "list_all (postable (view w2)) (map params_of (take k xs))"
      "r = Inr () \<longrightarrow> k = length xs" "invar w'" "drawn g' = drawn g1" by blast
    have "moved (view w) (posted (map params_of (take (Suc k) (x # xs)))) (view w')"
      using moved_append [OF go(5) k(2)] by (simp del: posted_simps)
    moreover have "postable (view w2) = postable (view w)" using go(5) by (auto simp: postable_moved)
    ultimately show ?thesis
      using k go(3,4) by (intro conjI exI [of _ "Suc k"]) (auto simp del: posted_simps)
  qed
qed

text \<open>An account without a leg stays exactly as it was.\<close>

lemma update_balances_untouched:
  assumes "invar w" and "update_balances e svc xs g w = (r, g', w')" and "i \<notin> e_accountID ` set xs"
  shows "view w' i = view w i"
  using assms
proof (induction xs arbitrary: g w)
  case (Cons x xs)
  from Cons.prems(1,2) show ?case
  proof (cases rule: update_balances_round)
    case (stop err)
    then show ?thesis by simp
  next
    case (go g1 w2)
    with Cons.IH [OF go(2,1)] Cons.prems(3) show ?thesis by simp
  qed
qed simp

text \<open>The common tail of the two commands: append the event, then project it.\<close>

lemma project_frame:
  "invar w \<Longrightarrow> ls_projector svc = Some p \<Longrightarrow>
     invar (snd (pj_ProjectAccountOpened p ao w)) \<and> view (snd (pj_ProjectAccountOpened p ao w)) = view w"
  "invar w \<Longrightarrow> ls_projector svc = Some p \<Longrightarrow>
     invar (snd (pj_ProjectTransactionRecorded p tr w))
     \<and> view (snd (pj_ProjectTransactionRecorded p tr w)) = view w"
  using projector_frame prod.collapse by metis+

lemma emit_frame:
  assumes "invar w"
    and "\<And>p w. invar w \<Longrightarrow> ls_projector svc = Some p \<Longrightarrow> invar (snd (F p w)) \<and> view (snd (F p w)) = view w"
    and "(case appendEvent e svc i ty n ev w of (Inl err, w3) \<Rightarrow> (Inl (Wrap m err), g, w3)
          | (Inr _, w3) \<Rightarrow> (case ls_projector svc of None \<Rightarrow> (Inr x, g, w3)
                           | Some p \<Rightarrow> (Inr x, g, snd (F p w3)))) = (r, g', w')"
  shows "invar w' \<and> view w' = view w \<and> g' = g \<and> (\<forall>t. r = Inr t \<longrightarrow> t = x)"
proof -
  obtain r3 w3 where app: "appendEvent e svc i ty n ev w = (r3, w3)" by fastforce
  note w3 = append_frame [OF assms(1) app]
  show ?thesis
    using assms(3) w3 assms(2) [of w3]
    by (cases r3; cases "ls_projector svc") (auto simp: app)
qed

text \<open>After the loop over the entries nothing touches the accounts.\<close>

lemma record_after_loop:
  assumes "RecordTransaction e svc cmd g w = (r, g', w')"
    and "cmd_params 0 (rc_Entries cmd) = Inr ps" "NewTransaction e ps (rc_Description cmd) g = (Inr tx, g1)"
    and "update_balances e svc (Transaction_Entries tx) g1 w = (r1, g2, w1)" "invar w1"
  shows "invar w' \<and> view w' = view w1 \<and> drawn g' = drawn g2 \<and> (\<forall>t. r = Inr t \<longrightarrow> t = tx \<and> r1 = Inr ())"
proof -
  obtain r2 w2 where save: "txr_Save (ls_transactions svc) tx w1 = (r2, w2)" by fastforce
  note w2 = tx_frame [OF assms(5) save]
  note run = assms(1) [unfolded RecordTransaction_def assms(2-4) save sum.case prod.case time_Now_def Let_def]
  show ?thesis
  proof (cases r1)
    case (Inl err)
    then show ?thesis using run assms(5) by auto
  next
    case r1: (Inr u)
    show ?thesis
    proof (cases r2)
      case (Inl err)
      then show ?thesis using run r1 w2 by auto
    next
      case r2: (Inr u)
      from emit_frame [OF conjunct1 [OF w2] project_frame(2) run [unfolded r1 r2 sum.case prod.case]]
      show ?thesis using w2 r1 by auto
    qed
  qed
qed

text \<open>What RecordTransaction did to the accounts, whatever it returned.\<close>

lemma record_outcome:
  assumes "invar w" and "RecordTransaction e svc cmd g w = (r, g', w')"
  shows "invar w' \<and> drawn g \<le> drawn g' \<and>
    (\<exists>k\<le>length (cmd_legs cmd). moved (view w) (posted (take k (cmd_legs cmd))) (view w')
       \<and> list_all (postable (view w)) (take k (cmd_legs cmd))
       \<and> (\<forall>t. r = Inr t \<longrightarrow> k = length (cmd_legs cmd) \<and> cmd_ok cmd
             \<and> map params_of (tx_entries t) = cmd_legs cmd))"
proof (cases "cmd_ok cmd")
  case False
  then obtain err where "RecordTransaction e svc cmd g w = (Inl err, g, w)"
    using record_rejected [of cmd e svc g w] by blast
  with assms show ?thesis by (intro conjI exI [of _ 0]) auto
next
  case ok: True
  obtain tx g1 where tx: "cmd_params 0 (rc_Entries cmd) = Inr (cmd_legs cmd)"
    "NewTransaction e (cmd_legs cmd) (rc_Description cmd) g = (Inr tx, g1)"
    "map params_of (tx_entries tx) = cmd_legs cmd" "drawn g \<le> drawn g1"
    using cmd_accepted [OF ok] by metis
  obtain r1 g2 w1 where upd: "update_balances e svc (Transaction_Entries tx) g1 w = (r1, g2, w1)"
    by (metis prod_cases3)
  have len: "length (tx_entries tx) = length (cmd_legs cmd)" using tx(3) by (metis length_map)
  from update_balances_spec [OF assms(1) upd] obtain k where
    inv1: "invar w1" and drawn: "drawn g2 = drawn g1" and k0: "k \<le> length (tx_entries tx)"
    "moved (view w) (posted (map params_of (take k (tx_entries tx)))) (view w1)"
    "list_all (postable (view w)) (map params_of (take k (tx_entries tx)))"
    "r1 = Inr () \<longrightarrow> k = length (tx_entries tx)"
    unfolding Transaction_Entries_def by blast
  note k = k0 [unfolded len take_map [symmetric] tx(3)]
  show ?thesis
    using record_after_loop [OF assms(2) tx(1,2) upd inv1] k tx(3,4) ok drawn
    by (intro conjI exI [of _ k]) auto
qed

lemma record_untouched:
  assumes "invar w" and "RecordTransaction e svc cmd g w = (r, g', w')"
    and "i \<notin> ep_AccountID ` set (cmd_legs cmd)"
  shows "view w' i = view w i"
proof (cases "cmd_ok cmd")
  case False
  then show ?thesis using record_rejected [of cmd e svc g w] assms(2) by auto
next
  case ok: True
  obtain tx g1 where tx: "cmd_params 0 (rc_Entries cmd) = Inr (cmd_legs cmd)"
    "NewTransaction e (cmd_legs cmd) (rc_Description cmd) g = (Inr tx, g1)"
    "map params_of (tx_entries tx) = cmd_legs cmd"
    using cmd_accepted [OF ok] by metis
  obtain r1 g2 w1 where upd: "update_balances e svc (Transaction_Entries tx) g1 w = (r1, g2, w1)"
    by (metis prod_cases3)
  have "map e_accountID (tx_entries tx) = map ep_AccountID (cmd_legs cmd)"
    unfolding tx(3) [symmetric] by (simp add: params_of_def)
  then have "e_accountID ` set (Transaction_Entries tx) = ep_AccountID ` set (cmd_legs cmd)"
    by (metis list.set_map Transaction_Entries_def)
  with update_balances_untouched [OF assms(1) upd] assms(3) have "view w1 i = view w i" by simp
  moreover have "invar w1" using update_balances_spec [OF assms(1) upd] by simp
  ultimately show ?thesis using record_after_loop [OF assms(2) tx(1,2) upd] by simp
qed

text \<open>Opening an account: nothing, or one new account with no funds under a fresh identifier; the
  second also when the event could not be appended.\<close>

lemma open_outcome:
  assumes "invar w" and "view w (AccountID (uuid_seq e (drawn g))) = None"
    and "OpenAccount e svc cmd g w = (r, g', w')"
  shows "invar w' \<and> (view w' = view w \<and> (\<forall>a. r \<noteq> Inr a) \<and> drawn g \<le> drawn g' \<and> drawn g' \<le> Suc (drawn g)
    \<or> (\<exists>acc g1. NewAccountWithType e (oc_Name cmd) (accType_of (oc_AccountType cmd))
             (oc_Currency cmd) g = (Inr acc, g1)
         \<and> view w' = (view w)(a_id acc \<mapsto> stored acc) \<and> drawn g' = Suc (drawn g)
         \<and> (\<forall>a. r = Inr a \<longrightarrow> a = acc)))"
proof -
  obtain r1 g1 where new: "NewAccountWithType e (oc_Name cmd) (accType_of (oc_AccountType cmd))
      (oc_Currency cmd) g = (r1, g1)" by fastforce
  show ?thesis
  proof (cases r1)
    case (Inl err)
    with assms(1,3) new show ?thesis by (auto simp: OpenAccount_def NewAccountWithType_Inl_iff)
  next
    case acc: (Inr acc)
    note a = new [unfolded acc NewAccountWithType_Inr_iff]
    then have ok: "Account_ok acc" and fresh: "keeps_identity acc (view w (a_id acc))"
      and drawn: "drawn g1 = Suc (drawn g)"
      using assms(2) by (auto simp: Account_ok_def keeps_identity_def)
    obtain r2 w1 where save: "acc_Save (ls_accounts svc) acc w = (r2, w1)" by fastforce
    show ?thesis
    proof (cases r2)
      case (Inl err)
      have "view w' = view w" "invar w'" "\<forall>a. r \<noteq> Inr a" "drawn g' = drawn g1"
        using assms(3) save_err [OF assms(1) save [unfolded Inl]]
        by (auto simp: OpenAccount_def new acc save Inl)
      then show ?thesis by (simp add: drawn)
    next
      case u: (Inr u)
      note saved = save_ok [OF assms(1) ok fresh save [unfolded u]]
      from emit_frame [OF conjunct1 [OF saved] project_frame(1)
          assms(3) [unfolded OpenAccount_def Let_def new acc save u time_Now_def sum.case prod.case]]
      have "invar w' \<and> view w' = view w1 \<and> drawn g' = drawn g1 \<and> (\<forall>b. r = Inr b \<longrightarrow> b = acc)"
        by simp
      then show ?thesis
        using saved new [unfolded acc] by (intro conjI disjI2 exI [of _ acc] exI [of _ g1]) (auto simp: drawn)
    qed
  qed
qed

lemma open_view_opened:
  assumes "invar w" "view w (AccountID (uuid_seq e (drawn g))) = None" "OpenAccount e svc cmd g w = (r, g', w')"
  shows "opened (view w) (view w')"
proof -
  from open_outcome [OF assms] consider "view w' = view w"
    | acc where "view w' = (view w)(a_id acc \<mapsto> stored acc)" "a_id acc = AccountID (uuid_seq e (drawn g))" "funds acc = 0"
    by (auto simp: NewAccountWithType_Inr_iff funds_def)
  then show ?thesis using assms(2) by cases (simp_all add: opened_new stored_funds)
qed

lemma open_opened:
  assumes "invar w" and "ids_drawn e g (view w)" and "uuid_unique e N" "drawn g < N"
    and "OpenAccount e svc cmd g w = (r, g', w')"
  shows "opened (view w) (view w')" "ids_drawn e g' (view w')" "drawn g \<le> drawn g'"
    "drawn g' \<le> Suc (drawn g)"
proof -
  note fresh = ids_drawn_fresh [OF assms(2-4)]
  from open_outcome [OF assms(1) fresh assms(5)] consider
      "view w' = view w" "drawn g \<le> drawn g'" "drawn g' \<le> Suc (drawn g)"
    | acc where "view w' = (view w)(a_id acc \<mapsto> stored acc)" "drawn g' = Suc (drawn g)"
        "a_id acc = AccountID (uuid_seq e (drawn g))" "funds acc = 0"
    by (auto simp: NewAccountWithType_Inr_iff funds_def)
  then have "opened (view w) (view w') \<and> ids_drawn e g' (view w') \<and> drawn g \<le> drawn g'
    \<and> drawn g' \<le> Suc (drawn g)"
  proof cases
    case 1
    then show ?thesis using ids_drawn_mono [OF assms(2)] by simp
  next
    case 2
    then have "opened (view w) (view w')" using fresh by (simp add: opened_new stored_funds)
    moreover have "ids_drawn e g' (view w')"
      using 2 assms(2) by (auto simp: ids_drawn_def less_Suc_eq)
    ultimately show ?thesis using 2 by simp
  qed
  then show "opened (view w) (view w')" "ids_drawn e g' (view w')" "drawn g \<le> drawn g'"
    "drawn g' \<le> Suc (drawn g)" by simp_all
qed

text \<open>Conservation for a recorded transaction.\<close>

lemma record_conserves:
  assumes "invar w" and "RecordTransaction e svc cmd g w = (Inr t, g', w')"
  shows "total_funds (view w') c = total_funds (view w) c"
proof -
  from record_outcome [OF assms] have "cmd_ok cmd"
    and moved: "moved (view w) (posted (cmd_legs cmd)) (view w')"
    and post: "list_all (postable (view w)) (cmd_legs cmd)" by auto
  then have "params_ok (cmd_legs cmd)" by (simp add: cmd_ok_def)
  from total_conserved [OF this _ moved view_finite [OF assms(1)]] post show ?thesis
    by (simp add: list_all_iff)
qed

text \<open>A system account: found by name, or opened.\<close>

lemma system_outcome:
  assumes "invar w" and "ids_drawn e g (view w)" and "uuid_unique e N" "drawn g < N"
    and "getOrCreateSystemAccount e svc name ty c g w = (r, g', w')"
  shows "invar w'" "opened (view w) (view w')" "ids_drawn e g' (view w')" "drawn g \<le> drawn g'"
    "drawn g' \<le> Suc (drawn g)"
proof -
  obtain rs w1 where all: "acc_FindAll (ls_accounts svc) w = (rs, w1)" by fastforce
  note w1 = all_frame [OF assms(1) all]
  note run = assms(5) [unfolded getOrCreateSystemAccount_def all prod.case]
  have "invar w' \<and> opened (view w) (view w') \<and> ids_drawn e g' (view w') \<and> drawn g \<le> drawn g'
    \<and> drawn g' \<le> Suc (drawn g)"
  proof (cases "\<exists>xs. rs = Inr xs \<and> account_named name xs = None")
    case True
    then have op: "OpenAccount e svc \<lparr>oc_Name = name, oc_AccountType = ty, oc_Currency = c\<rparr> g w1 = (r, g', w')"
      using run by auto
    have ids: "ids_drawn e g (view w1)" using assms(2) w1 by simp
    from open_outcome [OF conjunct1 [OF w1] ids_drawn_fresh [OF ids assms(3,4)] op]
      open_opened [OF conjunct1 [OF w1] ids assms(3,4) op] w1
    show ?thesis by simp
  next
    case False
    then have "w' = w1 \<and> g' = g" using run by (auto split: sum.splits option.splits)
    then show ?thesis using w1 assms(2) by simp
  qed
  then show "invar w'" "opened (view w) (view w')" "ids_drawn e g' (view w')" "drawn g \<le> drawn g'"
    "drawn g' \<le> Suc (drawn g)" by simp_all
qed

lemma system_found:
  assumes "invar w" and "ids_drawn e g (view w)" and "uuid_unique e N" "drawn g < N"
    and "getOrCreateSystemAccount e svc name ty c g w = (Inr acc, g', w')"
  obtains (old) "view w' = view w" "view w (a_id acc) = Some acc" "a_name acc = name"
  | (new) "a_id acc = AccountID (uuid_seq e (drawn g))" "view w (a_id acc) = None"
      "view w' = (view w)(a_id acc \<mapsto> stored acc)" "a_name acc = name"
      "a_accountType acc = accType_of ty" "a_currency acc = c" "funds acc = 0"
proof -
  obtain rs w1 where all: "acc_FindAll (ls_accounts svc) w = (rs, w1)" by fastforce
  note w1 = all_frame [OF assms(1) all]
  note run = assms(5) [unfolded getOrCreateSystemAccount_def all prod.case]
  obtain xs where rs: "rs = Inr xs" using run by (cases rs) auto
  show ?thesis
  proof (cases "account_named name xs")
    case None
    then have op: "OpenAccount e svc \<lparr>oc_Name = name, oc_AccountType = ty, oc_Currency = c\<rparr> g w1 = (Inr acc, g', w')"
      using run rs by simp
    have fresh: "view w1 (AccountID (uuid_seq e (drawn g))) = None"
      using ids_drawn_fresh [OF assms(2-4)] w1 by simp
    from open_outcome [OF conjunct1 [OF w1] fresh op] fresh w1 show ?thesis
      by (intro new) (auto simp: NewAccountWithType_Inr_iff funds_def)
  next
    case (Some b)
    then have b: "b = acc" "w' = w1" using run rs by simp_all
    from Some all_ok [OF assms(1) all [unfolded rs]] have "b \<in> ran (view w)" "a_name b = name"
      by (auto dest: account_named_Some)
    moreover from this(1) have "view w (a_id b) = Some b"
      using view_account [OF assms(1)] by (fastforce simp: ran_def)
    ultimately show ?thesis using b w1 old by simp
  qed
qed

lemma suspense_outcome:
  assumes "invar w" and "ids_drawn e g (view w)" and "uuid_unique e N" "drawn g < N"
    and "suspenseAccountID e svc c g w = (i, g', w')"
  shows "invar w'" "opened (view w) (view w')" "ids_drawn e g' (view w')" "drawn g \<le> drawn g'"
    "drawn g' \<le> Suc (drawn g)"
proof -
  obtain r g1 w1 where sys: "getOrCreateSystemAccount e svc (suspense_name c) ''LIABILITY'' c g w = (r, g1, w1)"
    by (metis prod_cases3)
  then have "g' = g1" "w' = w1"
    using assms(5) by (auto simp: suspenseAccountID_def split: sum.splits)
  with system_outcome [OF assms(1-4) sys] show "invar w'" "opened (view w) (view w')"
    "ids_drawn e g' (view w')" "drawn g \<le> drawn g'" "drawn g' \<le> Suc (drawn g)" by simp_all
qed

lemma record_ids:
  assumes "invar w" and "ids_drawn e g (view w)" and "RecordTransaction e svc cmd g w = (r, g', w')"
  shows "ids_drawn e g' (view w')"
  using record_outcome [OF assms(1,3)] ids_drawn_mono [OF assms(2)] by (auto simp: moved_def)

lemma deposit_run:
  assumes "invar w" and "ids_drawn e g (view w)" and "uuid_unique e N" "drawn g < N"
    and "Deposit e svc i n c d g w = (Inr u, g', w')"
  shows "invar w'" "ids_drawn e g' (view w')" "total_funds (view w') cc = total_funds (view w) cc"
    "\<exists>v1 eq. opened (view w) v1
       \<and> moved v1 (\<lambda>k. (if k = eq then - n else 0) + (if k = i then n else 0)) (view w')"
proof -
  obtain r g1 w1 where eq: "getOrCreateSystemEquity e svc c g w = (r, g1, w1)" by (metis prod_cases3)
  note w1 = system_outcome [OF assms(1-4) eq [unfolded getOrCreateSystemEquity_def]]
  let ?cmd = "\<lambda>acc :: Account. \<lparr>rc_Entries =
      [\<lparr>ec_AccountID = a_id acc, ec_Amount = n, ec_Currency = c, ec_Type = Debit\<rparr>,
       \<lparr>ec_AccountID = i, ec_Amount = n, ec_Currency = c, ec_Type = Credit\<rparr>], rc_Description = d\<rparr>"
  from assms(5) obtain acc t where
    rec: "RecordTransaction e svc (?cmd acc) g1 w1 = (Inr t, g', w')"
    by (auto simp: Deposit_def eq split: sum.splits prod.splits)
  note out = record_outcome [OF w1(1) rec]
  show "invar w'" using out by simp
  show "ids_drawn e g' (view w')" by (rule record_ids [OF w1(1,3) rec])
  show "total_funds (view w') cc = total_funds (view w) cc"
    using record_conserves [OF w1(1) rec] total_opened [OF w1(2) view_finite [OF assms(1)]] by simp
  have "posted (cmd_legs (?cmd acc)) = (\<lambda>k. (if k = a_id acc then - n else 0) + (if k = i then n else 0))"
    by (auto simp: cmd_legs_def param_delta_def signed_leg_def)
  with out w1(2) show "\<exists>v1 eq. opened (view w) v1
       \<and> moved v1 (\<lambda>k. (if k = eq then - n else 0) + (if k = i then n else 0)) (view w')" by auto
qed

text \<open>A deposit on an account other than the system equity account itself.\<close>

lemma deposited_two_legs:
  assumes "moved v1 (posted [q, p]) v'" "list_all (postable v1) [q, p]"
    and legs: "ep_Type p = Credit" "ep_Type q = Debit" "ep_AccountID p = i" "ep_AccountID q = eq"
      "ep_Amount p = \<lparr>amount = n, currency = c\<rparr>" "ep_Amount q = \<lparr>amount = n, currency = c\<rparr>"
    and rest: "\<And>k. k \<noteq> i \<Longrightarrow> k \<noteq> eq \<Longrightarrow> v' k = v1 k"
    and eq: "eq \<noteq> i" "v1 eq = Some x" "a_name x = equity_name c"
    and old: "v1 = v \<or> v eq = None \<and> v1 = v(eq \<mapsto> x) \<and> a_accountType x = Equity \<and> funds x = 0"
  shows "deposited v i n c v'"
proof -
  have cur: "a_currency x = c" "\<exists>a. v1 i = Some a \<and> a_currency a = c"
    using assms(2) legs eq(2) by (auto simp: postable_def split: option.splits)
  then obtain a where a: "v1 i = Some a" "a_currency a = c" by blast
  have delta: "posted [q, p] i = n" "posted [q, p] eq = - n"
    using legs eq(1) by (simp_all add: param_delta_def signed_leg_def)
  from assms(1) a(1) obtain a' where a': "v' i = Some a'" "same_holder a' a" "funds a' = funds a + n"
    unfolding delta(1) [symmetric] by (rule moved_SomeD)
  from assms(1) eq(2) obtain b where "v' eq = Some b" "same_holder b x" "funds b = funds x + posted [q, p] eq"
    by (rule moved_SomeD)
  then have b: "v' eq = Some b" "same_holder b x" "funds b = funds x - n" by (simp_all only: delta add_uminus_conv_diff)
  have vi: "v i = Some a" using old a(1) eq(1) by auto
  have "case v eq of None \<Rightarrow> a_accountType b = Equity \<and> funds b = - n
        | Some x \<Rightarrow> same_holder b x \<and> funds b = funds x - n"
    using old eq(2) b by (auto simp: same_holder_def)
  moreover have "v' k = v k" if "k \<noteq> i" "k \<noteq> eq" for k using rest [OF that] old that by auto
  moreover have "a_name b = equity_name c" "a_currency b = c"
    using b(2) eq(3) cur(1) by (simp_all add: same_holder_def)
  ultimately show ?thesis
    unfolding deposited_def
    by (intro exI [of _ a] exI [of _ a'] exI [of _ eq] exI [of _ b]) (use vi a(2) a' b(1) eq(1) in auto)
qed

lemma deposit_posts:
  assumes "invar w" and "ids_drawn e g (view w)" and "uuid_unique e N" "drawn g < N"
    and "Deposit e svc i n c d g w = (Inr u, g', w')"
    and other: "i \<noteq> AccountID (uuid_seq e (drawn g))" "\<And>a. view w i = Some a \<Longrightarrow> a_name a \<noteq> equity_name c"
  shows "deposited (view w) i n c (view w')"
proof -
  obtain r g1 w1 where eq: "getOrCreateSystemEquity e svc c g w = (r, g1, w1)" by (metis prod_cases3)
  let ?leg = "\<lambda>j ty. \<lparr>ec_AccountID = j, ec_Amount = n, ec_Currency = c, ec_Type = ty\<rparr>"
  let ?cmd = "\<lambda>acc :: Account. \<lparr>rc_Entries = [?leg (a_id acc) Debit, ?leg i Credit], rc_Description = d\<rparr>"
  let ?p = "\<lambda>j ty. \<lparr>ep_AccountID = j, ep_Amount = \<lparr>amount = n, currency = c\<rparr>, ep_Type = ty\<rparr>"
  from assms(5) obtain acc t where r: "r = Inr acc"
    and rec: "RecordTransaction e svc (?cmd acc) g1 w1 = (Inr t, g', w')"
    by (auto simp: Deposit_def eq split: sum.splits prod.splits)
  note sys = eq [unfolded getOrCreateSystemEquity_def r]
  have inv1: "invar w1" by (rule system_outcome(1) [OF assms(1-4) sys])
  have legs: "cmd_legs (?cmd acc) = [?p (a_id acc) Debit, ?p i Credit]" by (simp add: cmd_legs_def)
  note out = record_outcome [OF inv1 rec, unfolded legs]
  from out have mv: "moved (view w1) (posted [?p (a_id acc) Debit, ?p i Credit]) (view w')"
    and post: "list_all (postable (view w1)) [?p (a_id acc) Debit, ?p i Credit]" by auto
  have rest: "view w' k = view w1 k" if "k \<noteq> i" "k \<noteq> a_id acc" for k
    using that by (intro record_untouched [OF inv1 rec]) (simp add: legs)
  note posts = deposited_two_legs [OF mv post _ _ _ _ _ _ rest, simplified]
  from assms(1-4) sys show ?thesis
  proof (cases rule: system_found)
    case old
    then have "a_id acc \<noteq> i" using other(2) by auto
    with old posts show ?thesis by simp
  next
    case new
    with other(1) have "a_id acc \<noteq> i" by simp
    moreover have "accType_of ''EQUITY'' = Equity" by (simp add: accType_of_def)
    ultimately show ?thesis
      using new posts [where x = "stored acc" and v = "view w"] by (simp add: stored_fields stored_funds)
  qed
qed

end

end
