(* ===== verification/Inmemory_Store.thy ===== *)
theory Inmemory_Store
  imports Repository_Ports
begin

section \<open>In-memory repositories (internal/infra/inmemory)\<close>

text \<open>
  Both fakes are a Go map from the text of an identifier to a value, guarded by a mutex that
  makes each call atomic. The map is an association list with distinct keys; a
  \<^verbatim>\<open>range\<close> over it visits the keys in an order taken from the environment, which may differ
  from one loop to the next.
\<close>

record mem_AccountRepository =
  mem_accounts :: "(string \<times> Account) list"
  mem_acc_ranges :: nat

record mem_TransactionRepository =
  mem_transactions :: "(string \<times> Transaction) list"
  mem_tx_ranges :: nat

definition NewAccountRepository :: mem_AccountRepository where
  "NewAccountRepository = \<lparr>mem_accounts = [], mem_acc_ranges = 0\<rparr>"

definition mem_acc_Save ::
  "env \<Rightarrow> Account \<Rightarrow> mem_AccountRepository \<Rightarrow> (error + unit) \<times> mem_AccountRepository" where
  "mem_acc_Save e acc r =
     (Inr (), r\<lparr>mem_accounts := AList.update (AccountID_String e (a_id acc)) acc (mem_accounts r)\<rparr>)"

definition mem_acc_FindByID ::
  "env \<Rightarrow> AccountID \<Rightarrow> mem_AccountRepository \<Rightarrow> (error + Account) \<times> mem_AccountRepository" where
  "mem_acc_FindByID e i r =
     (case map_of (mem_accounts r) (AccountID_String e i) of
        None \<Rightarrow> (Inl ErrAccountNotFound, r)
      | Some acc \<Rightarrow> (Inr acc, r))"

definition mem_acc_FindAll ::
  "env \<Rightarrow> mem_AccountRepository \<Rightarrow> (error + Account list) \<times> mem_AccountRepository" where
  "mem_acc_FindAll e r =
     (Inr (List.map_filter (map_of (mem_accounts r))
        (map_order e (mem_acc_ranges r) (map fst (mem_accounts r)))),
      r\<lparr>mem_acc_ranges := Suc (mem_acc_ranges r)\<rparr>)"

definition NewTransactionRepository :: mem_TransactionRepository where
  "NewTransactionRepository = \<lparr>mem_transactions = [], mem_tx_ranges = 0\<rparr>"

definition mem_tx_Save ::
  "env \<Rightarrow> Transaction \<Rightarrow> mem_TransactionRepository \<Rightarrow> (error + unit) \<times> mem_TransactionRepository"
where
  "mem_tx_Save e t r =
     (Inr (), r\<lparr>mem_transactions :=
        AList.update (TransactionID_String e (tx_id t)) t (mem_transactions r)\<rparr>)"

definition mem_tx_FindByID ::
  "env \<Rightarrow> TransactionID \<Rightarrow> mem_TransactionRepository \<Rightarrow> (error + Transaction) \<times> mem_TransactionRepository"
where
  "mem_tx_FindByID e i r =
     (case map_of (mem_transactions r) (TransactionID_String e i) of
        None \<Rightarrow> (Inl ErrTransactionNotFound, r)
      | Some t \<Rightarrow> (Inr t, r))"

text \<open>The inner loop with its \<^verbatim>\<open>break\<close>, and the outer one that appends.\<close>

fun touches_account :: "AccountID \<Rightarrow> Entry list \<Rightarrow> bool" where
  "touches_account i [] = False"
| "touches_account i (x # xs) =
     (if AccountID_Equals (e_accountID x) i then True else touches_account i xs)"

fun collect_by_account :: "AccountID \<Rightarrow> Transaction list \<Rightarrow> Transaction list" where
  "collect_by_account i [] = []"
| "collect_by_account i (t # ts) =
     (if touches_account i (Transaction_Entries t) then t # collect_by_account i ts
      else collect_by_account i ts)"

definition mem_tx_FindByAccountID ::
  "env \<Rightarrow> AccountID \<Rightarrow> mem_TransactionRepository \<Rightarrow> (error + Transaction list) \<times> mem_TransactionRepository"
where
  "mem_tx_FindByAccountID e i r =
     (Inr (collect_by_account i (List.map_filter (map_of (mem_transactions r))
        (map_order e (mem_tx_ranges r) (map fst (mem_transactions r))))),
      r\<lparr>mem_tx_ranges := Suc (mem_tx_ranges r)\<rparr>)"

subsection \<open>The store of the unit tests and its ports\<close>

record test_world =
  tw_accounts :: mem_AccountRepository
  tw_transactions :: mem_TransactionRepository

definition on_accounts ::
  "(mem_AccountRepository \<Rightarrow> 'a \<times> mem_AccountRepository) \<Rightarrow> test_world \<Rightarrow> 'a \<times> test_world" where
  "on_accounts f w = (case f (tw_accounts w) of (x, r) \<Rightarrow> (x, w\<lparr>tw_accounts := r\<rparr>))"

definition on_transactions ::
  "(mem_TransactionRepository \<Rightarrow> 'a \<times> mem_TransactionRepository) \<Rightarrow> test_world \<Rightarrow> 'a \<times> test_world"
where
  "on_transactions f w = (case f (tw_transactions w) of (x, r) \<Rightarrow> (x, w\<lparr>tw_transactions := r\<rparr>))"

definition mem_account_port :: "env \<Rightarrow> test_world account_Repository" where
  "mem_account_port e =
     \<lparr>acc_Save = (\<lambda>a. on_accounts (mem_acc_Save e a)),
      acc_FindByID = (\<lambda>i. on_accounts (mem_acc_FindByID e i)),
      acc_FindAll = on_accounts (mem_acc_FindAll e)\<rparr>"

definition mem_transaction_port :: "env \<Rightarrow> test_world TransactionRepository" where
  "mem_transaction_port e =
     \<lparr>txr_Save = (\<lambda>t. on_transactions (mem_tx_Save e t)),
      txr_FindByID = (\<lambda>i. on_transactions (mem_tx_FindByID e i)),
      txr_FindByAccountID = (\<lambda>i. on_transactions (mem_tx_FindByAccountID e i))\<rparr>"

definition empty_world :: test_world where
  "empty_world = \<lparr>tw_accounts = NewAccountRepository, tw_transactions = NewTransactionRepository\<rparr>"

subsection \<open>Abstraction\<close>

definition mem_view :: "env \<Rightarrow> test_world \<Rightarrow> AccountID \<rightharpoonup> Account" where
  "mem_view e w = (\<lambda>i. map_of (mem_accounts (tw_accounts w)) (AccountID_String e i))"

text \<open>The invariant holds the laws of the environment the map relies on, so that the contract of
  the port is unconditional.\<close>

definition mem_inv :: "env \<Rightarrow> test_world \<Rightarrow> bool" where
  "mem_inv e w \<longleftrightarrow> uuid_codec e \<and> map_range_ok e
     \<and> distinct (map fst (mem_accounts (tw_accounts w)))
     \<and> (\<forall>(k, a)\<in>set (mem_accounts (tw_accounts w)). k = AccountID_String e (a_id a) \<and> Account_ok a)"

lemmas mem_defs = mem_account_port_def mem_transaction_port_def on_accounts_def on_transactions_def
  mem_acc_Save_def mem_acc_FindByID_def mem_acc_FindAll_def mem_tx_Save_def mem_tx_FindByID_def
  mem_tx_FindByAccountID_def

subsection \<open>Lemmas\<close>

lemma mem_inv_iff:
  "mem_inv e w \<longleftrightarrow> uuid_codec e \<and> map_range_ok e
     \<and> distinct (map fst (mem_accounts (tw_accounts w)))
     \<and> (\<forall>k a. map_of (mem_accounts (tw_accounts w)) k = Some a \<longrightarrow>
          k = AccountID_String e (a_id a) \<and> Account_ok a)"
  by (auto simp: mem_inv_def dest: map_of_SomeD)

lemma mem_view_save:
  assumes "uuid_codec e"
  shows "mem_view e (snd (acc_Save (mem_account_port e) a w)) = (mem_view e w)(a_id a \<mapsto> a)"
  using assms
  by (auto simp: mem_view_def mem_defs update_conv' account_id.print_inject)

lemma mem_inv_save:
  "mem_inv e w \<Longrightarrow> Account_ok a \<Longrightarrow> mem_inv e (snd (acc_Save (mem_account_port e) a w))"
  by (auto simp: mem_inv_iff mem_defs update_conv' distinct_update)

lemma mem_find_eq:
  "acc_FindByID (mem_account_port e) i w =
     (case mem_view e w i of None \<Rightarrow> Inl ErrAccountNotFound | Some a \<Rightarrow> Inr a, w)"
  by (simp add: mem_defs mem_view_def split: option.splits)

lemma mem_all_frame:
  "mem_view e (snd (acc_FindAll (mem_account_port e) w)) = mem_view e w"
  "mem_inv e (snd (acc_FindAll (mem_account_port e) w)) = mem_inv e w"
  by (simp_all add: mem_defs mem_view_def mem_inv_def)

lemma mem_view_ok: "mem_inv e w \<Longrightarrow> accounts_ok (mem_view e w)"
proof -
  assume inv: "mem_inv e w"
  let ?m = "map_of (mem_accounts (tw_accounts w))"
  have "finite (AccountID_String e -` dom ?m)"
    using inv by (intro finite_vimageI) (auto simp: finite_dom_map_of inj_def mem_inv_def account_id.print_inject)
  moreover have "dom (mem_view e w) = AccountID_String e -` dom ?m"
    by (auto simp: mem_view_def)
  moreover have "Account_ok a \<and> a_id a = i" if "mem_view e w i = Some a" for i a
    using inv that unfolding mem_inv_iff mem_view_def by (metis account_id.print_inject)
  ultimately show ?thesis
    using inv by (auto simp: accounts_ok_def)
qed

lemma mem_all_set:
  assumes inv: "mem_inv e w" and all: "acc_FindAll (mem_account_port e) w = (Inr xs, w')"
  shows "set xs = ran (mem_view e w)"
proof -
  let ?m = "map_of (mem_accounts (tw_accounts w))"
  from all have xs: "xs = List.map_filter ?m
      (map_order e (mem_acc_ranges (tw_accounts w)) (map fst (mem_accounts (tw_accounts w))))"
    by (simp add: mem_defs)
  have "set xs = {a. \<exists>k\<in>fst ` set (mem_accounts (tw_accounts w)). ?m k = Some a}"
    using inv by (simp add: xs set_map_filter_Some mem_inv_def map_range_set)
  also have "\<dots> = ran ?m"
    by (auto simp: ran_def dom_map_of_conv_image_fst [symmetric])
  also have "\<dots> = ran (mem_view e w)"
    using inv unfolding ran_def mem_view_def mem_inv_iff by blast
  finally show ?thesis .
qed

lemma mem_save_succeeds: "fst (acc_Save (mem_account_port e) a w) = Inr ()"
  by (simp add: mem_defs)

lemma mem_all_succeeds: "\<exists>xs. fst (acc_FindAll (mem_account_port e) w) = Inr xs"
  by (simp add: mem_defs)

interpretation mem_repo: reliable_repository "mem_account_port e" "mem_view e" "mem_inv e" "\<lambda>a. a" for e
proof unfold_locales
  fix w a u w'
  assume "mem_inv e w" "Account_ok a" "acc_Save (mem_account_port e) a w = (Inr u, w')"
  then show "mem_inv e w' \<and> mem_view e w' = (mem_view e w)(a_id a \<mapsto> a)"
    using mem_view_save [of e a w] mem_inv_save [of e w a] by (simp add: mem_inv_def)
next
  fix w :: test_world and xs w'
  assume "mem_inv e w" "acc_FindAll (mem_account_port e) w = (Inr xs, w')"
  then show "set xs = ran (mem_view e w)" by (rule mem_all_set)
next
  fix w a err w'
  assume "acc_Save (mem_account_port e) a w = (Inl err, w')"
  then show "mem_inv e w' \<and> mem_view e w' = mem_view e w"
    using mem_save_succeeds [of e a w] by simp
next
  fix w :: test_world and rs w'
  assume "mem_inv e w" "acc_FindAll (mem_account_port e) w = (rs, w')"
  then show "mem_inv e w' \<and> mem_view e w' = mem_view e w"
    using mem_all_frame [of e w] by simp
qed (auto simp: mem_find_eq mem_view_ok mem_save_succeeds mem_all_succeeds split: option.splits)

subsection \<open>Transactions\<close>

lemma touches_account_iff: "touches_account i xs \<longleftrightarrow> i \<in> e_accountID ` set xs"
  by (induction xs) auto

lemma collect_by_account_eq:
  "collect_by_account i ts = filter (\<lambda>t. i \<in> e_accountID ` set (tx_entries t)) ts"
  by (induction ts) (simp_all add: touches_account_iff Transaction_Entries_def)

lemma mem_tx_frame [simp]:
  "mem_view e (snd (on_transactions f w)) = mem_view e w"
  "mem_inv e (snd (on_transactions f w)) = mem_inv e w"
  by (simp_all add: on_transactions_def mem_view_def mem_inv_def split: prod.splits)

text \<open>A saved transaction is found again under its identifier, and saving it leaves the
  transactions stored under other identifiers as they were.\<close>

lemma mem_tx_save_find:
  assumes "uuid_codec e" and "mem_tx_Save e t r = (Inr (), r')"
  shows "fst (mem_tx_FindByID e i r') =
    (if i = tx_id t then Inr t else fst (mem_tx_FindByID e i r))"
  using assms
  by (auto simp: mem_tx_Save_def mem_tx_FindByID_def update_conv' transaction_id.print_inject
      split: option.splits if_splits)

lemma mem_tx_save_find_witness:
  "fst (mem_tx_FindByID sample_env (TransactionID 4)
     (snd (mem_tx_Save sample_env
        \<lparr>tx_id = TransactionID 4, tx_entries = [], tx_description = ''x'', tx_createdAt = 0\<rparr>
        NewTransactionRepository)))
   = Inr \<lparr>tx_id = TransactionID 4, tx_entries = [], tx_description = ''x'', tx_createdAt = 0\<rparr>"
  using mem_tx_save_find [OF sample_env_codec, of
      "\<lparr>tx_id = TransactionID 4, tx_entries = [], tx_description = ''x'', tx_createdAt = 0\<rparr>"
      NewTransactionRepository _ "TransactionID 4"]
  by (simp add: mem_tx_Save_def)

end
