(* ===== verification/Ledger_Correctness.thy ===== *)
theory Ledger_Correctness
  imports Ledger_Service Inmemory_Store
begin

section \<open>Correctness of the ledger service over its repositories\<close>

text \<open>
  When the ports do not fail (\<open>reliable_ledger\<close>), RecordTransaction succeeds exactly when the
  command is valid and every leg is allowed by the account it is posted to, with the balance that the
  legs before it leave (\<open>legs_allowed\<close>). The wiring of the unit
  tests, in-memory repositories and no event store, outbox or projector, is an instance; the
  properties of the service are stated for it.
\<close>

text \<open>What the code asks of the account of a leg.\<close>

definition leg_allowed :: "(AccountID \<rightharpoonup> Account) \<Rightarrow> EntryParams \<Rightarrow> bool" where
  "leg_allowed v p \<longleftrightarrow> (case v (ep_AccountID p) of None \<Rightarrow> False
     | Some a \<Rightarrow> ep_Type p \<in> {Debit, Credit} \<longrightarrow>
         a_status a = Active \<and> amount (ep_Amount p) \<noteq> 0 \<and> a_currency a = currency (ep_Amount p)
         \<and> (ep_Type p = Debit \<longrightarrow>
              0 \<le> sint (funds a - amount (ep_Amount p)) \<or> AllowsNegativeBalance a))"

text \<open>A leg posted to its account, and a list of legs of which each is allowed by its account with the
  balance that the legs before it leave.\<close>

definition post_leg :: "(AccountID \<rightharpoonup> Account) \<Rightarrow> EntryParams \<Rightarrow> AccountID \<rightharpoonup> Account" where
  "post_leg v p = (case v (ep_AccountID p) of None \<Rightarrow> v
     | Some a \<Rightarrow> v(ep_AccountID p \<mapsto> a\<lparr>a_balance := (a_balance a)\<lparr>amount := funds a + param_delta p\<rparr>\<rparr>))"

fun legs_allowed :: "(AccountID \<rightharpoonup> Account) \<Rightarrow> EntryParams list \<Rightarrow> bool" where
  "legs_allowed v [] = True"
| "legs_allowed v (p # ps) \<longleftrightarrow> leg_allowed v p \<and> legs_allowed (post_leg v p) ps"

text \<open>Readings of the clock have a JSON text (their year has at most four digits).\<close>

definition clock_ok :: "env \<Rightarrow> bool" where
  "clock_ok e \<longleftrightarrow> (\<forall>n. json_time e (clock e n) \<noteq> None)"

lemma Debit_not_Credit [simp]: "Debit \<noteq> Credit" "Credit \<noteq> Debit"
  by (simp_all add: Debit_def Credit_def)

lemma Account_Debit_refuses_iff:
  "Account_ok a \<Longrightarrow> isl (fst (Account_Debit e a m g)) \<longleftrightarrow>
     \<not> (a_status a = Active \<and> amount m \<noteq> 0 \<and> a_currency a = currency m
        \<and> (0 \<le> sint (funds a - amount m) \<or> AllowsNegativeBalance a))"
  by (simp add: Account_Debit_def Account_ok_def validateOperation_def Money_IsZero_def
      Money_Subtract_def funds_def time_Now_def not_le)

lemma Account_Credit_refuses_iff:
  "Account_ok a \<Longrightarrow> isl (fst (Account_Credit e a m g)) \<longleftrightarrow>
     \<not> (a_status a = Active \<and> amount m \<noteq> 0 \<and> a_currency a = currency m)"
  by (auto simp: Account_Credit_def Account_ok_def validateOperation_def Money_IsZero_def
      Money_Add_def time_Now_def)

lemma apply_leg_refuses_iff:
  assumes "Account_ok acc" and "v (e_accountID x) = Some acc"
  shows "isl (fst (apply_leg e x acc g)) \<longleftrightarrow> \<not> leg_allowed v (params_of x)"
  using assms
  by (simp add: leg_allowed_def params_of_def apply_leg_def Account_Debit_refuses_iff
      Account_Credit_refuses_iff)

lemma leg_allowed_cong:
  "v (ep_AccountID p) = v' (ep_AccountID p) \<Longrightarrow> leg_allowed v p = leg_allowed v' p"
  by (simp add: leg_allowed_def)

lemma leg_allowed_moved: "moved v (\<lambda>_. 0) v' \<Longrightarrow> leg_allowed v' p = leg_allowed v p"
  unfolding leg_allowed_def moved_def same_holder_def AllowsNegativeBalance_def
  by (auto split: option.splits)

lemma post_leg_moved: "leg_allowed v p \<Longrightarrow> moved v (posted [p]) (post_leg v p)"
  by (auto simp: post_leg_def leg_allowed_def moved_def same_holder_def funds_def split: option.splits)

text \<open>The times of the last update do not matter.\<close>

lemma legs_allowed_moved: "moved v (\<lambda>_. 0) v' \<Longrightarrow> legs_allowed v' ps = legs_allowed v ps"
proof (induction ps arbitrary: v v')
  case (Cons p ps)
  note p = leg_allowed_moved [OF Cons.prems, of p]
  show ?case
  proof (cases "leg_allowed v p")
    case True
    have "moved v (posted [p]) (post_leg v' p)"
      using moved_trans [OF Cons.prems post_leg_moved [of v' p]] p True by (simp del: posted_simps)
    from Cons.IH [OF moved_twice [OF post_leg_moved [OF True] this]] show ?thesis by (simp add: p)
  qed (simp add: p)
qed simp

text \<open>On pairwise different accounts the legs do not see each other.\<close>

lemma legs_allowed_distinct:
  "distinct (map ep_AccountID ps) \<Longrightarrow> legs_allowed v ps = list_all (leg_allowed v) ps"
proof (induction ps arbitrary: v)
  case (Cons p ps)
  have "leg_allowed (post_leg v p) q = leg_allowed v q" if "q \<in> set ps" for q
    using that Cons.prems
    by (intro leg_allowed_cong) (auto simp: post_leg_def rev_image_eqI split: option.split)
  then have "list_all (leg_allowed (post_leg v p)) ps = list_all (leg_allowed v) ps"
    by (simp add: list_all_iff)
  with Cons show ?case by simp
qed simp

lemma json_Marshal_clock:
  "clock_ok e \<Longrightarrow> DomainEvent_OccurredAt ev = clock e n \<Longrightarrow> \<exists>p. json_Marshal e ev = Inr p"
  by (cases ev; cases "json_time e (clock e n)") (simp_all add: clock_ok_def del: not_None_eq)

locale reliable_ledger = ledger_ports svc view invar stored +
    reliable_repository "ls_accounts svc" view invar stored
  for svc :: "'w LedgerService" and view :: "'w \<Rightarrow> AccountID \<rightharpoonup> Account"
    and invar :: "'w \<Rightarrow> bool" and stored :: "Account \<Rightarrow> Account" +
  assumes tx_total: "invar w \<Longrightarrow> fst (txr_Save (ls_transactions svc) t w) = Inr ()"
    and outbox_total: "invar w \<Longrightarrow> ls_outbox svc = Some ob \<Longrightarrow>
        fst (ob_AppendWithOutbox ob i ty n evs w) = Inr ()"
    and store_total: "invar w \<Longrightarrow> ls_eventStore svc = Some es \<Longrightarrow>
        fst (es_Append es i ty n evs w) = Inr ()"
begin

lemma append_total:
  assumes "invar w" "clock_ok e" "DomainEvent_OccurredAt ev = clock e k"
  obtains w' where "appendEvent e svc i ty n ev w = (Inr (), w')"
proof -
  obtain p where p: "json_Marshal e ev = Inr p" using json_Marshal_clock assms(2,3) by blast
  have "fst (appendEvent e svc i ty n ev w) = Inr ()"
    using p outbox_total [OF assms(1)] store_total [OF assms(1)]
    by (auto simp: appendEvent_def Let_def split: option.splits)
  with that show ?thesis by (metis prod.collapse)
qed

text \<open>One round, decided: the leg is allowed and the loop goes on, or it stops with an error.\<close>

text \<open>One entry whose account has been found: it is refused, or applied and saved.\<close>

lemma round_found:
  assumes "invar w" and find: "acc_FindByID (ls_accounts svc) (e_accountID x) w = (Inr acc, w1)"
  obtains (go) g1 w2 b where "leg_allowed (view w) (params_of x)"
      "update_balances e svc (x # xs) g w = update_balances e svc xs g1 w2" "invar w2"
      "view w2 = (view w)(e_accountID x \<mapsto> b)" "moved (view w) (posted [params_of x]) (view w2)"
  | (stop) err g1 w2 where "\<not> leg_allowed (view w) (params_of x)"
      "update_balances e svc (x # xs) g w = (Inl err, g1, w2)" "invar w2" "view w2 = view w"
proof -
  note w1 = find_frame [OF assms]
  have v: "view w (e_accountID x) = Some acc" using find_ok find assms(1) by blast
  then have ok: "Account_ok acc" using view_account assms(1) by blast
  note iff = apply_leg_refuses_iff [of acc "view w", OF ok v, of e g]
  obtain r2 g1 where leg: "apply_leg e x acc g = (r2, g1)" by fastforce
  show ?thesis
  proof (cases r2)
    case (Inl err)
    have "update_balances e svc (x # xs) g w = (Inl (Wrap (''apply '' @ EntryType_string (e_entryType x) @
        '' to account '' @ AccountID_String e (e_accountID x)) err), g1, w1)"
      by (simp add: find leg Inl)
    moreover have "\<not> leg_allowed (view w) (params_of x)" using iff leg Inl by auto
    ultimately show ?thesis using w1 stop by blast
  next
    case b: (Inr b)
    obtain w2 where save: "acc_Save (ls_accounts svc) b w1 = (Inr (), w2)"
      using save_total w1 by (metis prod.collapse)
    have "update_balances e svc (x # xs) g w = update_balances e svc xs g1 w2"
      by (simp add: find leg b save)
    moreover have "leg_allowed (view w) (params_of x)" using iff leg b by simp
    moreover have "leg_pending (view w1) x b"
      using leg_found(1) [OF assms leg [unfolded b]] w1 by simp
    from leg_saved [OF conjunct1 [OF w1] this save] w1 have "invar w2"
      "view w2 = (view w)(e_accountID x \<mapsto> stored b)" "moved (view w) (posted [params_of x]) (view w2)"
      by simp_all
    ultimately show ?thesis using go by blast
  qed
qed

lemma round_total:
  assumes "invar w"
  obtains (go) g1 w2 b where "leg_allowed (view w) (params_of x)"
      "update_balances e svc (x # xs) g w = update_balances e svc xs g1 w2" "invar w2"
      "view w2 = (view w)(e_accountID x \<mapsto> b)" "moved (view w) (posted [params_of x]) (view w2)"
  | (stop) err g1 w2 where "\<not> leg_allowed (view w) (params_of x)"
      "update_balances e svc (x # xs) g w = (Inl err, g1, w2)" "invar w2" "view w2 = view w"
proof -
  obtain r1 w1 where find: "acc_FindByID (ls_accounts svc) (e_accountID x) w = (r1, w1)" by fastforce
  note w1 = find_frame [OF assms find]
  show ?thesis
  proof (cases r1)
    case (Inl err)
    then have "view w (e_accountID x) = None"
      using find find_total [OF assms] by (cases "view w (e_accountID x)") fastforce+
    then show ?thesis using find Inl w1 by (intro stop [of _ g w1]) (auto simp: leg_allowed_def params_of_def)
  next
    case (Inr acc)
    from round_found [OF assms find [unfolded Inr] go stop] show ?thesis .
  qed
qed

lemma update_balances_iff:
  assumes "invar w"
  shows "fst (update_balances e svc xs g w) = Inr () \<longleftrightarrow> legs_allowed (view w) (map params_of xs)"
  using assms
proof (induction xs arbitrary: g w)
  case Nil
  then show ?case by simp
next
  case (Cons x xs)
  from Cons.prems show ?case
  proof (cases rule: round_total [of w x e xs g])
    case (go g1 w2 b)
    have "legs_allowed (view w2) (map params_of xs) =
        legs_allowed (post_leg (view w) (params_of x)) (map params_of xs)"
      by (rule legs_allowed_moved [OF moved_twice [OF post_leg_moved [OF go(1)] go(5)]])
    with go(1,2) Cons.IH [OF go(3)] show ?thesis by (simp del: update_balances.simps)
  next
    case stop
    then show ?thesis by simp
  qed
qed

lemma record_succeeds:
  assumes "invar w" "clock_ok e"
  shows "(\<exists>t g' w'. RecordTransaction e svc cmd g w = (Inr t, g', w')) \<longleftrightarrow>
    cmd_ok cmd \<and> legs_allowed (view w) (cmd_legs cmd)"
proof (cases "cmd_ok cmd")
  case False
  then show ?thesis using record_rejected [of cmd e svc g w] by auto
next
  case ok: True
  obtain tx g1 where tx: "cmd_params 0 (rc_Entries cmd) = Inr (cmd_legs cmd)"
    "NewTransaction e (cmd_legs cmd) (rc_Description cmd) g = (Inr tx, g1)"
    "map params_of (tx_entries tx) = cmd_legs cmd"
    using cmd_accepted [OF ok] by metis
  obtain r1 g2 w1 where upd: "update_balances e svc (Transaction_Entries tx) g1 w = (r1, g2, w1)"
    by (metis prod_cases3)
  have iff: "r1 = Inr () \<longleftrightarrow> legs_allowed (view w) (cmd_legs cmd)"
    using update_balances_iff [OF assms(1), of e "tx_entries tx" g1] upd tx(3)
    by (simp add: Transaction_Entries_def)
  note run = RecordTransaction_def [of e svc cmd g w, unfolded tx(1,2) upd sum.case prod.case]
  show ?thesis
  proof (cases r1)
    case (Inl err)
    then show ?thesis using iff run by auto
  next
    case (Inr u)
    have inv1: "invar w1" using update_balances_spec [OF assms(1) upd] by simp
    obtain w2 where save: "txr_Save (ls_transactions svc) tx w1 = (Inr (), w2)"
      using tx_total [OF inv1] by (metis prod.collapse)
    have inv2: "invar w2" using tx_frame [OF inv1 save] by simp
    let ?ev = "\<lparr>tr_ID = '''', tr_TransactionID = TransactionID_String e (tx_id tx),
      tr_Entries = map (entry_data e) (Transaction_Entries tx), tr_Description = rc_Description cmd,
      tr_Timestamp = clock e (ticks g2)\<rparr>"
    obtain w3 where "appendEvent e svc (TransactionID_String e (tx_id tx)) ''transaction'' 0
        (TransactionRecorded ?ev) w2 = (Inr (), w3)"
      by (rule append_total [OF inv2 assms(2), of "TransactionRecorded ?ev" "ticks g2"]) simp_all
    with run Inr save iff ok show ?thesis by (auto simp: time_Now_def Let_def split: option.split)
  qed
qed

lemma record_iff:
  assumes "invar w" "clock_ok e" and "distinct (map ep_AccountID (cmd_legs cmd))"
  shows "(\<exists>t g' w'. RecordTransaction e svc cmd g w = (Inr t, g', w')) \<longleftrightarrow>
    cmd_ok cmd \<and> list_all (leg_allowed (view w)) (cmd_legs cmd)"
  using record_succeeds [OF assms(1,2)] legs_allowed_distinct [OF assms(3)] by simp

end

text \<open>Where exactly a valid command stops: at the first leg that is not allowed, with the legs before it
  posted.\<close>

context reliable_ledger
begin

lemma open_succeeds:
  assumes "invar w" "clock_ok e" "oc_Name cmd \<noteq> ''''" "validCurrencies (oc_Currency cmd)"
    and "view w (AccountID (uuid_seq e (drawn g))) = None"
  shows "\<exists>acc g' w'. OpenAccount e svc cmd g w = (Inr acc, g', w')"
proof -
  obtain acc g1 where new: "NewAccountWithType e (oc_Name cmd) (accType_of (oc_AccountType cmd))
      (oc_Currency cmd) g = (Inr acc, g1)"
    using assms(3,4) by (simp only: NewAccountWithType_Inr_iff) blast
  note a = new [unfolded NewAccountWithType_Inr_iff]
  then have ok: "Account_ok acc" and fresh: "keeps_identity acc (view w (a_id acc))"
    using assms(5) by (auto simp: Account_ok_def keeps_identity_def)
  obtain w1 where save: "acc_Save (ls_accounts svc) acc w = (Inr (), w1)"
    using save_total [OF assms(1)] by (metis prod.collapse)
  note w1 = save_ok [OF assms(1) ok fresh save]
  let ?ev = "\<lparr>ao_ID = '''', ao_AccountID = AccountID_String e (a_id acc), ao_Name = a_name acc,
    ao_AccountType = AccountType_string (accType_of (oc_AccountType cmd)),
    ao_Currency = Currency_string (a_currency acc), ao_Timestamp = clock e (ticks g1)\<rparr>"
  obtain w2 where "appendEvent e svc (AccountID_String e (a_id acc)) ''account'' 0 (AccountOpened ?ev) w1
      = (Inr (), w2)"
    by (rule append_total [OF conjunct1 [OF w1] assms(2), of "AccountOpened ?ev" "ticks g1"]) simp_all
  then show ?thesis
    by (simp add: OpenAccount_def Let_def new save time_Now_def split: option.split)
qed

lemma update_balances_stops:
  assumes "invar w" and "distinct (map e_accountID (ys @ x # zs))"
    and "list_all (leg_allowed (view w)) (map params_of ys)" and "\<not> leg_allowed (view w) (params_of x)"
  shows "\<exists>err g' w'. update_balances e svc (ys @ x # zs) g w = (Inl err, g', w') \<and> invar w'
    \<and> moved (view w) (posted (map params_of ys)) (view w')"
  using assms
proof (induction ys arbitrary: g w)
  case Nil
  from Nil.prems(1) show ?case
    by (cases rule: round_total [of w x e zs g]) (use Nil.prems in \<open>auto intro: movedI simp del: update_balances.simps\<close>)
next
  case (Cons y ys)
  from Cons.prems(1) show ?case
  proof (cases rule: round_total [of w y e "ys @ x # zs" g])
    case (go g1 w2 b)
    have same: "leg_allowed (view w2) (params_of z) = leg_allowed (view w) (params_of z)"
      if "z \<in> set (ys @ x # zs)" for z
      using that Cons.prems(2) by (intro leg_allowed_cong) (auto simp: go(4) params_of_def rev_image_eqI)
    have "list_all (leg_allowed (view w2)) (map params_of ys)" "\<not> leg_allowed (view w2) (params_of x)"
      using same Cons.prems(3,4) by (simp_all add: list_all_iff)
    with Cons.IH [OF go(3), of g1] Cons.prems(2) obtain err g' w' where
      run: "update_balances e svc (ys @ x # zs) g1 w2 = (Inl err, g', w')" "invar w'"
      "moved (view w2) (posted (map params_of ys)) (view w')" by auto
    have "moved (view w) (posted (map params_of (y # ys))) (view w')"
      using moved_append [OF go(5) run(3)] by (simp del: posted_simps)
    with go(2) run show ?thesis by (simp del: update_balances.simps posted_simps)
  next
    case stop
    then show ?thesis using Cons.prems(3) by simp
  qed
qed

lemma record_stops:
  assumes "invar w" and "cmd_ok cmd" and "distinct (map ep_AccountID (cmd_legs cmd))"
    and "cmd_legs cmd = ps @ p # qs" "list_all (leg_allowed (view w)) ps" "\<not> leg_allowed (view w) p"
  shows "\<exists>err g' w'. RecordTransaction e svc cmd g w = (Inl err, g', w') \<and> invar w'
    \<and> moved (view w) (posted ps) (view w')"
proof -
  obtain tx g1 where tx: "cmd_params 0 (rc_Entries cmd) = Inr (cmd_legs cmd)"
    "NewTransaction e (cmd_legs cmd) (rc_Description cmd) g = (Inr tx, g1)"
    "map params_of (tx_entries tx) = cmd_legs cmd"
    using cmd_accepted [OF assms(2)] by metis
  from tx(3) assms(4) obtain ys x zs where
    xs: "tx_entries tx = ys @ x # zs" "map params_of ys = ps" "params_of x = p"
    by (auto simp: map_eq_append_conv Cons_eq_map_conv)
  have "map e_accountID (tx_entries tx) = map ep_AccountID (cmd_legs cmd)"
    unfolding tx(3) [symmetric] by (simp add: params_of_def)
  then have "distinct (map e_accountID (ys @ x # zs))" using assms(3) by (simp only: xs(1))
  from update_balances_stops [OF assms(1) this, of e g1] assms(5,6) xs(2,3) obtain err g' w' where
    "update_balances e svc (ys @ x # zs) g1 w = (Inl err, g', w')" "invar w'"
    "moved (view w) (posted ps) (view w')" by auto
  then show ?thesis by (simp add: RecordTransaction_def tx Transaction_Entries_def xs(1))
qed

end

subsection \<open>The wiring of the unit tests\<close>

definition test_service :: "env \<Rightarrow> test_world LedgerService" where
  "test_service e = NewLedgerService (mem_account_port e) (mem_transaction_port e) None None None"

interpretation test_ledger: reliable_ledger "test_service e" "mem_view e" "mem_inv e" "\<lambda>a. a" for e
proof -
  have ports: "ls_accounts (test_service e) = mem_account_port e"
    "ls_transactions (test_service e) = mem_transaction_port e" "ls_eventStore (test_service e) = None"
    "ls_outbox (test_service e) = None" "ls_projector (test_service e) = None"
    by (simp_all add: test_service_def NewLedgerService_def)
  have save: "txr_Save (mem_transaction_port e) t = on_transactions (mem_tx_Save e t)" for t
    by (simp add: mem_transaction_port_def)
  have tx: "mem_inv e w' \<and> mem_view e w' = mem_view e w"
    if "mem_inv e w" "txr_Save (mem_transaction_port e) t w = (r, w')" for w t r w'
    using that mem_tx_frame [of e "mem_tx_Save e t" w] by (simp add: save)
  have tot: "fst (txr_Save (mem_transaction_port e) t w) = Inr ()" for t w
    by (simp add: mem_defs)
  show "reliable_ledger (test_service e) (mem_view e) (mem_inv e) (\<lambda>a. a)"
    using mem_repo.account_repository_axioms [of e] mem_repo.reliable_repository_axioms [of e] tx tot
    by (intro reliable_ledger.intro ledger_ports.intro ledger_ports_axioms.intro
        reliable_ledger_axioms.intro) (simp_all add: ports)
qed

subsection \<open>A concrete store for the witnesses\<close>

text \<open>Two USD accounts: an asset account with identifier 7 and an equity account with identifier 8
  that holds its counterpart.\<close>

definition sample_equity :: "int64 \<Rightarrow> Account" where
  "sample_equity n = (sample_account Equity n Active)\<lparr>a_id := AccountID 8, a_name := ''Owner''\<rparr>"

definition sample_world :: test_world where
  "sample_world =
     \<lparr>tw_accounts = \<lparr>mem_accounts = [(decimal 7, sample_account Asset 100 Active),
                                     (decimal 8, sample_equity (-100))],
                     mem_acc_ranges = 0\<rparr>,
      tw_transactions = NewTransactionRepository\<rparr>"

definition sample_cmd :: "int64 \<Rightarrow> uuid \<Rightarrow> RecordTransactionCmd" where
  "sample_cmd n dst =
     \<lparr>rc_Entries = [\<lparr>ec_AccountID = AccountID 7, ec_Amount = n, ec_Currency = USD, ec_Type = Debit\<rparr>,
                    \<lparr>ec_AccountID = AccountID dst, ec_Amount = n, ec_Currency = USD, ec_Type = Credit\<rparr>],
      rc_Description = ''payment''\<rparr>"

lemma sample_world_inv: "mem_inv sample_env sample_world"
  by (simp add: mem_inv_def sample_world_def sample_equity_def sample_account_def Account_ok_def
      AccountID_String_def)

lemma sample_world_view:
  "mem_view sample_env sample_world (AccountID 7) = Some (sample_account Asset 100 Active)"
  "mem_view sample_env sample_world (AccountID 8) = Some (sample_equity (-100))"
  by (simp_all add: mem_view_def sample_world_def AccountID_String_def)

lemma sample_clock: "clock_ok sample_env"
  by (simp add: clock_ok_def sample_env_def)

lemma sample_record:
  "\<exists>t g' w'. RecordTransaction sample_env (test_service sample_env) (sample_cmd 40 8) sample_gen sample_world
     = (Inr t, g', w')"
proof -
  have "cmd_ok (sample_cmd 40 8)" "distinct (map ep_AccountID (cmd_legs (sample_cmd 40 8)))"
    by (simp_all add: cmd_ok_def params_ok_def cmd_legs_def sample_cmd_def)
  moreover have "list_all (leg_allowed (mem_view sample_env sample_world)) (cmd_legs (sample_cmd 40 8))"
    by (simp add: leg_allowed_def cmd_legs_def sample_cmd_def sample_world_view funds_def
        sample_account_def sample_equity_def AllowsNegativeBalance_def)
  ultimately show ?thesis
    using test_ledger.record_iff [OF sample_world_inv sample_clock] by blast
qed

subsection \<open>Properties\<close>

text \<open>C3. With repositories that answer and clock readings that have a JSON text, RecordTransaction
  succeeds exactly when the command is valid (at least two entries, nonzero amounts, one supported
  currency, debits equal to credits) and each entry, in the order of the command, is allowed by its
  account with the balance that the entries before it leave. Several entries may be on one account.\<close>

theorem RecordTransaction_succeeds_iff:
  assumes "mem_inv e w" "clock_ok e"
  shows "(\<exists>t g' w'. RecordTransaction e (test_service e) cmd g w = (Inr t, g', w')) \<longleftrightarrow>
    cmd_ok cmd \<and> legs_allowed (mem_view e w) (cmd_legs cmd)"
  using assms by (rule test_ledger.record_succeeds)

text \<open>Two debits of one account.\<close>

definition sample_split :: "int64 \<Rightarrow> RecordTransactionCmd" where
  "sample_split n =
     \<lparr>rc_Entries = [\<lparr>ec_AccountID = AccountID 7, ec_Amount = n, ec_Currency = USD, ec_Type = Debit\<rparr>,
                    \<lparr>ec_AccountID = AccountID 7, ec_Amount = n, ec_Currency = USD, ec_Type = Debit\<rparr>,
                    \<lparr>ec_AccountID = AccountID 8, ec_Amount = 2 * n, ec_Currency = USD, ec_Type = Credit\<rparr>],
      rc_Description = ''split''\<rparr>"

theorem RecordTransaction_succeeds_iff_witness:
  "(\<exists>t g' w'. RecordTransaction sample_env (test_service sample_env) (sample_cmd 40 8) sample_gen sample_world
      = (Inr t, g', w'))
   \<and> (\<exists>t g' w'. RecordTransaction sample_env (test_service sample_env) (sample_split 50) sample_gen sample_world
      = (Inr t, g', w'))
   \<and> \<not> (\<exists>t g' w'. RecordTransaction sample_env (test_service sample_env) (sample_split 60) sample_gen
          sample_world = (Inr t, g', w'))"
proof -
  note iff = RecordTransaction_succeeds_iff [OF sample_world_inv sample_clock, where g = sample_gen]
  have "cmd_ok (sample_cmd 40 8)" "cmd_ok (sample_split 50)"
    by (simp_all add: cmd_ok_def params_ok_def cmd_legs_def sample_cmd_def sample_split_def)
  moreover have "legs_allowed (mem_view sample_env sample_world) (cmd_legs (sample_cmd 40 8))"
    "legs_allowed (mem_view sample_env sample_world) (cmd_legs (sample_split 50))"
    "\<not> legs_allowed (mem_view sample_env sample_world) (cmd_legs (sample_split 60))"
    by (simp_all add: leg_allowed_def cmd_legs_def sample_cmd_def sample_split_def sample_world_view funds_def
        post_leg_def param_delta_def signed_leg_def sample_account_def sample_equity_def
        AllowsNegativeBalance_def)
  ultimately show ?thesis by (simp only: iff simp_thms)
qed

text \<open>C2. A recorded transaction has the entries of the command. The balance of every account changes by
  exactly the sum of the entries on it (credits minus debits); of an account with an entry only the
  balance and the time of the last update change, an account without an entry is exactly as it was,
  and no account appears or disappears.\<close>

theorem RecordTransaction_posts_legs:
  assumes "mem_inv e w" and "RecordTransaction e (test_service e) cmd g w = (Inr t, g', w')"
  shows "mem_inv e w' \<and> map params_of (tx_entries t) = cmd_legs cmd
    \<and> dom (mem_view e w') = dom (mem_view e w)
    \<and> (\<forall>i a b. mem_view e w i = Some a \<and> mem_view e w' i = Some b \<longrightarrow>
         funds b = funds a + posted (cmd_legs cmd) i \<and> b = a\<lparr>a_balance := a_balance b, a_updatedAt := a_updatedAt b\<rparr>)
    \<and> (\<forall>i. i \<notin> ep_AccountID ` set (cmd_legs cmd) \<longrightarrow> mem_view e w' i = mem_view e w i)"
proof -
  from test_ledger.record_outcome [OF assms] have out: "mem_inv e w'" "map params_of (tx_entries t) = cmd_legs cmd"
    and mv: "moved (mem_view e w) (posted (cmd_legs cmd)) (mem_view e w')" by auto
  have "b = a\<lparr>a_balance := a_balance b, a_updatedAt := a_updatedAt b\<rparr>" if "same_holder b a" for a b :: Account
    using that by (cases a; cases b) (simp add: same_holder_def)
  with out mv test_ledger.record_untouched [OF assms] show ?thesis by (auto simp: moved_def)
qed

theorem RecordTransaction_posts_legs_witness:
  "\<exists>t g' w' b. RecordTransaction sample_env (test_service sample_env) (sample_cmd 40 8) sample_gen sample_world
      = (Inr t, g', w')
    \<and> mem_view sample_env w' (AccountID 7) = Some b \<and> funds b = 60"
proof -
  obtain t g' w' where run: "RecordTransaction sample_env (test_service sample_env) (sample_cmd 40 8)
      sample_gen sample_world = (Inr t, g', w')"
    using sample_record by blast
  note posts = RecordTransaction_posts_legs [OF sample_world_inv run]
  then have "AccountID 7 \<in> dom (mem_view sample_env w')" using sample_world_view(1) by blast
  then obtain b where b: "mem_view sample_env w' (AccountID 7) = Some b" by blast
  with posts sample_world_view(1)
  have "funds b = funds (sample_account Asset 100 Active) + posted (cmd_legs (sample_cmd 40 8)) (AccountID 7)"
    by blast
  with run b show ?thesis
    by (simp add: funds_def sample_account_def cmd_legs_def sample_cmd_def param_delta_def signed_leg_def)
qed

text \<open>A recorded transaction leaves the sum of all balances of each currency as it was (as an int64
  sum, which is the arithmetic of the program).\<close>

lemma RecordTransaction_conserves:
  assumes "mem_inv e w" and "RecordTransaction e (test_service e) cmd g w = (Inr t, g', w')"
  shows "total_funds (mem_view e w') c = total_funds (mem_view e w) c"
  using assms by (rule test_ledger.record_conserves)

lemma RecordTransaction_conserves_witness:
  "\<exists>t g' w'. RecordTransaction sample_env (test_service sample_env) (sample_cmd 40 8) sample_gen sample_world
      = (Inr t, g', w')
    \<and> total_funds (mem_view sample_env w') USD = total_funds (mem_view sample_env sample_world) USD"
proof -
  obtain t g' w' where run: "RecordTransaction sample_env (test_service sample_env) (sample_cmd 40 8)
      sample_gen sample_world = (Inr t, g', w')"
    using sample_record by blast
  from RecordTransaction_conserves [OF sample_world_inv run] run show ?thesis by blast
qed

text \<open>C4. When RecordTransaction returns an error, an invalid command has changed nothing, and a valid
  one has posted exactly a prefix of its entries: the balances updated before the failure stay
  updated.\<close>

theorem RecordTransaction_error_posts_prefix:
  assumes "mem_inv e w" and "RecordTransaction e (test_service e) cmd g w = (Inl err, g', w')"
  shows "mem_inv e w' \<and> (\<not> cmd_ok cmd \<longrightarrow> w' = w \<and> g' = g)
    \<and> (\<exists>k\<le>length (cmd_legs cmd).
         moved (mem_view e w) (posted (take k (cmd_legs cmd))) (mem_view e w'))"
proof -
  have "w' = w \<and> g' = g" if "\<not> cmd_ok cmd"
    using record_rejected [OF that, of e "test_service e" g w] assms(2) by auto
  with test_ledger.record_outcome [OF assms] show ?thesis by blast
qed

theorem RecordTransaction_error_posts_prefix_witness:
  "(\<exists>err. RecordTransaction sample_env (test_service sample_env) (sample_cmd 0 8) sample_gen sample_world
      = (Inl err, sample_gen, sample_world))
   \<and> (case RecordTransaction sample_env (test_service sample_env) (sample_cmd 40 9) sample_gen sample_world of
       (r, g', w') \<Rightarrow> isl r
         \<and> (\<exists>k\<le>2. moved (mem_view sample_env sample_world)
              (posted (take k (cmd_legs (sample_cmd 40 9)))) (mem_view sample_env w')))"
proof -
  have bad: "\<not> cmd_ok (sample_cmd 0 8)"
    by (simp add: cmd_ok_def params_ok_def cmd_legs_def sample_cmd_def)
  obtain err g' w' where run: "RecordTransaction sample_env (test_service sample_env) (sample_cmd 0 8)
      sample_gen sample_world = (Inl err, g', w')"
    using record_rejected [OF bad] by metis
  have "isl (fst (RecordTransaction sample_env (test_service sample_env) (sample_cmd 40 9) sample_gen sample_world))"
    by code_simp
  then obtain err2 g2 w2 where run2: "RecordTransaction sample_env (test_service sample_env) (sample_cmd 40 9)
      sample_gen sample_world = (Inl err2, g2, w2)"
    by (metis isl_def prod.collapse)
  have "length (cmd_legs (sample_cmd 40 9)) = 2" by (simp add: sample_cmd_def)
  with RecordTransaction_error_posts_prefix [OF sample_world_inv run2]
    RecordTransaction_error_posts_prefix [OF sample_world_inv run] bad run
  show ?thesis by (simp only: run2) auto
qed

text \<open>RecordTransaction is not atomic: a debit of account 7 and a credit of an account that does not
  exist returns an error, and account 7 has lost the money.\<close>

lemma RecordTransaction_not_atomic:
  "case RecordTransaction sample_env (test_service sample_env) (sample_cmd 40 9) sample_gen sample_world of
     (r, g', w') \<Rightarrow> isl r
       \<and> fst (GetBalance (test_service sample_env) (AccountID 7) sample_world)
           = Inr \<lparr>amount = 100, currency = USD\<rparr>
       \<and> fst (GetBalance (test_service sample_env) (AccountID 7) w') = Inr \<lparr>amount = 60, currency = USD\<rparr>"
  by code_simp

text \<open>C20. A deposit that returns no error, on an account that is not itself named as the system equity
  account of the currency and whose identifier is not the one that is generated next: the account
  exists, is in the currency, and holds exactly the amount more; another account, with the name of the
  system equity account, holds exactly the amount less (it is opened on the way, as an equity account,
  when there was none); every other account is exactly as it was, and the totals of all currencies
  stay as they were.\<close>

theorem Deposit_double_entry:
  assumes "mem_inv e w" and "ids_drawn e g (mem_view e w)" and "uuid_unique e N" "drawn g < N"
    and "Deposit e (test_service e) i n c d g w = (Inr u, g', w')"
    and "i \<noteq> AccountID (uuid_seq e (drawn g))"
    and "\<And>a. mem_view e w i = Some a \<Longrightarrow> a_name a \<noteq> equity_name c"
  shows "mem_inv e w' \<and> total_funds (mem_view e w') cc = total_funds (mem_view e w) cc
    \<and> (\<exists>a a' eq b. mem_view e w i = Some a \<and> a_currency a = c
         \<and> mem_view e w' i = Some a' \<and> same_holder a' a \<and> funds a' = funds a + n
         \<and> eq \<noteq> i \<and> mem_view e w' eq = Some b \<and> a_name b = equity_name c \<and> a_currency b = c
         \<and> (case mem_view e w eq of None \<Rightarrow> a_accountType b = Equity \<and> funds b = - n
            | Some x \<Rightarrow> same_holder b x \<and> funds b = funds x - n)
         \<and> (\<forall>k. k \<noteq> i \<and> k \<noteq> eq \<longrightarrow> mem_view e w' k = mem_view e w k))"
  using test_ledger.deposit_run(1,3) [OF assms(1-5)] test_ledger.deposit_posts [OF assms]
  unfolding deposited_def by blast

text \<open>A store with one account whose identifier is the first one that the generator gave out.\<close>

definition first_world :: test_world where
  "first_world =
     \<lparr>tw_accounts = \<lparr>mem_accounts = [(decimal 1, (sample_account Asset 100 Active)\<lparr>a_id := AccountID 1\<rparr>)],
                     mem_acc_ranges = 0\<rparr>,
      tw_transactions = NewTransactionRepository\<rparr>"

definition first_gen :: gen where
  "first_gen = \<lparr>ticks = 0, drawn = 1\<rparr>"

lemma first_world_ready:
  "mem_inv sample_env first_world" "ids_drawn sample_env first_gen (mem_view sample_env first_world)"
  "drawn first_gen < 1000"
proof -
  show "mem_inv sample_env first_world"
    by (simp add: mem_inv_def first_world_def sample_account_def Account_ok_def AccountID_String_def)
  have "i = AccountID 1" if "i \<in> dom (mem_view sample_env first_world)" for i
    using that account_id.print_inject [of sample_env i "AccountID 1"]
    by (auto simp: mem_view_def first_world_def AccountID_String_def split: if_splits)
  then show "ids_drawn sample_env first_gen (mem_view sample_env first_world)"
    by (auto simp: ids_drawn_def first_gen_def)
  show "drawn first_gen < 1000" by (simp add: first_gen_def)
qed

lemma first_world_view:
  "mem_view sample_env first_world (AccountID 1) = Some ((sample_account Asset 100 Active)\<lparr>a_id := AccountID 1\<rparr>)"
  by (simp add: mem_view_def first_world_def AccountID_String_def)

theorem Deposit_double_entry_witness:
  "case Deposit sample_env (test_service sample_env) (AccountID 1) 25 USD ''top-up''
      first_gen first_world of
     (r, g', w') \<Rightarrow> r = Inr () \<and> mem_inv sample_env w'
       \<and> (\<exists>a' eq b. mem_view sample_env w' (AccountID 1) = Some a' \<and> funds a' = 125
           \<and> eq \<noteq> AccountID 1 \<and> mem_view sample_env w' eq = Some b \<and> a_name b = equity_name USD)"
proof -
  obtain r g' w' where run: "Deposit sample_env (test_service sample_env) (AccountID 1) 25 USD ''top-up''
      first_gen first_world = (r, g', w')" by (metis prod_cases3)
  have "fst (Deposit sample_env (test_service sample_env) (AccountID 1) 25 USD ''top-up''
      first_gen first_world) = Inr ()"
    by code_simp
  then have ok: "r = Inr ()" by (simp add: run)
  have fresh: "AccountID 1 \<noteq> AccountID (uuid_seq sample_env (drawn first_gen))"
    by (simp add: sample_env_def first_gen_def)
  have other: "a_name a \<noteq> equity_name USD" if "mem_view sample_env first_world (AccountID 1) = Some a" for a
    using that by (auto simp: first_world_view sample_account_def equity_name_def)
  from Deposit_double_entry [where cc = USD, OF first_world_ready(1,2) sample_env_unique first_world_ready(3)
      run [unfolded ok] fresh other] ok
  show ?thesis by (auto simp: run first_world_view funds_def sample_account_def)
qed

end
