(* ===== verification/Transfer_Saga.thy ===== *)
theory Transfer_Saga
  imports Ledger_Money Ledger_Identifiers
begin

section \<open>Transfer saga (internal/domain/transfer/transfer.go)\<close>

text \<open>
  The saga aggregate of a transfer: its state, the reason of a failure and the log of steps.
  Two of its transitions are guarded and return an error, two are not. Every transition
  stamps \<^verbatim>\<open>updatedAt\<close> and then appends a log step with a second reading of the clock.
\<close>

datatype SagaState = SagaState (SagaState_string: string)

definition Initiated :: SagaState where
  "Initiated = SagaState ''INITIATED''"

definition Debited :: SagaState where
  "Debited = SagaState ''DEBITED''"

definition Completed :: SagaState where
  "Completed = SagaState ''COMPLETED''"

definition Failed :: SagaState where
  "Failed = SagaState ''FAILED''"

definition Compensated :: SagaState where
  "Compensated = SagaState ''COMPENSATED''"

record SagaStep =
  ss_Action :: string
  ss_State :: SagaState
  ss_Detail :: string
  ss_Timestamp :: time

record Transfer =
  t_id :: string
  t_fromAccount :: AccountID
  t_toAccount :: AccountID
  t_amount :: Money
  t_description :: string
  t_state :: SagaState
  t_failReason :: string
  t_steps :: "SagaStep list"
  t_createdAt :: time
  t_updatedAt :: time

definition addStep :: "env \<Rightarrow> string \<Rightarrow> SagaState \<Rightarrow> string \<Rightarrow> Transfer \<Rightarrow> gen \<Rightarrow> Transfer \<times> gen" where
  "addStep e action st detail t g =
     (let (now, g1) = time_Now e g
      in (t\<lparr>t_steps := t_steps t @
             [\<lparr>ss_Action = action, ss_State = st, ss_Detail = detail, ss_Timestamp = now\<rparr>]\<rparr>, g1))"

definition NewTransfer ::
  "env \<Rightarrow> AccountID \<Rightarrow> AccountID \<Rightarrow> Money \<Rightarrow> string \<Rightarrow> gen \<Rightarrow> (error + Transfer) \<times> gen" where
  "NewTransfer e src dst m description g =
     (if AccountID_Equals src dst then (Inl ErrSameAccount, g)
      else
        let (now, g1) = time_Now e g;
            (u, g2) = uuid_NewV7 e g1;
            t = \<lparr>t_id = uuid_String e u, t_fromAccount = src, t_toAccount = dst, t_amount = m,
                 t_description = description, t_state = Initiated, t_failReason = '''',
                 t_steps = [], t_createdAt = now, t_updatedAt = now\<rparr>;
            (t', g3) = addStep e ''transfer.initiated'' Initiated ''Transfer created'' t g2
        in (Inr t', g3))"

definition MarkDebited :: "env \<Rightarrow> Transfer \<Rightarrow> gen \<Rightarrow> error option \<times> Transfer \<times> gen" where
  "MarkDebited e t g =
     (if t_state t \<noteq> Initiated then (Some ErrInvalidTransition, t, g)
      else
        let (now, g1) = time_Now e g
        in (None, addStep e ''source.debited'' Debited ''Source account debited''
              (t\<lparr>t_state := Debited, t_updatedAt := now\<rparr>) g1))"

definition MarkCompleted :: "env \<Rightarrow> Transfer \<Rightarrow> gen \<Rightarrow> error option \<times> Transfer \<times> gen" where
  "MarkCompleted e t g =
     (if t_state t \<noteq> Debited then (Some ErrInvalidTransition, t, g)
      else
        let (now, g1) = time_Now e g
        in (None, addStep e ''destination.credited'' Completed ''Transfer completed successfully''
              (t\<lparr>t_state := Completed, t_updatedAt := now\<rparr>) g1))"

definition MarkFailed :: "env \<Rightarrow> string \<Rightarrow> Transfer \<Rightarrow> gen \<Rightarrow> Transfer \<times> gen" where
  "MarkFailed e reason t g =
     (let (now, g1) = time_Now e g
      in addStep e ''transfer.failed'' Failed reason
           (t\<lparr>t_state := Failed, t_failReason := reason, t_updatedAt := now\<rparr>) g1)"

definition MarkCompensated :: "env \<Rightarrow> Transfer \<Rightarrow> gen \<Rightarrow> Transfer \<times> gen" where
  "MarkCompensated e t g =
     (let (now, g1) = time_Now e g
      in addStep e ''debit.reversed'' Compensated ''Compensating transaction applied''
           (t\<lparr>t_state := Compensated, t_updatedAt := now\<rparr>) g1)"

subsection \<open>Step relation\<close>

inductive saga_step :: "env \<Rightarrow> Transfer \<Rightarrow> Transfer \<Rightarrow> bool" for e where
  debited: "MarkDebited e t g = (None, t', g') \<Longrightarrow> saga_step e t t'"
| completed: "MarkCompleted e t g = (None, t', g') \<Longrightarrow> saga_step e t t'"
| failed: "MarkFailed e reason t g = (t', g') \<Longrightarrow> saga_step e t t'"
| compensated: "MarkCompensated e t g = (t', g') \<Longrightarrow> saga_step e t t'"

inductive saga_reach :: "env \<Rightarrow> Transfer \<Rightarrow> bool" for e where
  created: "NewTransfer e src dst m d g = (Inr t, g') \<Longrightarrow> saga_reach e t"
| step: "saga_reach e t \<Longrightarrow> saga_step e t t' \<Longrightarrow> saga_reach e t'"

text \<open>The trail of states a saga went through, as its log shows them.\<close>

definition trail :: "Transfer \<Rightarrow> SagaState list" where
  "trail t = map ss_State (t_steps t)"

text \<open>Which state may follow which in the log: the guarded transitions have one predecessor.\<close>

definition may_follow :: "SagaState \<Rightarrow> SagaState \<Rightarrow> bool" where
  "may_follow s s' \<longleftrightarrow>
     (s' = Debited \<longrightarrow> s = Initiated) \<and> (s' = Completed \<longrightarrow> s = Debited) \<and> s' \<noteq> Initiated"

definition saga_ok :: "Transfer \<Rightarrow> bool" where
  "saga_ok t \<longleftrightarrow> t_fromAccount t \<noteq> t_toAccount t
     \<and> trail t \<noteq> [] \<and> hd (trail t) = Initiated \<and> last (trail t) = t_state t
     \<and> (\<forall>k. Suc k < length (trail t) \<longrightarrow> may_follow (trail t ! k) (trail t ! Suc k))"

lemmas saga_state_defs = Initiated_def Debited_def Completed_def Failed_def Compensated_def
lemmas mark_defs = MarkDebited_def MarkCompleted_def MarkFailed_def MarkCompensated_def
  addStep_def time_Now_def uuid_NewV7_def

inductive_cases saga_step_from: "saga_step e t t'"

subsection \<open>Lemmas\<close>

lemma saga_states_distinct [simp]:
  "distinct [Initiated, Debited, Completed, Failed, Compensated]"
  by (simp add: saga_state_defs)

lemma saga_states_neq [simp]:
  "Initiated \<noteq> Debited" "Debited \<noteq> Initiated" "Initiated \<noteq> Completed" "Completed \<noteq> Initiated"
  "Initiated \<noteq> Failed" "Failed \<noteq> Initiated" "Initiated \<noteq> Compensated" "Compensated \<noteq> Initiated"
  "Debited \<noteq> Completed" "Completed \<noteq> Debited" "Debited \<noteq> Failed" "Failed \<noteq> Debited"
  "Debited \<noteq> Compensated" "Compensated \<noteq> Debited" "Completed \<noteq> Failed" "Failed \<noteq> Completed"
  "Completed \<noteq> Compensated" "Compensated \<noteq> Completed" "Failed \<noteq> Compensated"
  "Compensated \<noteq> Failed"
  by (simp_all add: saga_state_defs)

lemma NewTransfer_InrD:
  assumes "NewTransfer e src dst m d g = (Inr t, g')"
  shows "src \<noteq> dst" "t_fromAccount t = src" "t_toAccount t = dst" "t_amount t = m"
    "t_state t = Initiated" "trail t = [Initiated]" "t_failReason t = ''''"
  using assms by (auto simp: NewTransfer_def mark_defs trail_def Let_def split: if_splits)

lemma NewTransfer_total:
  "src \<noteq> dst \<Longrightarrow> \<exists>t g'. NewTransfer e src dst m d g = (Inr t, g')"
  by (simp add: NewTransfer_def split: prod.splits)

lemma mark_simps:
  "t_state t = Initiated \<Longrightarrow> \<exists>t' g'. MarkDebited e t g = (None, t', g') \<and> t_state t' = Debited
     \<and> trail t' = trail t @ [Debited] \<and> t_amount t' = t_amount t"
  "t_state t = Debited \<Longrightarrow> \<exists>t' g'. MarkCompleted e t g = (None, t', g') \<and> t_state t' = Completed
     \<and> trail t' = trail t @ [Completed] \<and> t_amount t' = t_amount t"
  by (simp_all add: mark_defs trail_def)

lemma mark_state:
  "MarkFailed e reason t g = (t', g') \<Longrightarrow> t_state t' = Failed"
  "MarkCompensated e t g = (t', g') \<Longrightarrow> t_state t' = Compensated"
  by (auto simp: mark_defs)

lemma saga_stepD:
  assumes "saga_step e t t'"
  shows "trail t' = trail t @ [t_state t']" "may_follow (t_state t) (t_state t')"
    "t_fromAccount t' = t_fromAccount t" "t_toAccount t' = t_toAccount t" "t_id t' = t_id t"
    "t_amount t' = t_amount t"
  using assms
  by (auto elim!: saga_step_from simp: mark_defs trail_def may_follow_def split: if_splits)

lemma saga_ok_step:
  assumes "saga_ok t" and "saga_step e t t'"
  shows "saga_ok t'"
proof -
  note st = saga_stepD [OF assms(2)]
  have "may_follow (trail t' ! k) (trail t' ! Suc k)" if k: "Suc k < length (trail t')" for k
  proof (cases "Suc k < length (trail t)")
    case True
    with assms(1) st(1) show ?thesis by (simp add: saga_ok_def nth_append)
  next
    case False
    with k st(1) have len: "length (trail t) = Suc k" by simp
    then have "trail t \<noteq> []" by auto
    with len have "trail t' ! Suc k = t_state t'" "trail t' ! k = last (trail t)"
      using st(1) by (simp_all add: nth_append last_conv_nth)
    with assms(1) st(2) show ?thesis by (simp add: saga_ok_def)
  qed
  with assms(1) st show ?thesis by (auto simp: saga_ok_def)
qed

lemma saga_reach_ok: "saga_reach e t \<Longrightarrow> saga_ok t"
proof (induction rule: saga_reach.induct)
  case (created src dst m d g t g')
  from NewTransfer_InrD [OF this] show ?case by (simp add: saga_ok_def)
next
  case (step t t')
  then show ?case by (blast intro: saga_ok_step)
qed

lemma trail_position:
  assumes "saga_ok t"
  shows "k < length (trail t) \<Longrightarrow> trail t ! k = Initiated \<Longrightarrow> k = 0"
    and "k < length (trail t) \<Longrightarrow> trail t ! k = Debited \<Longrightarrow> k = 1"
    and "k < length (trail t) \<Longrightarrow> trail t ! k = Completed \<Longrightarrow> k = 2"
proof -
  have hd0: "trail t ! 0 = Initiated"
    using assms by (metis hd_conv_nth saga_ok_def)
  have prev: "may_follow (trail t ! j) (trail t ! Suc j)" if "Suc j < length (trail t)" for j
    using assms that by (simp add: saga_ok_def)
  show init: "k < length (trail t) \<Longrightarrow> trail t ! k = Initiated \<Longrightarrow> k = 0" for k
    using prev by (cases k) (auto simp: may_follow_def)
  show deb: "k < length (trail t) \<Longrightarrow> trail t ! k = Debited \<Longrightarrow> k = 1" for k
    using prev init hd0 by (cases k) (force simp: may_follow_def)+
  show "k < length (trail t) \<Longrightarrow> trail t ! k = Completed \<Longrightarrow> k = 2"
    using prev deb hd0 by (cases k) (force simp: may_follow_def)+
qed

lemma saga_reach_completed: "\<exists>t. saga_reach e t \<and> t_state t = Completed"
proof -
  obtain t0 g0 where t0: "NewTransfer e (AccountID 1) (AccountID 2) m d sample_gen = (Inr t0, g0)"
    using NewTransfer_total [of "AccountID 1" "AccountID 2"] by fastforce
  with NewTransfer_InrD(5) mark_simps(1) obtain t1 g1
    where t1: "MarkDebited e t0 g0 = (None, t1, g1)" "t_state t1 = Debited" by blast
  then obtain t2 g2 where t2: "MarkCompleted e t1 g1 = (None, t2, g2)" "t_state t2 = Completed"
    using mark_simps(2) by blast
  have "saga_reach e t2"
    using t0 t1(1) t2(1) by (blast intro: saga_reach.intros saga_step.intros)
  with t2(2) show ?thesis by blast
qed

subsection \<open>Properties\<close>

text \<open>C36. In every saga the transitions can produce, the log starts with INITIATED, ends with the
  current state, the two accounts differ, and each logged DEBITED or COMPLETED directly
  follows the state its guard asks for.\<close>

theorem saga_log_invariant:
  assumes "saga_reach e t"
  shows "saga_ok t"
  using assms by (rule saga_reach_ok)

theorem saga_log_invariant_witness:
  "\<exists>t. fst (NewTransfer sample_env (AccountID 1) (AccountID 2) \<lparr>amount = 5, currency = USD\<rparr>
      ''rent'' sample_gen) = Inr t \<and> saga_ok t"
proof -
  obtain t g' where t: "NewTransfer sample_env (AccountID 1) (AccountID 2)
      \<lparr>amount = 5, currency = USD\<rparr> ''rent'' sample_gen = (Inr t, g')"
    using NewTransfer_total [of "AccountID 1" "AccountID 2"] by fastforce
  then have "saga_reach sample_env t" by (rule saga_reach.created)
  from saga_log_invariant [OF this] t show ?thesis by auto
qed

text \<open>A saga that was ever completed went INITIATED, DEBITED, COMPLETED as its first three
  steps: completion is never reached from a failed or compensated saga.\<close>

lemma completed_only_after_debit:
  assumes "saga_reach e t" and "Completed \<in> set (trail t)"
  shows "take 3 (trail t) = [Initiated, Debited, Completed]"
proof -
  note ok = saga_reach_ok [OF assms(1)]
  from assms(2) obtain k where k: "k < length (trail t)" "trail t ! k = Completed"
    by (auto simp: in_set_conv_nth)
  with trail_position(3) [OF ok] have k2: "k = 2" by blast
  have prev: "may_follow (trail t ! j) (trail t ! Suc j)" if "Suc j < length (trail t)" for j
    using ok that by (simp add: saga_ok_def)
  from prev [of 1] k k2 have d: "trail t ! 1 = Debited" by (simp add: may_follow_def numeral_2_eq_2)
  from prev [of 0] k k2 d have i: "trail t ! 0 = Initiated" by (simp add: may_follow_def)
  from k k2 have "3 \<le> length (trail t)" by simp
  then have "take 3 (trail t) = [trail t ! 0, trail t ! 1, trail t ! 2]" by (rule take_3)
  with i d k k2 show ?thesis by simp
qed

lemma completed_only_after_debit_witness:
  "\<exists>t. saga_reach sample_env t \<and> t_state t = Completed
     \<and> take 3 (trail t) = [Initiated, Debited, Completed]"
proof -
  from saga_reach_completed obtain t where t: "saga_reach sample_env t" "t_state t = Completed"
    by blast
  then have "Completed \<in> set (trail t)"
    using saga_reach_ok [OF t(1)] by (metis last_in_set saga_ok_def)
  from completed_only_after_debit [OF t(1) this] t show ?thesis by blast
qed

text \<open>MarkCompensated and MarkFailed have no guard: a completed saga can be marked failed or
  compensated, although the comments describe FAILED as the only state before COMPENSATED.\<close>

lemma completed_can_be_compensated:
  "\<exists>t. saga_reach e t \<and> t_state t = Completed
     \<and> t_state (fst (MarkCompensated e t g)) = Compensated
     \<and> t_state (fst (MarkFailed e reason t g)) = Failed"
  using saga_reach_completed [of e] by (auto simp: mark_defs)

end
