(* ===== verification/Transfer_Service.thy ===== *)
theory Transfer_Service
  imports Ledger_Correctness Transfer_Saga
begin

section \<open>Transfer service (internal/app/transfer_service.go)\<close>

text \<open>
  The orchestrator of the transfer saga: it moves the money through a suspense account in two
  recorded transactions and, when the second one fails, records a third one that is meant to
  reverse the first. Execute returns the saga, which is nil on the first two error paths, and
  the error. The suspense account is looked up, or opened, again before each transaction.
\<close>

record TransferCmd =
  tc_FromAccountID :: AccountID
  tc_ToAccountID :: AccountID
  tc_Amount :: int64
  tc_Currency :: Currency
  tc_Description :: string

record 'w TransferService =
  ts_ledgerSvc :: "'w LedgerService"

definition NewTransferService :: "'w LedgerService \<Rightarrow> 'w TransferService" where
  "NewTransferService ledgerSvc = \<lparr>ts_ledgerSvc = ledgerSvc\<rparr>"

text \<open>The command literal that all three transactions of the saga use: debit one account, credit
  another, with the amount and currency of the transfer.\<close>

definition two_legs :: "TransferCmd \<Rightarrow> AccountID \<Rightarrow> AccountID \<Rightarrow> string \<Rightarrow> RecordTransactionCmd" where
  "two_legs cmd debited credited d =
     \<lparr>rc_Entries =
        [\<lparr>ec_AccountID = debited, ec_Amount = tc_Amount cmd, ec_Currency = tc_Currency cmd,
          ec_Type = Debit\<rparr>,
         \<lparr>ec_AccountID = credited, ec_Amount = tc_Amount cmd, ec_Currency = tc_Currency cmd,
          ec_Type = Credit\<rparr>],
      rc_Description = d\<rparr>"

text \<open>The branch taken when the second transaction fails with \<open>err\<close>.\<close>

definition compensate ::
  "env \<Rightarrow> 'w LedgerService \<Rightarrow> TransferCmd \<Rightarrow> error \<Rightarrow> Transfer \<Rightarrow> gen \<Rightarrow> 'w \<Rightarrow>
   (Transfer option \<times> error option) \<times> gen \<times> 'w" where
  "compensate e s cmd err saga g w =
     (let (saga1, g1) = MarkFailed e (''credit failed: '' @ error_Error err) saga g;
          (susp, g2, w1) = suspenseAccountID e s (tc_Currency cmd) g1 w
      in case RecordTransaction e s
                (two_legs cmd susp (tc_FromAccountID cmd)
                   (''Compensation: reverse debit for failed transfer: '' @ tc_Description cmd)) g2 w1 of
           (Inl compErr, g3, w2) \<Rightarrow>
             ((Some saga1, Some (ErrText
                 (''CRITICAL: compensation failed after credit failure: credit_err='' @ error_Error err @
                  '', comp_err='' @ error_Error compErr))), g3, w2)
         | (Inr _, g3, w2) \<Rightarrow>
             let (saga2, g4) = MarkCompensated e saga1 g3
             in ((Some saga2, Some (Wrap ''transfer failed and compensated'' err)), g4, w2))"

definition Execute ::
  "env \<Rightarrow> 'w TransferService \<Rightarrow> TransferCmd \<Rightarrow> gen \<Rightarrow> 'w \<Rightarrow>
   (Transfer option \<times> error option) \<times> gen \<times> 'w" where
  "Execute e ts cmd g w =
     (let s = ts_ledgerSvc ts in
      case NewMoney (tc_Amount cmd) (tc_Currency cmd) of
        Inl err \<Rightarrow> ((None, Some (Wrap ''invalid amount'' err)), g, w)
      | Inr money \<Rightarrow>
          (case NewTransfer e (tc_FromAccountID cmd) (tc_ToAccountID cmd) money (tc_Description cmd) g of
             (Inl err, g1) \<Rightarrow> ((None, Some (Wrap ''create transfer'' err)), g1, w)
           | (Inr saga, g1) \<Rightarrow>
               let (susp, g2, w1) = suspenseAccountID e s (tc_Currency cmd) g1 w
               in case RecordTransaction e s
                         (two_legs cmd (tc_FromAccountID cmd) susp
                            (''Transfer out: '' @ tc_Description cmd)) g2 w1 of
                    (Inl err, g3, w2) \<Rightarrow>
                      let (saga1, g4) = MarkFailed e (''debit failed: '' @ error_Error err) saga g3
                      in ((Some saga1, Some (Wrap ''saga step 1 (debit source)'' err)), g4, w2)
                  | (Inr _, g3, w2) \<Rightarrow>
                      (case MarkDebited e saga g3 of
                         (Some err, saga1, g4) \<Rightarrow> ((Some saga1, Some err), g4, w2)
                       | (None, saga1, g4) \<Rightarrow>
                           let (susp2, g5, w3) = suspenseAccountID e s (tc_Currency cmd) g4 w2
                           in case RecordTransaction e s
                                     (two_legs cmd susp2 (tc_ToAccountID cmd)
                                        (''Transfer in: '' @ tc_Description cmd)) g5 w3 of
                                (Inl err, g6, w4) \<Rightarrow> compensate e s cmd err saga1 g6 w4
                              | (Inr _, g6, w4) \<Rightarrow>
                                  (case MarkCompleted e saga1 g6 of
                                     (Some err, saga2, g7) \<Rightarrow> ((Some saga2, Some err), g7, w4)
                                   | (None, saga2, g7) \<Rightarrow> ((Some saga2, None), g7, w4)))))"

subsection \<open>Lemmas without ports\<close>

lemma compensate_error: "compensate e s cmd err saga g w = ((ro, eo), g', w') \<Longrightarrow> eo \<noteq> None"
  by (auto simp: compensate_def Let_def split: prod.splits sum.splits)

lemma Execute_invalid:
  "\<not> validCurrencies (tc_Currency cmd) \<Longrightarrow>
     Execute e ts cmd g w = ((None, Some (Wrap ''invalid amount'' ErrInvalidCurrency)), g, w)"
  by (simp add: Execute_def Let_def NewMoney_def)

lemma Execute_same_account:
  "validCurrencies (tc_Currency cmd) \<Longrightarrow> tc_FromAccountID cmd = tc_ToAccountID cmd \<Longrightarrow>
     Execute e ts cmd g w = ((None, Some (Wrap ''create transfer'' ErrSameAccount)), g, w)"
  by (simp add: Execute_def Let_def NewMoney_def NewTransfer_def)

text \<open>The calls of a transfer that returned no error.\<close>

lemma Execute_successD:
  assumes "Execute e ts cmd g w = ((ro, None), g', w')"
  obtains saga0 saga1 saga2 g1 g2 g3 g4 g5 g6 i1 i2 w1 w2 w3 t1 t2 d1 d2 m where
    "NewTransfer e (tc_FromAccountID cmd) (tc_ToAccountID cmd) m (tc_Description cmd) g = (Inr saga0, g1)"
    "suspenseAccountID e (ts_ledgerSvc ts) (tc_Currency cmd) g1 w = (i1, g2, w1)"
    "RecordTransaction e (ts_ledgerSvc ts) (two_legs cmd (tc_FromAccountID cmd) i1 d1) g2 w1 = (Inr t1, g3, w2)"
    "MarkDebited e saga0 g3 = (None, saga1, g4)"
    "suspenseAccountID e (ts_ledgerSvc ts) (tc_Currency cmd) g4 w2 = (i2, g5, w3)"
    "RecordTransaction e (ts_ledgerSvc ts) (two_legs cmd i2 (tc_ToAccountID cmd) d2) g5 w3 = (Inr t2, g6, w')"
    "MarkCompleted e saga1 g6 = (None, saga2, g')" "ro = Some saga2"
  using assms
  by (auto simp: Execute_def Let_def dest: compensate_error
      split: prod.splits sum.splits option.splits)

lemma saga_drawn:
  "NewTransfer e src dst m d g = (r, g') \<Longrightarrow> drawn g \<le> drawn g'"
  "MarkDebited e t g = (eo, t', g') \<Longrightarrow> drawn g' = drawn g"
  "MarkCompleted e t g = (eo, t', g') \<Longrightarrow> drawn g' = drawn g"
  "MarkFailed e reason t g = (t', g') \<Longrightarrow> drawn g' = drawn g"
  "MarkCompensated e t g = (t', g') \<Longrightarrow> drawn g' = drawn g"
  by (auto simp: NewTransfer_def mark_defs Let_def split: if_splits)

lemma Execute_drawn: "Execute e ts cmd g w = ((ro, None), g', w') \<Longrightarrow> drawn g \<le> drawn g'"
  by (erule Execute_successD) (auto dest!: saga_drawn suspense_drawn record_drawn)

subsection \<open>The saga that Execute returns\<close>

lemma compensate_saga:
  assumes "compensate e s cmd err saga g w = ((ro, eo), g', w')" and "saga_reach e saga"
  shows "\<exists>saga'. ro = Some saga' \<and> eo \<noteq> None \<and> saga_reach e saga'
    \<and> t_state saga' \<in> {Failed, Compensated}"
proof -
  obtain saga1 g1 where mf: "MarkFailed e (''credit failed: '' @ error_Error err) saga g = (saga1, g1)"
    by fastforce
  have reach1: "saga_reach e saga1" using assms(2) mf by (blast intro: saga_reach.step saga_step.failed)
  have "t_state saga1 = Failed" using mf by (rule mark_state)
  moreover have "saga_reach e saga2 \<and> t_state saga2 = Compensated"
    if "MarkCompensated e saga1 g3 = (saga2, g4)" for saga2 g3 g4
    using reach1 that by (blast intro: saga_reach.step saga_step.compensated mark_state)
  ultimately show ?thesis
    using assms(1) mf reach1 by (auto simp: compensate_def Let_def split: prod.splits sum.splits)
qed

lemma Execute_saga:
  assumes "Execute e ts cmd g w = ((ro, eo), g', w')"
  shows "case ro of
      None \<Rightarrow> eo \<noteq> None \<and> w' = w \<and> g' = g
    | Some saga \<Rightarrow> saga_reach e saga \<and> t_state saga \<in> {Completed, Failed, Compensated}
        \<and> (eo = None \<longleftrightarrow> t_state saga = Completed)"
proof (cases "validCurrencies (tc_Currency cmd) \<and> tc_FromAccountID cmd \<noteq> tc_ToAccountID cmd")
  case False
  then show ?thesis
    using assms Execute_invalid [of cmd e ts g w] Execute_same_account [of cmd e ts g w]
    by (cases "validCurrencies (tc_Currency cmd)") auto
next
  case True
  let ?m = "\<lparr>amount = tc_Amount cmd, currency = tc_Currency cmd\<rparr>"
  obtain saga g1 where nt: "NewTransfer e (tc_FromAccountID cmd) (tc_ToAccountID cmd) ?m (tc_Description cmd) g
      = (Inr saga, g1)" using NewTransfer_total True by blast
  have reach: "saga_reach e saga" using nt by (rule saga_reach.created)
  have failed: "saga_reach e saga1 \<and> t_state saga1 = Failed" if "MarkFailed e r saga g3 = (saga1, g4)"
    for r g3 saga1 g4
    using reach that by (blast intro: saga_reach.step saga_step.failed mark_state)
  have debited: "eo1 = None \<and> saga_reach e saga1 \<and> t_state saga1 = Debited"
    if "MarkDebited e saga g3 = (eo1, saga1, g4)" for g3 eo1 saga1 g4
    using reach that NewTransfer_InrD(5) [OF nt] mark_simps(1) [of saga e g3]
    by (auto intro: saga_reach.step saga_step.debited)
  have completed: "eo2 = None \<and> saga_reach e saga2 \<and> t_state saga2 = Completed"
    if "MarkCompleted e saga1 g3 = (eo2, saga2, g4)" "saga_reach e saga1" "t_state saga1 = Debited"
    for g3 eo2 saga1 saga2 g4
    using that mark_simps(2) [of saga1 e g3] by (auto intro: saga_reach.step saga_step.completed)
  show ?thesis
    using assms True nt
    by (auto simp: Execute_def Let_def NewMoney_def
        split: prod.splits sum.splits option.splits
        dest!: failed debited completed compensate_saga)
qed

subsection \<open>Runs of the services\<close>

text \<open>Sequences of calls: accounts are opened (also with an error), balances read, invalid
  transactions refused, and transactions, deposits and transfers carried out.\<close>

inductive ledger_run :: "env \<Rightarrow> 'w LedgerService \<Rightarrow> gen \<Rightarrow> 'w \<Rightarrow> gen \<Rightarrow> 'w \<Rightarrow> bool" for e s g0 w0 where
  start: "ledger_run e s g0 w0 g0 w0"
| opened: "ledger_run e s g0 w0 g w \<Longrightarrow> OpenAccount e s ocmd g w = (ra, g', w') \<Longrightarrow>
     ledger_run e s g0 w0 g' w'"
| recorded: "ledger_run e s g0 w0 g w \<Longrightarrow> RecordTransaction e s rcmd g w = (Inr t, g', w') \<Longrightarrow>
     ledger_run e s g0 w0 g' w'"
| refused: "ledger_run e s g0 w0 g w \<Longrightarrow> \<not> cmd_ok rcmd \<Longrightarrow>
     RecordTransaction e s rcmd g w = (rt, g', w') \<Longrightarrow> ledger_run e s g0 w0 g' w'"
| deposited: "ledger_run e s g0 w0 g w \<Longrightarrow> Deposit e s i n c d g w = (Inr u, g', w') \<Longrightarrow>
     ledger_run e s g0 w0 g' w'"
| transferred: "ledger_run e s g0 w0 g w \<Longrightarrow>
     Execute e (NewTransferService s) tcmd g w = ((ro, None), g', w') \<Longrightarrow> ledger_run e s g0 w0 g' w'"
| read: "ledger_run e s g0 w0 g w \<Longrightarrow> GetBalance s i w = (rm, w') \<Longrightarrow> ledger_run e s g0 w0 g w'"

text \<open>What opening an account, recording a transaction and reading keep, a run of the services keeps.\<close>

locale kept_by_runs = ledger_ports svc view invar stored
  for svc :: "'w LedgerService" and view :: "'w \<Rightarrow> AccountID \<rightharpoonup> Account"
    and invar :: "'w \<Rightarrow> bool" and stored :: "Account \<Rightarrow> Account" +
  fixes e :: env and P :: "'w \<Rightarrow> bool"
  assumes open_kept: "invar w \<Longrightarrow> view w (AccountID (uuid_seq e (drawn g))) = None \<Longrightarrow> P w \<Longrightarrow>
      OpenAccount e svc ocmd g w = (ra, g', w') \<Longrightarrow> P w'"
    and record_kept: "invar w \<Longrightarrow> P w \<Longrightarrow> RecordTransaction e svc rcmd g w = (Inr t, g', w') \<Longrightarrow> P w'"
    and all_kept: "invar w \<Longrightarrow> P w \<Longrightarrow> acc_FindAll (ls_accounts svc) w = (rs, w') \<Longrightarrow> P w'"
    and find_kept: "invar w \<Longrightarrow> P w \<Longrightarrow> acc_FindByID (ls_accounts svc) i w = (rf, w') \<Longrightarrow> P w'"
begin

definition good :: "gen \<Rightarrow> 'w \<Rightarrow> bool" where
  "good g w \<longleftrightarrow> invar w \<and> ids_drawn e g (view w) \<and> P w"

lemma good_mono: "good g w \<Longrightarrow> drawn g \<le> drawn g' \<Longrightarrow> good g' w"
  using ids_drawn_mono by (auto simp: good_def)

lemma good_open:
  assumes "good g w" "uuid_unique e N" "drawn g < N" "OpenAccount e svc ocmd g w = (ra, g', w')"
  shows "good g' w'"
proof -
  have w: "invar w" "ids_drawn e g (view w)" "P w" using assms(1) by (simp_all add: good_def)
  note fresh = ids_drawn_fresh [OF w(2) assms(2,3)]
  from open_outcome [OF w(1) fresh assms(4)] open_opened(2) [OF w(1,2) assms(2,3,4)] open_kept [OF w(1) fresh w(3) assms(4)]
  show ?thesis by (simp add: good_def)
qed

lemma good_record:
  assumes "good g w" "RecordTransaction e svc rcmd g w = (Inr t, g', w')"
  shows "good g' w'"
proof -
  have w: "invar w" "ids_drawn e g (view w)" "P w" using assms(1) by (simp_all add: good_def)
  from record_outcome [OF w(1) assms(2)] record_ids [OF w(1,2) assms(2)] record_kept [OF w(1,3) assms(2)]
  show ?thesis by (simp add: good_def)
qed

lemma good_system:
  assumes "good g w" "uuid_unique e N" "drawn g < N" "getOrCreateSystemAccount e svc name ty c g w = (r, g', w')"
  shows "good g' w'"
proof -
  obtain rs w1 where all: "acc_FindAll (ls_accounts svc) w = (rs, w1)" by fastforce
  have "good g w1" using assms(1) all_frame [OF _ all] all_kept [OF _ _ all] by (auto simp: good_def)
  with assms(4) good_open [OF this assms(2,3)] show ?thesis
    by (auto simp: getOrCreateSystemAccount_def all split: sum.splits option.splits)
qed

lemma good_suspense:
  "good g w \<Longrightarrow> uuid_unique e N \<Longrightarrow> drawn g < N \<Longrightarrow> suspenseAccountID e svc c g w = (i, g', w') \<Longrightarrow> good g' w'"
  by (auto simp: suspenseAccountID_def dest: good_system split: prod.splits sum.splits)

lemma good_deposit:
  assumes "good g w" "uuid_unique e N" "drawn g < N" "Deposit e svc i n c d g w = (Inr u, g', w')"
  shows "good g' w'"
proof -
  from assms(4) obtain acc g1 w1 t rcmd where
    "getOrCreateSystemAccount e svc (equity_name c) ''EQUITY'' c g w = (Inr acc, g1, w1)"
    and rec: "RecordTransaction e svc rcmd g1 w1 = (Inr t, g', w')"
    by (auto simp: Deposit_def getOrCreateSystemEquity_def split: prod.splits sum.splits)
  from good_record [OF good_system [OF assms(1-3) this(1)] rec] show ?thesis .
qed

lemma good_execute:
  assumes "good g w" "uuid_unique e N" "drawn g' < N" "Execute e (NewTransferService svc) cmd g w = ((ro, None), g', w')"
  shows "good g' w'"
proof -
  from assms(4) obtain saga0 saga1 saga2 g1 g2 g3 g4 g5 g6 i1 i2 w1 w2 w3 t1 t2 d1 d2 m where
    nt: "NewTransfer e (tc_FromAccountID cmd) (tc_ToAccountID cmd) m (tc_Description cmd) g = (Inr saga0, g1)"
    and s1: "suspenseAccountID e svc (tc_Currency cmd) g1 w = (i1, g2, w1)"
    and r1: "RecordTransaction e svc (two_legs cmd (tc_FromAccountID cmd) i1 d1) g2 w1 = (Inr t1, g3, w2)"
    and md: "MarkDebited e saga0 g3 = (None, saga1, g4)"
    and s2: "suspenseAccountID e svc (tc_Currency cmd) g4 w2 = (i2, g5, w3)"
    and r2: "RecordTransaction e svc (two_legs cmd i2 (tc_ToAccountID cmd) d2) g5 w3 = (Inr t2, g6, w')"
    and mc: "MarkCompleted e saga1 g6 = (None, saga2, g')"
    by (rule Execute_successD) (simp add: NewTransferService_def)
  note mono = saga_drawn(1) [OF nt] suspense_drawn [OF s1] record_drawn [OF r1] saga_drawn(2) [OF md]
    suspense_drawn [OF s2] record_drawn [OF r2] saga_drawn(3) [OF mc]
  have n1: "drawn g1 < N" and n4: "drawn g4 < N" using mono assms(3) by simp_all
  have "good g4 w2"
    using good_mono [OF good_record [OF good_suspense [OF good_mono [OF assms(1) mono(1)] assms(2) n1 s1] r1]] mono(4) by simp
  then show ?thesis
    using good_mono [OF good_record [OF good_suspense [OF _ assms(2) n4 s2] r2]] mono(7) by simp
qed

lemma run_kept:
  assumes "ledger_run e svc g0 w0 g w" and "invar w0" "ids_drawn e g0 (view w0)" "P w0"
    and "uuid_unique e N" "drawn g < N"
  shows "invar w \<and> ids_drawn e g (view w) \<and> P w"
proof -
  have "good g w" using assms(1,6)
  proof (induction rule: ledger_run.induct)
    case start
    then show ?case using assms(2-4) by (simp add: good_def)
  next
    case (opened g w ocmd ra g' w')
    with open_drawn [OF opened.hyps(2)] good_open [OF _ assms(5) _ opened.hyps(2)] show ?case by simp
  next
    case (recorded g w rcmd t g' w')
    with record_drawn [OF recorded.hyps(2)] good_record [OF _ recorded.hyps(2)] show ?case by simp
  next
    case (refused g w rcmd rt g' w')
    with record_rejected [OF refused.hyps(2), of e svc g w] show ?case by auto
  next
    case (deposited g w i n c' d u g' w')
    with deposit_drawn [OF deposited.hyps(2)] good_deposit [OF _ assms(5) _ deposited.hyps(2)] show ?case by simp
  next
    case (transferred g w tcmd ro g' w')
    with Execute_drawn [OF transferred.hyps(2)] good_execute [OF _ assms(5) _ transferred.hyps(2)] show ?case by simp
  next
    case (read g w i rm w')
    obtain rf where find: "acc_FindByID (ls_accounts svc) i w = (rf, w')"
      using read.hyps(2) by (auto simp: GetBalance_def split: prod.splits sum.splits)
    with read find_frame [OF _ find] find_kept [OF _ _ find] show ?case by (auto simp: good_def)
  qed
  then show ?thesis by (simp add: good_def)
qed

end

text \<open>The total of a currency is such a property.\<close>

sublocale ledger_ports \<subseteq> totals: kept_by_runs svc view invar stored e "\<lambda>w. total_funds (view w) c = t" for e c t
proof
  show "total_funds (view w') c = t"
    if "invar w" "view w (AccountID (uuid_seq e (drawn g))) = None" "total_funds (view w) c = t"
      "OpenAccount e svc ocmd g w = (ra, g', w')" for w g ocmd ra g' w'
    using open_view_opened [OF that(1,2,4)] total_opened view_finite [OF that(1)] that(3) by metis
qed (use record_conserves all_frame find_frame in metis)+

subsection \<open>Transfers over reliable ports\<close>

text \<open>The account the service finds when it looks for a system account by name, and what it needs to
  be usable as the suspense account of a currency.\<close>

definition sole_named :: "(AccountID \<rightharpoonup> Account) \<Rightarrow> string \<Rightarrow> AccountID \<Rightarrow> bool" where
  "sole_named v name i \<longleftrightarrow> (\<exists>a. v i = Some a \<and> a_name a = name)
     \<and> (\<forall>j a. v j = Some a \<and> a_name a = name \<longrightarrow> j = i)"

definition suspense_usable :: "(AccountID \<rightharpoonup> Account) \<Rightarrow> Currency \<Rightarrow> AccountID \<Rightarrow> bool" where
  "suspense_usable v c i \<longleftrightarrow> sole_named v (suspense_name c) i
     \<and> (\<exists>a. v i = Some a \<and> a_status a = Active \<and> a_currency a = c \<and> a_accountType a = Liability)"

text \<open>What the two ends of a transfer need: the source covers the amount, the destination can be
  credited, and neither carries the name of the suspense account.\<close>

definition can_pay :: "(AccountID \<rightharpoonup> Account) \<Rightarrow> TransferCmd \<Rightarrow> bool" where
  "can_pay v cmd \<longleftrightarrow> (\<exists>a. v (tc_FromAccountID cmd) = Some a \<and> a_status a = Active
     \<and> a_currency a = tc_Currency cmd \<and> a_name a \<noteq> suspense_name (tc_Currency cmd)
     \<and> (0 \<le> sint (funds a - tc_Amount cmd) \<or> AllowsNegativeBalance a))"

definition can_receive :: "(AccountID \<rightharpoonup> Account) \<Rightarrow> TransferCmd \<Rightarrow> bool" where
  "can_receive v cmd \<longleftrightarrow> (\<exists>a. v (tc_ToAccountID cmd) = Some a \<and> a_status a = Active
     \<and> a_currency a = tc_Currency cmd \<and> a_name a \<noteq> suspense_name (tc_Currency cmd))"

definition transfer_ok :: "TransferCmd \<Rightarrow> bool" where
  "transfer_ok cmd \<longleftrightarrow> tc_FromAccountID cmd \<noteq> tc_ToAccountID cmd \<and> tc_Amount cmd \<noteq> 0
     \<and> validCurrencies (tc_Currency cmd)"

lemma sole_named_iff:
  "sole_named v name i \<longleftrightarrow> (\<exists>a. v i = Some a \<and> a_name a = name)
     \<and> (\<forall>j. (\<exists>a. v j = Some a \<and> a_name a = name) \<longrightarrow> j = i)"
  by (auto simp: sole_named_def)

lemma sole_named_moved:
  assumes "moved v d v'"
  shows "sole_named v' name i = sole_named v name i"
proof -
  have "(\<exists>a. v' j = Some a \<and> a_name a = name) \<longleftrightarrow> (\<exists>a. v j = Some a \<and> a_name a = name)" for j
    by (rule moved_holder_iff [OF assms]) (simp add: same_holder_def)
  then show ?thesis by (simp only: sole_named_iff)
qed

lemma suspense_usable_moved:
  assumes "moved v d v'"
  shows "suspense_usable v' c i = suspense_usable v c i"
proof -
  have "(\<exists>a. v' i = Some a \<and> a_status a = Active \<and> a_currency a = c \<and> a_accountType a = Liability)
    \<longleftrightarrow> (\<exists>a. v i = Some a \<and> a_status a = Active \<and> a_currency a = c \<and> a_accountType a = Liability)"
    by (rule moved_holder_iff [OF assms]) (simp add: same_holder_def)
  then show ?thesis by (simp only: suspense_usable_def sole_named_moved [OF assms])
qed

lemma can_receive_moved:
  assumes "moved v d v'"
  shows "can_receive v' cmd = can_receive v cmd"
  unfolding can_receive_def by (rule moved_holder_iff [OF assms]) (simp add: same_holder_def)

lemma two_legs_legs:
  "cmd_legs (two_legs cmd i j d) =
     [\<lparr>ep_AccountID = i, ep_Amount = \<lparr>amount = tc_Amount cmd, currency = tc_Currency cmd\<rparr>, ep_Type = Debit\<rparr>,
      \<lparr>ep_AccountID = j, ep_Amount = \<lparr>amount = tc_Amount cmd, currency = tc_Currency cmd\<rparr>, ep_Type = Credit\<rparr>]"
  by (simp add: cmd_legs_def two_legs_def)

lemma two_legs_ok: "transfer_ok cmd \<Longrightarrow> cmd_ok (two_legs cmd i j d)"
  by (simp add: cmd_ok_def two_legs_legs params_ok_def transfer_ok_def) (simp add: two_legs_def)

lemma posted_two_legs:
  "posted (cmd_legs (two_legs cmd i j d)) =
     (\<lambda>k. (if k = i then - tc_Amount cmd else 0) + (if k = j then tc_Amount cmd else 0))"
  by (auto simp: two_legs_legs param_delta_def signed_leg_def)

text \<open>The suspense account is never one of the two ends.\<close>

lemma suspense_other:
  "suspense_usable v (tc_Currency cmd) i \<Longrightarrow> can_pay v cmd \<Longrightarrow> tc_FromAccountID cmd \<noteq> i"
  "suspense_usable v (tc_Currency cmd) i \<Longrightarrow> can_receive v cmd \<Longrightarrow> tc_ToAccountID cmd \<noteq> i"
  by (auto simp: suspense_usable_def sole_named_def can_pay_def can_receive_def)

lemma legs_out_allowed:
  assumes "transfer_ok cmd" "can_pay v cmd" "suspense_usable v (tc_Currency cmd) i"
  shows "list_all (leg_allowed v) (cmd_legs (two_legs cmd (tc_FromAccountID cmd) i d))"
  using assms by (auto simp: two_legs_legs leg_allowed_def transfer_ok_def can_pay_def suspense_usable_def)

lemma leg_suspense_allowed:
  assumes "transfer_ok cmd" "suspense_usable v (tc_Currency cmd) i"
  shows "leg_allowed v \<lparr>ep_AccountID = i,
    ep_Amount = \<lparr>amount = tc_Amount cmd, currency = tc_Currency cmd\<rparr>, ep_Type = Debit\<rparr>"
  using assms by (auto simp: leg_allowed_def transfer_ok_def suspense_usable_def AllowsNegativeBalance_def)

lemma legs_in_allowed:
  assumes "transfer_ok cmd" "can_receive v cmd" "suspense_usable v (tc_Currency cmd) i"
  shows "list_all (leg_allowed v) (cmd_legs (two_legs cmd i (tc_ToAccountID cmd) d))"
  using assms leg_suspense_allowed [OF assms(1,3)]
  by (auto simp: two_legs_legs leg_allowed_def transfer_ok_def can_receive_def)

context reliable_ledger
begin

lemma suspense_found:
  assumes "invar w" and "suspense_usable (view w) c i"
  obtains w1 where "suspenseAccountID e svc c g w = (i, g, w1)" "invar w1" "view w1 = view w"
proof -
  obtain xs w1 where all: "acc_FindAll (ls_accounts svc) w = (Inr xs, w1)"
    using all_total [OF assms(1)] by (metis prod.collapse)
  note w1 = all_frame [OF assms(1) all] and xs = all_ok [OF assms(1) all]
  from assms(2) obtain a where a: "view w i = Some a" "a_name a = suspense_name c"
    by (auto simp: suspense_usable_def sole_named_def)
  then have "a \<in> set xs" unfolding xs by (auto simp: ran_def)
  with a(2) obtain b where b: "account_named (suspense_name c) xs = Some b"
    using account_named_None [of "suspense_name c" xs] by (cases "account_named (suspense_name c) xs") auto
  from account_named_Some [OF this] obtain j where j: "view w j = Some b" "a_name b = suspense_name c"
    unfolding xs by (auto simp: ran_def)
  then have "a_id b = i"
    using assms view_account by (auto simp: suspense_usable_def sole_named_def)
  then have "suspenseAccountID e svc c g w = (i, g, w1)"
    by (simp add: suspenseAccountID_def getOrCreateSystemAccount_def all b)
  with w1 that show ?thesis by blast
qed

text \<open>One transaction of the saga between two different accounts.\<close>

lemma two_legs_recorded:
  assumes "invar w" "clock_ok e" "transfer_ok cmd" "i \<noteq> j"
    and "list_all (leg_allowed (view w)) (cmd_legs (two_legs cmd i j d))"
  obtains t g' w' where "RecordTransaction e svc (two_legs cmd i j d) g w = (Inr t, g', w')" "invar w'"
    "moved (view w) (posted (cmd_legs (two_legs cmd i j d))) (view w')"
proof -
  have "distinct (map ep_AccountID (cmd_legs (two_legs cmd i j d)))"
    using assms(4) by (simp add: two_legs_legs)
  from record_iff [OF assms(1,2) this] obtain t g' w' where
    run: "RecordTransaction e svc (two_legs cmd i j d) g w = (Inr t, g', w')"
    using two_legs_ok [OF assms(3)] assms(5) by blast
  from record_outcome [OF assms(1) run] that [OF run] show ?thesis by auto
qed

end

subsection \<open>The outcome of a transfer\<close>

text \<open>Either the suspense account exists already and is usable, or no account has its name and the
  service can open it.\<close>

definition suspense_ready :: "env \<Rightarrow> gen \<Rightarrow> (AccountID \<rightharpoonup> Account) \<Rightarrow> Currency \<Rightarrow> bool" where
  "suspense_ready e g v c \<longleftrightarrow> (\<exists>i. suspense_usable v c i)
     \<or> (\<forall>j a. v j = Some a \<longrightarrow> a_name a \<noteq> suspense_name c) \<and> ids_drawn e g v
       \<and> uuid_unique e (Suc (Suc (drawn g)))"

lemma can_pay_opened: "opened v v' \<Longrightarrow> can_pay v cmd \<Longrightarrow> can_pay v' cmd"
  unfolding can_pay_def by (blast dest: opened_SomeD)

lemma can_receive_opened: "opened v v' \<Longrightarrow> can_receive v cmd \<Longrightarrow> can_receive v' cmd"
  unfolding can_receive_def by (blast dest: opened_SomeD)

text \<open>The first transaction went through: what Execute does then.\<close>

lemma Execute_after_debit:
  assumes "transfer_ok cmd"
    and "NewTransfer e (tc_FromAccountID cmd) (tc_ToAccountID cmd)
           \<lparr>amount = tc_Amount cmd, currency = tc_Currency cmd\<rparr> (tc_Description cmd) g = (Inr saga, g1)"
    and "suspenseAccountID e s (tc_Currency cmd) g1 w = (i, g2, w1)"
    and "RecordTransaction e s (two_legs cmd (tc_FromAccountID cmd) i (''Transfer out: '' @ tc_Description cmd))
           g2 w1 = (Inr t, g3, w2)"
    and "MarkDebited e saga g3 = (None, saga1, g4)"
    and "suspenseAccountID e s (tc_Currency cmd) g4 w2 = (j, g5, w3)"
  shows "Execute e (NewTransferService s) cmd g w =
    (case RecordTransaction e s (two_legs cmd j (tc_ToAccountID cmd) (''Transfer in: '' @ tc_Description cmd))
            g5 w3 of
       (Inl err, g6, w4) \<Rightarrow> compensate e s cmd err saga1 g6 w4
     | (Inr _, g6, w4) \<Rightarrow>
         (case MarkCompleted e saga1 g6 of
            (Some err, saga2, g7) \<Rightarrow> ((Some saga2, Some err), g7, w4)
          | (None, saga2, g7) \<Rightarrow> ((Some saga2, None), g7, w4)))"
  using assms by (simp add: Execute_def NewTransferService_def Let_def NewMoney_def transfer_ok_def)

context reliable_ledger
begin

lemma suspense_opened:
  assumes "invar w" "clock_ok e" "validCurrencies c" "ids_drawn e g (view w)" "uuid_unique e (Suc (drawn g))"
    and none: "\<forall>j a. view w j = Some a \<longrightarrow> a_name a \<noteq> suspense_name c"
  obtains i g1 w1 where "suspenseAccountID e svc c g w = (i, g1, w1)" "invar w1"
    "opened (view w) (view w1)" "suspense_usable (view w1) c i"
    "dom (view w1) \<subseteq> insert (AccountID (uuid_seq e (drawn g))) (dom (view w))"
proof -
  obtain xs w0 where all: "acc_FindAll (ls_accounts svc) w = (Inr xs, w0)"
    using all_total [OF assms(1)] by (metis prod.collapse)
  note w0 = all_frame [OF assms(1) all]
  have nam: "account_named (suspense_name c) xs = None"
    using none all_ok [OF assms(1) all] by (auto simp: account_named_None ran_def)
  let ?oc = "\<lparr>oc_Name = suspense_name c, oc_AccountType = ''LIABILITY'', oc_Currency = c\<rparr>"
  have fresh: "view w0 (AccountID (uuid_seq e (drawn g))) = None"
    using ids_drawn_fresh [OF assms(4,5)] w0 by simp
  obtain acc g1 w1 where op: "OpenAccount e svc ?oc g w0 = (Inr acc, g1, w1)"
    using open_succeeds [OF conjunct1 [OF w0] assms(2), of ?oc g] fresh assms(3)
    by (auto simp: suspense_name_def)
  from open_outcome [OF conjunct1 [OF w0] fresh op] w0 obtain g2 where
    inv: "invar w1" and new: "NewAccountWithType e (suspense_name c) (accType_of ''LIABILITY'') c g = (Inr acc, g2)"
    and v1: "view w1 = (view w)(a_id acc \<mapsto> stored acc)" by auto
  note acc = new [unfolded NewAccountWithType_Inr_iff]
  have "funds (stored acc) = 0" unfolding stored_funds using acc by (simp add: funds_def)
  moreover have "view w (a_id acc) = None" using fresh w0 acc by simp
  ultimately have "opened (view w) (view w1)" unfolding v1 by (rule opened_new [rotated])
  moreover have "suspense_usable (view w1) c (a_id acc)"
    using none acc by (auto simp: v1 suspense_usable_def sole_named_def stored_fields accType_of_def)
  moreover have "suspenseAccountID e svc c g w = (a_id acc, g1, w1)"
    by (simp add: suspenseAccountID_def getOrCreateSystemAccount_def all nam op)
  moreover have "dom (view w1) \<subseteq> insert (AccountID (uuid_seq e (drawn g))) (dom (view w))"
    using acc by (auto simp: v1)
  ultimately show ?thesis using that inv by blast
qed

lemma suspense_provided:
  assumes "invar w" "clock_ok e" "validCurrencies c" and "suspense_ready e g0 (view w) c"
    and "drawn g = Suc (drawn g0)"
  obtains i g1 w1 where "suspenseAccountID e svc c g w = (i, g1, w1)" "invar w1"
    "opened (view w) (view w1)" "suspense_usable (view w1) c i"
    "dom (view w1) \<subseteq> insert (AccountID (uuid_seq e (drawn g))) (dom (view w))"
proof (cases "\<exists>i. suspense_usable (view w) c i")
  case True
  then obtain i where "suspense_usable (view w) c i" ..
  with suspense_found [OF assms(1), of c i e g] that show ?thesis by (metis opened_refl subset_insertI)
next
  case False
  with assms(4) have none: "\<forall>j a. view w j = Some a \<longrightarrow> a_name a \<noteq> suspense_name c"
    and ids: "ids_drawn e g0 (view w)" and uq: "uuid_unique e (Suc (Suc (drawn g0)))"
    by (auto simp: suspense_ready_def)
  have "ids_drawn e g (view w)" "uuid_unique e (Suc (drawn g))" using ids_drawn_mono [OF ids] uq assms(5) by simp_all
  from suspense_opened [OF assms(1-3) this none that] show ?thesis .
qed

text \<open>The first half of a transfer whose source can pay.\<close>

text \<open>The amount is in the suspense account \<open>i\<close>, which may have been opened for it (\<open>v1\<close>), and the second step is
  next.\<close>

definition debited_half ::
  "env \<Rightarrow> TransferCmd \<Rightarrow> gen \<Rightarrow> 'w \<Rightarrow> AccountID \<Rightarrow> (AccountID \<rightharpoonup> Account) \<Rightarrow> Transfer \<Rightarrow> gen \<Rightarrow> 'w \<Rightarrow> bool" where
  "debited_half e cmd g w i v1 saga1 g5 w3 \<longleftrightarrow>
     opened (view w) v1 \<and> suspense_usable v1 (tc_Currency cmd) i
     \<and> dom v1 \<subseteq> insert (AccountID (uuid_seq e (Suc (drawn g)))) (dom (view w))
     \<and> invar w3 \<and> moved v1 (\<lambda>k. (if k = tc_FromAccountID cmd then - tc_Amount cmd else 0)
                          + (if k = i then tc_Amount cmd else 0)) (view w3)
     \<and> t_state saga1 = Debited
     \<and> Execute e (NewTransferService svc) cmd g w =
      (case RecordTransaction e svc (two_legs cmd i (tc_ToAccountID cmd) (''Transfer in: '' @ tc_Description cmd))
            g5 w3 of
       (Inl err, g6, w4) \<Rightarrow> compensate e svc cmd err saga1 g6 w4
     | (Inr _, g6, w4) \<Rightarrow>
         (case MarkCompleted e saga1 g6 of
            (Some err, saga2, g7) \<Rightarrow> ((Some saga2, Some err), g7, w4)
          | (None, saga2, g7) \<Rightarrow> ((Some saga2, None), g7, w4)))"

lemma execute_first_half:
  assumes "invar w" "clock_ok e" "transfer_ok cmd" and "can_pay (view w) cmd"
    and "suspense_ready e g (view w) (tc_Currency cmd)"
  obtains i v1 saga1 g5 w3 where "debited_half e cmd g w i v1 saga1 g5 w3"
proof -
  let ?m = "\<lparr>amount = tc_Amount cmd, currency = tc_Currency cmd\<rparr>"
  have ne: "tc_FromAccountID cmd \<noteq> tc_ToAccountID cmd" and val: "validCurrencies (tc_Currency cmd)"
    using assms(3) by (simp_all add: transfer_ok_def)
  obtain saga g1 where nt: "NewTransfer e (tc_FromAccountID cmd) (tc_ToAccountID cmd) ?m (tc_Description cmd) g
      = (Inr saga, g1)" using NewTransfer_total [OF ne] by blast
  have g1: "drawn g1 = Suc (drawn g)"
    using nt ne by (auto simp: NewTransfer_def mark_defs Let_def)
  from suspense_provided [OF assms(1,2) val assms(5) g1] obtain i g2 w1 where
    s1: "suspenseAccountID e svc (tc_Currency cmd) g1 w = (i, g2, w1)" and w1: "invar w1"
    "opened (view w) (view w1)" "suspense_usable (view w1) (tc_Currency cmd) i"
    "dom (view w1) \<subseteq> insert (AccountID (uuid_seq e (Suc (drawn g)))) (dom (view w))"
    unfolding g1 by blast
  note pay = can_pay_opened [OF w1(2) assms(4)]
  obtain t g3 w2 where r1: "RecordTransaction e svc
      (two_legs cmd (tc_FromAccountID cmd) i (''Transfer out: '' @ tc_Description cmd)) g2 w1 = (Inr t, g3, w2)"
    and w2: "invar w2" "moved (view w1) (posted (cmd_legs
      (two_legs cmd (tc_FromAccountID cmd) i (''Transfer out: '' @ tc_Description cmd)))) (view w2)"
    using two_legs_recorded [OF w1(1) assms(2,3) suspense_other(1) [OF w1(3) pay]
        legs_out_allowed [OF assms(3) pay w1(3)]] by blast
  obtain saga1 g4 where md: "MarkDebited e saga g3 = (None, saga1, g4)" "t_state saga1 = Debited"
    using mark_simps(1) [OF NewTransfer_InrD(5) [OF nt]] by blast
  have "suspense_usable (view w2) (tc_Currency cmd) i"
    using w1(3) suspense_usable_moved [OF w2(2)] by simp
  then obtain w3 where s2: "suspenseAccountID e svc (tc_Currency cmd) g4 w2 = (i, g4, w3)"
    and w3: "invar w3" "view w3 = view w2" by (rule suspense_found [OF w2(1)])
  have "debited_half e cmd g w i (view w1) saga1 g4 w3"
    unfolding debited_half_def Execute_after_debit [OF assms(3) nt s1 r1 md(1) s2]
    using w1(2-4) w2(2) w3 md(2) by (simp add: posted_two_legs)
  then show ?thesis by (rule that)
qed

end

text \<open>The second half when the destination can, and when it cannot, be credited.\<close>

definition cannot_receive :: "env \<Rightarrow> gen \<Rightarrow> (AccountID \<rightharpoonup> Account) \<Rightarrow> TransferCmd \<Rightarrow> bool" where
  "cannot_receive e g v cmd \<longleftrightarrow> (case v (tc_ToAccountID cmd) of
       None \<Rightarrow> tc_ToAccountID cmd \<noteq> AccountID (uuid_seq e (Suc (drawn g)))
     | Some a \<Rightarrow> a_name a \<noteq> suspense_name (tc_Currency cmd)
         \<and> (a_status a \<noteq> Active \<or> a_currency a \<noteq> tc_Currency cmd))"

lemma compensate_eq:
  assumes "MarkFailed e (''credit failed: '' @ error_Error err) saga g = (saga1, g1)"
    and "suspenseAccountID e s (tc_Currency cmd) g1 w = (i, g2, w1)"
    and "RecordTransaction e s (two_legs cmd i (tc_FromAccountID cmd)
           (''Compensation: reverse debit for failed transfer: '' @ tc_Description cmd)) g2 w1 = (Inr t, g3, w2)"
  shows "\<exists>saga2 g4. compensate e s cmd err saga g w =
    ((Some saga2, Some (Wrap ''transfer failed and compensated'' err)), g4, w2) \<and> t_state saga2 = Compensated"
  using assms by (simp add: compensate_def Let_def mark_defs)

lemma can_be_repaid:
  assumes "moved v d v'" "can_pay v cmd" "transfer_ok cmd"
  shows "leg_allowed v' \<lparr>ep_AccountID = tc_FromAccountID cmd,
    ep_Amount = \<lparr>amount = tc_Amount cmd, currency = tc_Currency cmd\<rparr>, ep_Type = Credit\<rparr>"
proof -
  from assms(2) obtain a where a: "v (tc_FromAccountID cmd) = Some a" "a_status a = Active"
    "a_currency a = tc_Currency cmd" by (auto simp: can_pay_def)
  from assms(1) a(1) obtain b where "v' (tc_FromAccountID cmd) = Some b" "same_holder b a"
    by (rule moved_SomeD)
  with a assms(3) show ?thesis by (simp add: leg_allowed_def same_holder_def transfer_ok_def)
qed

lemma cannot_receive_opened:
  assumes "cannot_receive e g v cmd" "opened v v1"
    and "dom v1 \<subseteq> insert (AccountID (uuid_seq e (Suc (drawn g)))) (dom v)"
  shows "cannot_receive e g v1 cmd"
proof (cases "v (tc_ToAccountID cmd)")
  case None
  with assms have "tc_ToAccountID cmd \<notin> dom v1" by (auto simp: cannot_receive_def)
  then have "v1 (tc_ToAccountID cmd) = None" by blast
  with None assms(1) show ?thesis by (simp add: cannot_receive_def)
next
  case (Some a)
  with assms(1) opened_SomeD [OF assms(2) Some] show ?thesis by (simp add: cannot_receive_def)
qed

lemma cannot_receive_leg:
  assumes "cannot_receive e g v cmd" "moved v d v'"
  shows "\<not> leg_allowed v' \<lparr>ep_AccountID = tc_ToAccountID cmd,
    ep_Amount = \<lparr>amount = tc_Amount cmd, currency = tc_Currency cmd\<rparr>, ep_Type = Credit\<rparr>"
proof (cases "v' (tc_ToAccountID cmd)")
  case (Some b)
  from assms(2) Some obtain a where "v (tc_ToAccountID cmd) = Some a" "same_holder b a"
    by (rule moved_SomeD')
  with assms(1) Some show ?thesis by (auto simp: cannot_receive_def leg_allowed_def same_holder_def)
qed (simp add: leg_allowed_def)

lemma cannot_receive_other:
  "cannot_receive e g v cmd \<Longrightarrow> suspense_usable v (tc_Currency cmd) i \<Longrightarrow> tc_ToAccountID cmd \<noteq> i"
  by (auto simp: cannot_receive_def suspense_usable_def sole_named_def)

context reliable_ledger
begin

lemma execute_completes:
  assumes "invar w" "clock_ok e" "transfer_ok cmd" and "can_pay (view w) cmd" "can_receive (view w) cmd"
    and "suspense_ready e g (view w) (tc_Currency cmd)"
  shows "\<exists>saga g' w' v1. Execute e (NewTransferService svc) cmd g w = ((Some saga, None), g', w')
    \<and> t_state saga = Completed \<and> invar w' \<and> opened (view w) v1
    \<and> moved v1 (\<lambda>k. (if k = tc_FromAccountID cmd then - tc_Amount cmd else 0)
                  + (if k = tc_ToAccountID cmd then tc_Amount cmd else 0)) (view w')"
proof -
  let ?in = "\<lambda>i. two_legs cmd i (tc_ToAccountID cmd) (''Transfer in: '' @ tc_Description cmd)"
  obtain i v1 saga1 g5 w3 where "debited_half e cmd g w i v1 saga1 g5 w3" by (rule execute_first_half [OF assms(1-4,6)])
  note parts = this [unfolded debited_half_def]
  have v1: "opened (view w) v1" "suspense_usable v1 (tc_Currency cmd) i" and w3: "invar w3" and saga1: "t_state saga1 = Debited"
    using parts by simp_all
  note half = parts [THEN conjunct2, THEN conjunct2, THEN conjunct2, THEN conjunct2, THEN conjunct1]
    and ex = parts [THEN conjunct2, THEN conjunct2, THEN conjunct2, THEN conjunct2, THEN conjunct2, THEN conjunct2]
  have recv: "can_receive (view w3) cmd" and usable: "suspense_usable (view w3) (tc_Currency cmd) i"
    using can_receive_opened [OF v1(1) assms(5)] v1(2) can_receive_moved [OF half]
      suspense_usable_moved [OF half] by simp_all
  obtain t g6 w4 where r2: "RecordTransaction e svc (?in i) g5 w3 = (Inr t, g6, w4)"
    and w4: "invar w4" "moved (view w3) (posted (cmd_legs (?in i))) (view w4)"
    using two_legs_recorded [OF w3 assms(2,3) _ legs_in_allowed [OF assms(3) recv usable]]
      suspense_other(2) [OF usable recv] by metis
  obtain saga2 g7 where mc: "MarkCompleted e saga1 g6 = (None, saga2, g7)" "t_state saga2 = Completed"
    using mark_simps(2) [OF saga1] by blast
  have "(\<lambda>k. (if k = tc_FromAccountID cmd then - tc_Amount cmd else 0) + (if k = i then tc_Amount cmd else 0)
      + posted (cmd_legs (?in i)) k)
    = (\<lambda>k. (if k = tc_FromAccountID cmd then - tc_Amount cmd else 0)
                  + (if k = tc_ToAccountID cmd then tc_Amount cmd else 0))"
    by (auto simp: posted_two_legs)
  with moved_trans [OF half w4(2)] v1(1) w4(1) mc(2) ex [unfolded r2 mc(1) prod.case sum.case option.case]
  show ?thesis by auto
qed

end

context reliable_ledger
begin

text \<open>The compensating transaction: the suspense account pays the amount back to the source.\<close>

lemma compensation_repays:
  assumes "invar w" "clock_ok e" "transfer_ok cmd" and "suspense_usable (view w) (tc_Currency cmd) i"
    and "i \<noteq> tc_FromAccountID cmd"
    and "leg_allowed (view w) \<lparr>ep_AccountID = tc_FromAccountID cmd,
      ep_Amount = \<lparr>amount = tc_Amount cmd, currency = tc_Currency cmd\<rparr>, ep_Type = Credit\<rparr>"
  obtains saga' g' w' where "compensate e svc cmd err saga g w =
      ((Some saga', Some (Wrap ''transfer failed and compensated'' err)), g', w')"
    "t_state saga' = Compensated" "invar w'"
    "moved (view w) (\<lambda>k. (if k = i then - tc_Amount cmd else 0)
       + (if k = tc_FromAccountID cmd then tc_Amount cmd else 0)) (view w')"
proof -
  let ?undo = "two_legs cmd i (tc_FromAccountID cmd)
    (''Compensation: reverse debit for failed transfer: '' @ tc_Description cmd)"
  obtain saga2 g7 where mf: "MarkFailed e (''credit failed: '' @ error_Error err) saga g = (saga2, g7)"
    by fastforce
  obtain w5 where s3: "suspenseAccountID e svc (tc_Currency cmd) g7 w = (i, g7, w5)"
    and w5: "invar w5" "view w5 = view w" by (rule suspense_found [OF assms(1,4)])
  have "list_all (leg_allowed (view w5)) (cmd_legs ?undo)"
    using leg_suspense_allowed [OF assms(3,4)] assms(6) w5(2) by (simp add: two_legs_legs)
  with two_legs_recorded [OF w5(1) assms(2,3,5)] obtain t g8 w6 where
    r3: "RecordTransaction e svc ?undo g7 w5 = (Inr t, g8, w6)" and w6: "invar w6"
    "moved (view w5) (posted (cmd_legs ?undo)) (view w6)" by blast
  have "posted (cmd_legs ?undo) = (\<lambda>k. (if k = i then - tc_Amount cmd else 0)
       + (if k = tc_FromAccountID cmd then tc_Amount cmd else 0))"
    by (auto simp: posted_two_legs)
  with w6(2) w5(2) compensate_eq [OF mf s3 r3] w6(1) show ?thesis by (auto intro: that)
qed

text \<open>The second step stops at the destination: the suspense account has been debited for it.\<close>

lemma credit_refused:
  assumes "debited_half e cmd g w i v1 saga1 g5 w3" "transfer_ok cmd" "cannot_receive e g (view w) cmd"
  obtains err g6 w4 where
    "RecordTransaction e svc (two_legs cmd i (tc_ToAccountID cmd) (''Transfer in: '' @ tc_Description cmd)) g5 w3 = (Inl err, g6, w4)"
    "invar w4" "moved v1 (\<lambda>k. if k = tc_FromAccountID cmd then - tc_Amount cmd else 0) (view w4)"
proof -
  let ?in = "two_legs cmd i (tc_ToAccountID cmd) (''Transfer in: '' @ tc_Description cmd)"
  let ?leg = "\<lambda>i ty. \<lparr>ep_AccountID = i, ep_Amount = \<lparr>amount = tc_Amount cmd, currency = tc_Currency cmd\<rparr>, ep_Type = ty\<rparr>"
  have v1: "opened (view w) v1" "suspense_usable v1 (tc_Currency cmd) i"
    "dom v1 \<subseteq> insert (AccountID (uuid_seq e (Suc (drawn g)))) (dom (view w))" and w3: "invar w3"
    and half: "moved v1 (\<lambda>k. (if k = tc_FromAccountID cmd then - tc_Amount cmd else 0)
        + (if k = i then tc_Amount cmd else 0)) (view w3)"
    using assms(1) unfolding debited_half_def by blast+
  note no = cannot_receive_opened [OF assms(3) v1(1,3)]
  have use3: "suspense_usable (view w3) (tc_Currency cmd) i"
    using v1(2) suspense_usable_moved [OF half] by simp
  have legs: "cmd_legs ?in = [?leg i Debit] @ ?leg (tc_ToAccountID cmd) Credit # []"
    by (simp add: two_legs_legs)
  obtain err g6 w4 where r2: "RecordTransaction e svc ?in g5 w3 = (Inl err, g6, w4)"
    and w4: "invar w4" "moved (view w3) (posted [?leg i Debit]) (view w4)"
    using record_stops [OF w3 two_legs_ok [OF assms(2)] _ legs _ cannot_receive_leg [OF no half], of e g5]
      leg_suspense_allowed [OF assms(2) use3] cannot_receive_other [OF no v1(2)]
    by (auto simp: two_legs_legs)
  have "(\<lambda>k. (if k = tc_FromAccountID cmd then - tc_Amount cmd else 0) + (if k = i then tc_Amount cmd else 0)
      + posted [?leg i Debit] k) = (\<lambda>k. if k = tc_FromAccountID cmd then - tc_Amount cmd else 0)"
    by (auto simp: posted_two_legs param_delta_def signed_leg_def)
  with moved_trans [OF half w4(2)] r2 w4(1) show ?thesis by (intro that) simp_all
qed

lemma execute_compensates:
  assumes "invar w" "clock_ok e" "transfer_ok cmd" and "can_pay (view w) cmd" "cannot_receive e g (view w) cmd"
    and "suspense_ready e g (view w) (tc_Currency cmd)"
  shows "\<exists>saga err g' w' v1 i. Execute e (NewTransferService svc) cmd g w =
      ((Some saga, Some (Wrap ''transfer failed and compensated'' err)), g', w')
    \<and> t_state saga = Compensated \<and> invar w' \<and> opened (view w) v1
    \<and> suspense_usable v1 (tc_Currency cmd) i
    \<and> moved v1 (\<lambda>k. if k = i then - tc_Amount cmd else 0) (view w')"
proof -
  let ?n = "tc_Amount cmd" and ?from = "tc_FromAccountID cmd"
  obtain i v1 saga1 g5 w3 where half: "debited_half e cmd g w i v1 saga1 g5 w3" by (rule execute_first_half [OF assms(1-4,6)])
  then have v1: "opened (view w) v1" "suspense_usable v1 (tc_Currency cmd) i" by (simp_all add: debited_half_def)
  obtain err g6 w4 where
    r2: "RecordTransaction e svc (two_legs cmd i (tc_ToAccountID cmd) (''Transfer in: '' @ tc_Description cmd)) g5 w3 = (Inl err, g6, w4)"
    and w4: "invar w4" "moved v1 (\<lambda>k. if k = ?from then - ?n else 0) (view w4)"
    by (rule credit_refused [OF half assms(3,5)])
  have use4: "suspense_usable (view w4) (tc_Currency cmd) i" using v1(2) suspense_usable_moved [OF w4(2)] by simp
  have pay: "can_pay v1 cmd" by (rule can_pay_opened [OF v1(1) assms(4)])
  have ne: "i \<noteq> ?from" using suspense_other(1) [OF v1(2) pay] by simp
  obtain saga3 g9 w6 where c: "compensate e svc cmd err saga1 g6 w4 =
      ((Some saga3, Some (Wrap ''transfer failed and compensated'' err)), g9, w6)"
    "t_state saga3 = Compensated" and w6: "invar w6"
    "moved (view w4) (\<lambda>k. (if k = i then - ?n else 0) + (if k = ?from then ?n else 0)) (view w6)"
    by (rule compensation_repays [OF w4(1) assms(2,3) use4 ne can_be_repaid [OF w4(2) pay assms(3)]])
  have sum: "(\<lambda>k. (if k = ?from then - ?n else 0) + ((if k = i then - ?n else 0) + (if k = ?from then ?n else 0)))
      = (\<lambda>k. if k = i then - ?n else 0)"
    using ne by auto
  have "moved v1 (\<lambda>k. if k = i then - ?n else 0) (view w6)" using moved_trans [OF w4(2) w6(2)] unfolding sum .
  moreover have "Execute e (NewTransferService svc) cmd g w = compensate e svc cmd err saga1 g6 w4"
    using half unfolding debited_half_def r2 by simp
  ultimately show ?thesis using c w6(1) v1 by auto
qed

end

subsection \<open>Properties\<close>

definition sample_transfer :: "int64 \<Rightarrow> uuid \<Rightarrow> TransferCmd" where
  "sample_transfer n dst = \<lparr>tc_FromAccountID = AccountID 7, tc_ToAccountID = AccountID dst, tc_Amount = n,
     tc_Currency = USD, tc_Description = ''rent''\<rparr>"

definition used_gen :: gen where
  "used_gen = \<lparr>ticks = 0, drawn = 8\<rparr>"

lemma sample_world_dom: "mem_view sample_env sample_world i = Some a \<Longrightarrow>
  (i = AccountID 7 \<and> a = sample_account Asset 100 Active) \<or> (i = AccountID 8 \<and> a = sample_equity (-100))"
proof -
  assume i: "mem_view sample_env sample_world i = Some a"
  have "AccountID_String sample_env i = AccountID_String sample_env (AccountID 7) \<or>
      AccountID_String sample_env i = AccountID_String sample_env (AccountID 8)"
    using i by (auto simp: mem_view_def sample_world_def AccountID_String_def split: if_splits)
  then have "i = AccountID 7 \<or> i = AccountID 8" using account_id.print_inject [of sample_env] by auto
  then show ?thesis using i sample_world_view by auto
qed

lemma sample_suspense_ready: "suspense_ready sample_env used_gen (mem_view sample_env sample_world) USD"
proof -
  have "ids_drawn sample_env used_gen (mem_view sample_env sample_world)"
    unfolding ids_drawn_def
  proof
    fix i assume "i \<in> dom (mem_view sample_env sample_world)"
    then have "i = AccountID (uuid_seq sample_env 6) \<or> i = AccountID (uuid_seq sample_env 7)"
      using sample_world_dom by fastforce
    then show "\<exists>n<drawn used_gen. i = AccountID (uuid_seq sample_env n)"
      by (elim disjE) (rule exI [of _ 6], simp add: used_gen_def, rule exI [of _ 7], simp add: used_gen_def)
  qed
  moreover have "uuid_unique sample_env (Suc (Suc (drawn used_gen)))"
    using sample_env_unique by (auto simp: uuid_unique_def used_gen_def intro: inj_on_subset)
  moreover have "a_name a \<noteq> suspense_name USD" if "mem_view sample_env sample_world j = Some a" for j a
    using sample_world_dom [OF that]
    by (auto simp: sample_account_def sample_equity_def suspense_name_def)
  ultimately show ?thesis by (auto simp: suspense_ready_def)
qed

lemma sample_transfer_ready:
  "suspense_ready sample_env used_gen (mem_view sample_env sample_world) (tc_Currency (sample_transfer n dst))"
  using sample_suspense_ready by (simp add: sample_transfer_def)

lemma sample_can_pay: "can_pay (mem_view sample_env sample_world) (sample_transfer 40 dst)"
  by (simp add: can_pay_def sample_transfer_def sample_world_view sample_account_def funds_def suspense_name_def)

text \<open>C18. With repositories that answer and clock readings that have a JSON text, a transfer between two
  active accounts in its currency, whose source covers the amount, completes, when the suspense
  account of the currency is usable or can be opened: the source loses the amount, the destination
  gains it, and no other balance changes, the suspense account included, which may have been opened
  on the way.\<close>

theorem Execute_completes:
  assumes "mem_inv e w" "clock_ok e" "transfer_ok cmd"
    and "can_pay (mem_view e w) cmd" "can_receive (mem_view e w) cmd"
    and "suspense_ready e g (mem_view e w) (tc_Currency cmd)"
  shows "\<exists>saga g' w' v1. Execute e (NewTransferService (test_service e)) cmd g w = ((Some saga, None), g', w')
    \<and> t_state saga = Completed \<and> mem_inv e w' \<and> opened (mem_view e w) v1
    \<and> moved v1 (\<lambda>k. (if k = tc_FromAccountID cmd then - tc_Amount cmd else 0)
                  + (if k = tc_ToAccountID cmd then tc_Amount cmd else 0)) (mem_view e w')"
  using assms by (rule test_ledger.execute_completes)

theorem Execute_completes_witness:
  "\<exists>saga g' w'. Execute sample_env (NewTransferService (test_service sample_env)) (sample_transfer 40 8)
      used_gen sample_world = ((Some saga, None), g', w') \<and> t_state saga = Completed"
proof -
  have ok: "transfer_ok (sample_transfer 40 8)" by (simp add: transfer_ok_def sample_transfer_def)
  have "can_receive (mem_view sample_env sample_world) (sample_transfer 40 8)"
    by (simp add: can_receive_def sample_transfer_def sample_world_view sample_account_def
        sample_equity_def suspense_name_def)
  from Execute_completes [OF sample_world_inv sample_clock ok sample_can_pay this sample_transfer_ready]
  show ?thesis by blast
qed

text \<open>C19. When the destination cannot be credited the saga ends COMPENSATED and the source has its money
  back, but the suspense account is short by the amount: the failed second transaction had debited it
  already, and the compensating one debits it again. The transferred amount has left the ledger.\<close>

theorem Execute_compensation_overdraws_suspense:
  assumes "mem_inv e w" "clock_ok e" "transfer_ok cmd"
    and "can_pay (mem_view e w) cmd" "cannot_receive e g (mem_view e w) cmd"
    and "suspense_ready e g (mem_view e w) (tc_Currency cmd)"
  shows "\<exists>saga err g' w' v1 i. Execute e (NewTransferService (test_service e)) cmd g w =
      ((Some saga, Some (Wrap ''transfer failed and compensated'' err)), g', w')
    \<and> t_state saga = Compensated \<and> mem_inv e w' \<and> opened (mem_view e w) v1
    \<and> suspense_usable v1 (tc_Currency cmd) i
    \<and> moved v1 (\<lambda>k. if k = i then - tc_Amount cmd else 0) (mem_view e w')"
  using assms by (rule test_ledger.execute_compensates)

theorem Execute_compensation_overdraws_suspense_witness:
  "\<exists>saga err g' w' i b. Execute sample_env (NewTransferService (test_service sample_env))
      (sample_transfer 40 9) used_gen sample_world
        = ((Some saga, Some (Wrap ''transfer failed and compensated'' err)), g', w')
    \<and> t_state saga = Compensated \<and> mem_view sample_env w' i = Some b \<and> a_name b = suspense_name USD"
proof -
  have ok: "transfer_ok (sample_transfer 40 9)" by (simp add: transfer_ok_def sample_transfer_def)
  have "mem_view sample_env sample_world (AccountID 9) = None"
    using sample_world_dom [of "AccountID 9"] by (cases "mem_view sample_env sample_world (AccountID 9)") auto
  then have "cannot_receive sample_env used_gen (mem_view sample_env sample_world) (sample_transfer 40 9)"
    by (simp add: cannot_receive_def sample_transfer_def used_gen_def)
  from Execute_compensation_overdraws_suspense [OF sample_world_inv sample_clock ok sample_can_pay this
      sample_transfer_ready] obtain saga err g' w' v1 i where
    run: "Execute sample_env (NewTransferService (test_service sample_env)) (sample_transfer 40 9) used_gen
        sample_world = ((Some saga, Some (Wrap ''transfer failed and compensated'' err)), g', w')"
      "t_state saga = Compensated" and susp: "suspense_usable v1 (tc_Currency (sample_transfer 40 9)) i"
    and moved: "moved v1 (\<lambda>k. if k = i then - tc_Amount (sample_transfer 40 9) else 0) (mem_view sample_env w')"
    by blast
  from susp obtain a where a: "v1 i = Some a" "a_name a = suspense_name USD"
    by (auto simp: suspense_usable_def sole_named_def sample_transfer_def)
  from moved a(1) obtain b where "mem_view sample_env w' i = Some b" "same_holder b a" by (rule moved_SomeD)
  with a(2) have "mem_view sample_env w' i = Some b" "a_name b = suspense_name USD"
    by (simp_all add: same_holder_def)
  with run show ?thesis by blast
qed

text \<open>Execute returns no saga exactly when it refused the command, and then it has touched nothing;
  otherwise the saga it returns is COMPLETED, FAILED or COMPENSATED, with a log that the saga's own
  transitions produce, and it is COMPLETED exactly when no error is returned. This holds for any
  repositories, event store and outbox, also ones that fail.\<close>

lemma Execute_saga_matches_error:
  assumes "Execute e ts cmd g w = ((ro, eo), g', w')"
  shows "case ro of
      None \<Rightarrow> eo \<noteq> None \<and> w' = w \<and> g' = g
    | Some saga \<Rightarrow> saga_reach e saga \<and> t_state saga \<in> {Completed, Failed, Compensated}
        \<and> (eo = None \<longleftrightarrow> t_state saga = Completed)"
  using assms by (rule Execute_saga)

lemma Execute_saga_matches_error_witness:
  "snd (snd (Execute sample_env (NewTransferService (test_service sample_env)) (sample_transfer 40 7)
      used_gen sample_world)) = sample_world"
proof -
  have run: "Execute sample_env (NewTransferService (test_service sample_env)) (sample_transfer 40 7)
      used_gen sample_world = ((None, Some (Wrap ''create transfer'' ErrSameAccount)), used_gen, sample_world)"
    by (rule Execute_same_account) (simp_all add: sample_transfer_def)
  from Execute_saga_matches_error [OF run] show ?thesis by (simp add: run)
qed

text \<open>C1. The trial balance: starting from empty repositories, after any sequence of opened accounts (also
  ones that fail), reads, commands refused as invalid, and transactions, deposits and transfers that
  return no error, the int64 balances of all accounts of a currency add up to zero in int64
  arithmetic. A valid command that fails between two of its entries is not in such a sequence: it
  leaves the first of them posted.\<close>

theorem trial_balance:
  assumes "ledger_run e (test_service e) g0 empty_world g w"
    and "uuid_codec e" "map_range_ok e" "uuid_unique e N" "drawn g < N"
  shows "mem_inv e w \<and> total_funds (mem_view e w) c = 0"
proof -
  have inv: "mem_inv e empty_world"
    using assms(2,3) by (simp add: mem_inv_def empty_world_def NewAccountRepository_def)
  have empty: "mem_view e empty_world = Map.empty"
    by (simp add: mem_view_def empty_world_def NewAccountRepository_def)
  have "ids_drawn e g0 (mem_view e empty_world)" by (simp add: empty ids_drawn_def)
  moreover have "total_funds (mem_view e empty_world) c = 0" by (simp add: empty total_funds_def holders_def)
  ultimately show ?thesis using test_ledger.totals.run_kept [OF assms(1) inv _ _ assms(4,5)] by blast
qed

theorem trial_balance_witness:
  "case OpenAccount sample_env (test_service sample_env)
       \<lparr>oc_Name = ''Cash'', oc_AccountType = ''ASSET'', oc_Currency = USD\<rparr> sample_gen empty_world of
     (Inl err, g1, w1) \<Rightarrow> False
   | (Inr a, g1, w1) \<Rightarrow>
       (case Deposit sample_env (test_service sample_env) (a_id a) 10 USD ''cash'' g1 w1 of
          (Inl err, g2, w2) \<Rightarrow> False
        | (Inr _, g2, w2) \<Rightarrow> map_option funds (mem_view sample_env w2 (a_id a)) = Some 10
            \<and> total_funds (mem_view sample_env w2) USD = 0)"
proof -
  let ?s = "test_service sample_env" and ?cmd = "\<lparr>oc_Name = ''Cash'', oc_AccountType = ''ASSET'', oc_Currency = USD\<rparr>"
  have run: "case OpenAccount sample_env ?s ?cmd sample_gen empty_world of (Inl err, g1, w1) \<Rightarrow> False
    | (Inr a, g1, w1) \<Rightarrow> (case Deposit sample_env ?s (a_id a) 10 USD ''cash'' g1 w1 of (Inl err, g2, w2) \<Rightarrow> False
      | (Inr _, g2, w2) \<Rightarrow> int (drawn g2) < 1000 \<and> map_option funds (mem_view sample_env w2 (a_id a)) = Some 10)"
    by code_simp
  then obtain a g1 w1 where op: "OpenAccount sample_env ?s ?cmd sample_gen empty_world = (Inr a, g1, w1)"
    by (auto split: prod.splits sum.splits)
  with run obtain u g2 w2 where dep: "Deposit sample_env ?s (a_id a) 10 USD ''cash'' g1 w1 = (Inr u, g2, w2)"
    and few: "drawn g2 < 1000" and ten: "map_option funds (mem_view sample_env w2 (a_id a)) = Some 10"
    by (auto split: prod.splits sum.splits)
  have "ledger_run sample_env ?s sample_gen empty_world g2 w2"
    by (rule ledger_run.deposited [OF ledger_run.opened [OF ledger_run.start op] dep])
  with trial_balance [OF _ sample_env_codec sample_env_range sample_env_unique few] op dep ten
  show ?thesis by simp
qed

end
