(* ===== verification/Record_Interleaving.thy ===== *)
theory Record_Interleaving
  imports Ledger_Service
begin

section \<open>Transactions recorded at the same time\<close>

text \<open>
  Every request runs in its own goroutine, and nothing in RecordTransaction keeps two of them apart:
  the balance loop reads an account and writes it back in two calls. Here the method is a sequence of
  steps with one call of a port each, and a configuration holds the phases of any number of commands
  over one store. Alone, the steps are RecordTransaction. Together they add up as long as no two
  commands are between reading and writing one account.
\<close>

datatype record_phase =
    Received
  | FindingLeg Transaction Entry "Entry list"
  | SavingLeg Transaction Entry "Entry list" Account
  | SavingTx Transaction
  | Emitting Transaction
  | Projecting Transaction TransactionRecordedEvent
  | Answered "error + Transaction"

definition next_leg :: "Transaction \<Rightarrow> Entry list \<Rightarrow> record_phase" where
  "next_leg tx xs = (case xs of [] \<Rightarrow> SavingTx tx | x # rest \<Rightarrow> FindingLeg tx x rest)"

fun record_step ::
  "env \<Rightarrow> 'w LedgerService \<Rightarrow> RecordTransactionCmd \<Rightarrow> record_phase \<Rightarrow> gen \<Rightarrow> 'w \<Rightarrow> record_phase \<times> gen \<times> 'w" where
  "record_step e s cmd Received g w =
     (case cmd_params 0 (rc_Entries cmd) of
        Inl err \<Rightarrow> (Answered (Inl err), g, w)
      | Inr params \<Rightarrow>
          (case NewTransaction e params (rc_Description cmd) g of
             (Inl err, g1) \<Rightarrow> (Answered (Inl (Wrap ''create transaction'' err)), g1, w)
           | (Inr tx, g1) \<Rightarrow> (next_leg tx (Transaction_Entries tx), g1, w)))"
| "record_step e s cmd (FindingLeg tx x xs) g w =
     (case acc_FindByID (ls_accounts s) (e_accountID x) w of
        (Inl err, w1) \<Rightarrow>
          (Answered (Inl (Wrap (''find account '' @ AccountID_String e (e_accountID x)) err)), g, w1)
      | (Inr acc, w1) \<Rightarrow>
          (case apply_leg e x acc g of
             (Inl err, g1) \<Rightarrow>
               (Answered (Inl (Wrap (''apply '' @ EntryType_string (e_entryType x) @ '' to account '' @
                  AccountID_String e (e_accountID x)) err)), g1, w1)
           | (Inr acc', g1) \<Rightarrow> (SavingLeg tx x xs acc', g1, w1)))"
| "record_step e s cmd (SavingLeg tx x xs acc) g w =
     (case acc_Save (ls_accounts s) acc w of
        (Inl err, w1) \<Rightarrow>
          (Answered (Inl (Wrap (''save account '' @ AccountID_String e (e_accountID x)) err)), g, w1)
      | (Inr _, w1) \<Rightarrow> (next_leg tx xs, g, w1))"
| "record_step e s cmd (SavingTx tx) g w =
     (case txr_Save (ls_transactions s) tx w of
        (Inl err, w1) \<Rightarrow> (Answered (Inl (Wrap ''save transaction'' err)), g, w1)
      | (Inr _, w1) \<Rightarrow> (Emitting tx, g, w1))"
| "record_step e s cmd (Emitting tx) g w =
     (let (now, g1) = time_Now e g;
          event = \<lparr>tr_ID = '''', tr_TransactionID = TransactionID_String e (tx_id tx),
                   tr_Entries = map (entry_data e) (Transaction_Entries tx),
                   tr_Description = rc_Description cmd, tr_Timestamp = now\<rparr>
      in (case appendEvent e s (TransactionID_String e (tx_id tx)) ''transaction'' 0
                 (TransactionRecorded event) w of
            (Inl err, w1) \<Rightarrow> (Answered (Inl (Wrap ''emit transaction recorded'' err)), g1, w1)
          | (Inr _, w1) \<Rightarrow> (Projecting tx event, g1, w1)))"
| "record_step e s cmd (Projecting tx event) g w =
     (case ls_projector s of
        None \<Rightarrow> (Answered (Inr tx), g, w)
      | Some p \<Rightarrow> (Answered (Inr tx), g, snd (pj_ProjectTransactionRecorded p event w)))"
| "record_step e s cmd (Answered r) g w = (Answered r, g, w)"

fun record_run ::
  "env \<Rightarrow> 'w LedgerService \<Rightarrow> RecordTransactionCmd \<Rightarrow> nat \<Rightarrow> record_phase \<Rightarrow> gen \<Rightarrow> 'w \<Rightarrow> record_phase \<times> gen \<times> 'w" where
  "record_run e s cmd 0 ph g w = (ph, g, w)"
| "record_run e s cmd (Suc n) ph g w =
     (case record_step e s cmd ph g w of (ph1, g1, w1) \<Rightarrow> record_run e s cmd n ph1 g1 w1)"

subsection \<open>A command that runs alone\<close>

lemma record_run_answered [simp]: "record_run e s cmd n (Answered r) g w = (Answered r, g, w)"
  by (induction n) simp_all

lemma next_leg_simps [simp]:
  "next_leg tx [] = SavingTx tx" "next_leg tx (x # xs) = FindingLeg tx x xs"
  by (simp_all add: next_leg_def)

lemma record_run_legs:
  "record_run e s cmd (2 * length xs + n) (next_leg tx xs) g w =
     (case update_balances e s xs g w of
        (Inl err, g1, w1) \<Rightarrow> (Answered (Inl err), g1, w1)
      | (Inr _, g1, w1) \<Rightarrow> record_run e s cmd n (SavingTx tx) g1 w1)"
  by (induction xs arbitrary: g w) (simp_all split: sum.splits prod.splits)

lemma record_run_tail:
  "record_run e s cmd 3 (SavingTx tx) g w =
     (case txr_Save (ls_transactions s) tx w of
        (Inl err, w2) \<Rightarrow> (Answered (Inl (Wrap ''save transaction'' err)), g, w2)
      | (Inr _, w2) \<Rightarrow> (case record_step e s cmd (Emitting tx) g w2 of
          (ph, g3, w3) \<Rightarrow> record_step e s cmd ph g3 w3))"
  by (simp add: numeral_eq_Suc split: sum.splits prod.splits)

lemma record_step_rejected:
  assumes "\<not> cmd_ok cmd"
  shows "record_step e s cmd Received g w = (case RecordTransaction e s cmd g w of (r, g', w') \<Rightarrow> (Answered r, g', w'))"
proof (cases "cmd_params 0 (rc_Entries cmd)")
  case (Inr ps)
  with assms cmd_params_legs [OF Inr] have "\<not> params_ok ps" by (simp add: cmd_ok_def)
  then obtain err where "NewTransaction e ps (rc_Description cmd) g = (Inl err, g)"
    using NewTransaction_rejected by blast
  with Inr show ?thesis by (simp add: RecordTransaction_def)
qed (simp add: RecordTransaction_def)

lemma record_run_RecordTransaction:
  "record_run e s cmd (2 * length (rc_Entries cmd) + 4) Received g w =
     (case RecordTransaction e s cmd g w of (r, g', w') \<Rightarrow> (Answered r, g', w'))"
proof -
  have first: "record_run e s cmd (2 * length (rc_Entries cmd) + 4) Received g w =
    (case record_step e s cmd Received g w of (ph, g1, w1) \<Rightarrow>
       record_run e s cmd (2 * length (rc_Entries cmd) + 3) ph g1 w1)"
    using record_run.simps(2) [of e s cmd "2 * length (rc_Entries cmd) + 3" Received g w]
    by (simp add: eval_nat_numeral del: record_step.simps record_run.simps)
  show ?thesis
  proof (cases "cmd_ok cmd")
    case False
    show ?thesis unfolding first record_step_rejected [OF False] by (simp split: prod.splits)
  next
    case True
    obtain tx g1 where tx: "cmd_params 0 (rc_Entries cmd) = Inr (cmd_legs cmd)"
      "NewTransaction e (cmd_legs cmd) (rc_Description cmd) g = (Inr tx, g1)" "map params_of (tx_entries tx) = cmd_legs cmd"
      using cmd_accepted [OF True] by metis
    have len: "length (rc_Entries cmd) = length (tx_entries tx)" using arg_cong [OF tx(3), of length] by simp
    have step: "record_step e s cmd Received g w = (next_leg tx (tx_entries tx), g1, w)"
      by (simp add: tx Transaction_Entries_def)
    note run = first [unfolded len step prod.case record_run_legs]
    show ?thesis
      unfolding len run
      by (simp add: record_run_tail RecordTransaction_def tx Transaction_Entries_def time_Now_def Let_def
          split: sum.splits prod.splits option.splits)
  qed
qed

text \<open>The steps are the method: a command that is not interrupted has been answered after two steps per
  entry and four more, with the result, the generator and the store of RecordTransaction, for any ports
  and on every branch.\<close>

lemma record_steps_alone:
  "record_run e s cmd (2 * length (rc_Entries cmd) + 4) Received g w =
     (case RecordTransaction e s cmd g w of (r, g', w') \<Rightarrow> (Answered r, g', w'))"
  by (rule record_run_RecordTransaction)

subsection \<open>Any number of commands\<close>

record 'w race =
  ra_phases :: "record_phase list"
  ra_gen :: gen
  ra_store :: 'w

definition race_start :: "RecordTransactionCmd list \<Rightarrow> gen \<Rightarrow> 'w \<Rightarrow> 'w race" where
  "race_start cmds g w = \<lparr>ra_phases = map (\<lambda>_. Received) cmds, ra_gen = g, ra_store = w\<rparr>"

definition race_turn ::
  "env \<Rightarrow> 'w LedgerService \<Rightarrow> RecordTransactionCmd list \<Rightarrow> nat \<Rightarrow> 'w race \<Rightarrow> 'w race" where
  "race_turn e s cmds i c =
     (case record_step e s (cmds ! i) (ra_phases c ! i) (ra_gen c) (ra_store c) of
        (ph, g, w) \<Rightarrow> \<lparr>ra_phases = (ra_phases c)[i := ph], ra_gen = g, ra_store = w\<rparr>)"

text \<open>The configurations that are reached by turns in configurations with \<open>P\<close>.\<close>

inductive race_reach ::
  "('w race \<Rightarrow> bool) \<Rightarrow> env \<Rightarrow> 'w LedgerService \<Rightarrow> RecordTransactionCmd list \<Rightarrow> gen \<Rightarrow> 'w \<Rightarrow> 'w race \<Rightarrow> bool"
  for P e s cmds g w where
  start: "race_reach P e s cmds g w (race_start cmds g w)"
| turn: "race_reach P e s cmds g w c \<Longrightarrow> P c \<Longrightarrow> i < length cmds \<Longrightarrow>
    race_reach P e s cmds g w (race_turn e s cmds i c)"

fun race_run ::
  "env \<Rightarrow> 'w LedgerService \<Rightarrow> RecordTransactionCmd list \<Rightarrow> nat list \<Rightarrow> 'w race \<Rightarrow> 'w race" where
  "race_run e s cmds [] c = c"
| "race_run e s cmds (i # is) c = race_run e s cmds is (race_turn e s cmds i c)"

lemma race_run_reach:
  "race_reach (\<lambda>_. True) e s cmds g w c \<Longrightarrow> \<forall>i\<in>set is. i < length cmds \<Longrightarrow>
     race_reach (\<lambda>_. True) e s cmds g w (race_run e s cmds is c)"
  by (induction "is" arbitrary: c) (auto intro: race_reach.turn)

text \<open>No command waits for another: after its own number of turns it has been answered, whatever the
  others and the ports do.\<close>

fun record_left :: "RecordTransactionCmd \<Rightarrow> record_phase \<Rightarrow> nat" where
  "record_left cmd Received = 2 * length (rc_Entries cmd) + 4"
| "record_left cmd (FindingLeg tx x xs) = 2 * length xs + 5"
| "record_left cmd (SavingLeg tx x xs b) = 2 * length xs + 4"
| "record_left cmd (SavingTx tx) = 3"
| "record_left cmd (Emitting tx) = 2"
| "record_left cmd (Projecting tx ev) = 1"
| "record_left cmd (Answered r) = 0"

lemma record_left_next [simp]: "record_left cmd (next_leg tx xs) = 2 * length xs + 3"
  by (cases xs) simp_all

lemma record_step_left:
  assumes "record_step e s cmd ph g w = (ph', g', w')"
  shows "record_left cmd ph' \<le> record_left cmd ph - 1"
proof (cases ph)
  case Received
  have len: "length (tx_entries tx) = length (rc_Entries cmd)"
    if "cmd_params 0 (rc_Entries cmd) = Inr ps" "NewTransaction e ps (rc_Description cmd) g = (Inr tx, g1)" for ps tx g1
  proof -
    have "map params_of (tx_entries tx) = cmd_legs cmd"
      using cmd_params_legs [OF that(1)] NewTransaction_InrD(2) [OF that(2)] by simp
    then show ?thesis by (metis cmd_legs_length length_map)
  qed
  then show ?thesis
    using assms Received by (auto simp: Transaction_Entries_def split: sum.splits prod.splits)
qed (use assms in \<open>auto simp: Let_def split: sum.splits prod.splits option.splits\<close>)

lemma race_turn_phases:
  "length (ra_phases (race_turn e s cmds i c)) = length (ra_phases c)"
  "j < length (ra_phases c) \<Longrightarrow> record_left (cmds ! j) (ra_phases (race_turn e s cmds i c) ! j)
     \<le> record_left (cmds ! j) (ra_phases c ! j) - (if i = j then 1 else 0)"
  by (auto simp: race_turn_def nth_list_update dest: record_step_left split: prod.splits)

lemma race_run_left:
  "j < length (ra_phases c) \<Longrightarrow> record_left (cmds ! j) (ra_phases (race_run e s cmds is c) ! j)
     \<le> record_left (cmds ! j) (ra_phases c ! j) - count_list is j"
proof (induction "is" arbitrary: c)
  case (Cons i js)
  from Cons.IH [of "race_turn e s cmds i c"] race_turn_phases(1) [of e s cmds i c] Cons.prems
  have "record_left (cmds ! j) (ra_phases (race_run e s cmds js (race_turn e s cmds i c)) ! j)
      \<le> record_left (cmds ! j) (ra_phases (race_turn e s cmds i c) ! j) - count_list js j" by simp
  with race_turn_phases(2) [OF Cons.prems, of cmds e s i] show ?case by (auto split: if_splits)
qed simp

lemma race_answered:
  assumes "j < length cmds" "2 * length (rc_Entries (cmds ! j)) + 4 \<le> count_list is j"
  shows "\<exists>r. ra_phases (race_run e s cmds is (race_start cmds g w)) ! j = Answered r"
proof -
  have "record_left (cmds ! j) (ra_phases (race_run e s cmds is (race_start cmds g w)) ! j) = 0"
    using race_run_left [of j "race_start cmds g w" cmds e s "is"] assms by (simp add: race_start_def)
  then show ?thesis by (cases "ra_phases (race_run e s cmds is (race_start cmds g w)) ! j") auto
qed

text \<open>The account that a command has read and not yet written back.\<close>

definition writing :: "record_phase \<Rightarrow> AccountID option" where
  "writing ph = (case ph of SavingLeg tx x xs b \<Rightarrow> Some (e_accountID x) | _ \<Rightarrow> None)"

fun unshared :: "'a option list \<Rightarrow> bool" where
  "unshared [] \<longleftrightarrow> True"
| "unshared (k # ks) \<longleftrightarrow> (k = None \<or> k \<notin> set ks) \<and> unshared ks"

definition exclusive :: "'w race \<Rightarrow> bool" where
  "exclusive c \<longleftrightarrow> unshared (map writing (ra_phases c))"

lemma unshared_iff:
  "unshared ks \<longleftrightarrow> (\<forall>j<length ks. \<forall>i<j. ks ! i \<noteq> None \<longrightarrow> ks ! i \<noteq> ks ! j)"
proof (induction ks)
  case (Cons k ks)
  have "(\<forall>j<length (k # ks). \<forall>i<j. (k # ks) ! i \<noteq> None \<longrightarrow> (k # ks) ! i \<noteq> (k # ks) ! j) \<longleftrightarrow>
      (\<forall>j<length ks. k \<noteq> None \<longrightarrow> k \<noteq> ks ! j) \<and> (\<forall>j<length ks. \<forall>i<j. ks ! i \<noteq> None \<longrightarrow> ks ! i \<noteq> ks ! j)"
    by (simp add: All_less_Suc2 all_conj_distrib) blast
  with Cons.IH show ?case by (auto simp: in_set_conv_nth)
qed simp

lemma exclusiveD:
  assumes "exclusive c" "i < length (ra_phases c)" "j < length (ra_phases c)" "i \<noteq> j" "writing (ra_phases c ! i) = Some k"
  shows "writing (ra_phases c ! j) \<noteq> Some k"
proof (cases "j < i")
  case True
  then show ?thesis using assms unfolding exclusive_def unshared_iff by force
next
  case False
  then have "i < j" using assms(4) by simp
  then show ?thesis using assms unfolding exclusive_def unshared_iff by fastforce
qed

fun exclusive_run ::
  "env \<Rightarrow> 'w LedgerService \<Rightarrow> RecordTransactionCmd list \<Rightarrow> nat list \<Rightarrow> 'w race \<Rightarrow> bool" where
  "exclusive_run e s cmds [] c \<longleftrightarrow> True"
| "exclusive_run e s cmds (i # is) c \<longleftrightarrow>
     exclusive c \<and> i < length cmds \<and> exclusive_run e s cmds is (race_turn e s cmds i c)"

lemma exclusive_run_reach:
  "race_reach exclusive e s cmds g w c \<Longrightarrow> exclusive_run e s cmds is c \<Longrightarrow>
     race_reach exclusive e s cmds g w (race_run e s cmds is c)"
  by (induction "is" arbitrary: c) (auto intro: race_reach.turn)

text \<open>No account occurs in two commands.\<close>

definition apart :: "RecordTransactionCmd list \<Rightarrow> bool" where
  "apart cmds \<longleftrightarrow> (\<forall>i<length cmds. \<forall>j<i. \<forall>p\<in>set (cmd_legs (cmds ! i)). \<forall>q\<in>set (cmd_legs (cmds ! j)).
     ep_AccountID p \<noteq> ep_AccountID q)"

subsection \<open>What a command has posted so far\<close>

definition accepted :: "RecordTransactionCmd \<Rightarrow> Transaction \<Rightarrow> bool" where
  "accepted cmd tx \<longleftrightarrow> cmd_ok cmd \<and> map params_of (tx_entries tx) = cmd_legs cmd"

fun phase_at :: "(AccountID \<rightharpoonup> Account) \<Rightarrow> RecordTransactionCmd \<Rightarrow> nat \<Rightarrow> record_phase \<Rightarrow> bool" where
  "phase_at v cmd n Received \<longleftrightarrow> n = 0"
| "phase_at v cmd n (FindingLeg tx x xs) \<longleftrightarrow> accepted cmd tx \<and> drop n (tx_entries tx) = x # xs"
| "phase_at v cmd n (SavingLeg tx x xs b) \<longleftrightarrow>
     accepted cmd tx \<and> drop n (tx_entries tx) = x # xs \<and> leg_pending v x b"
| "phase_at v cmd n (SavingTx tx) \<longleftrightarrow> accepted cmd tx \<and> n = length (cmd_legs cmd)"
| "phase_at v cmd n (Emitting tx) \<longleftrightarrow> accepted cmd tx \<and> n = length (cmd_legs cmd)"
| "phase_at v cmd n (Projecting tx ev) \<longleftrightarrow> accepted cmd tx \<and> n = length (cmd_legs cmd)"
| "phase_at v cmd n (Answered r) \<longleftrightarrow>
     n \<le> length (cmd_legs cmd) \<and> (\<forall>tx. r = Inr tx \<longrightarrow> accepted cmd tx \<and> n = length (cmd_legs cmd))"

definition race_posted :: "RecordTransactionCmd list \<Rightarrow> (nat \<Rightarrow> nat) \<Rightarrow> AccountID \<Rightarrow> int64" where
  "race_posted cmds ns k = (\<Sum>i<length cmds. posted (take (ns i) (cmd_legs (cmds ! i))) k)"

lemma accepted_length: "accepted cmd tx \<Longrightarrow> length (tx_entries tx) = length (cmd_legs cmd)"
  unfolding accepted_def by (metis length_map)

lemma accepted_leg:
  assumes "accepted cmd tx" "drop n (tx_entries tx) = x # xs"
  shows "n < length (cmd_legs cmd)" "cmd_legs cmd ! n = params_of x" "drop (Suc n) (tx_entries tx) = xs"
proof -
  have n: "n < length (tx_entries tx)" using assms(2) by (metis drop_all leI list.distinct(1))
  then show "n < length (cmd_legs cmd)" using accepted_length [OF assms(1)] by simp
  have "tx_entries tx ! n = x" using assms(2) n by (metis hd_drop_conv_nth list.sel(1))
  then show "cmd_legs cmd ! n = params_of x"
    using assms(1) n unfolding accepted_def by (metis nth_map)
  show "drop (Suc n) (tx_entries tx) = xs" using assms(2) by (metis drop_Suc list.sel(3) tl_drop)
qed

lemma phase_at_next_leg:
  "accepted cmd tx \<Longrightarrow> n \<le> length (cmd_legs cmd) \<Longrightarrow> phase_at v cmd n (next_leg tx (drop n (tx_entries tx)))"
  by (cases "drop n (tx_entries tx)") (auto simp: accepted_length)

lemma phase_at_bound: "phase_at v cmd n ph \<Longrightarrow> n \<le> length (cmd_legs cmd)"
  by (cases ph) (auto dest: accepted_leg(1))

lemma phase_at_other:
  "writing ph \<noteq> Some k \<Longrightarrow> phase_at (v(k \<mapsto> b)) cmd n ph = phase_at v cmd n ph"
  by (cases ph) (auto simp: writing_def leg_pending_def)

lemma phase_at_writing:
  assumes "phase_at v cmd n ph" "writing ph = Some k"
  shows "\<exists>p\<in>set (cmd_legs cmd). ep_AccountID p = k"
proof -
  from assms obtain tx x xs b where "accepted cmd tx" "drop n (tx_entries tx) = x # xs" "k = e_accountID x"
    by (cases ph) (auto simp: writing_def)
  with accepted_leg [of cmd tx n x xs] show ?thesis
    by (intro bexI [of _ "params_of x"]) (auto simp: params_of_def in_set_conv_nth)
qed

lemma race_posted_next:
  assumes "i < length cmds" "n < length (cmd_legs (cmds ! i))" "ns i = n"
  shows "race_posted cmds (ns(i := Suc n)) k = race_posted cmds ns k + posted [cmd_legs (cmds ! i) ! n] k"
proof -
  let ?f = "\<lambda>ns j. posted (take (ns j) (cmd_legs (cmds ! j))) k"
  have split: "race_posted cmds ms k = ?f ms i + (\<Sum>j\<in>{..<length cmds} - {i}. ?f ms j)" for ms
    unfolding race_posted_def using assms(1) by (intro sum.remove) auto
  have "?f (ns(i := Suc n)) i = ?f ns i + posted [cmd_legs (cmds ! i) ! n] k"
    using assms(2,3) by (simp add: take_Suc_conv_app_nth posted_append del: posted_simps)
  then show ?thesis by (simp add: split algebra_simps del: posted_simps)
qed

lemma race_posted_all:
  "\<forall>i<length cmds. ns i = length (cmd_legs (cmds ! i)) \<Longrightarrow>
     race_posted cmds ns = posted (concat (map cmd_legs cmds))"
proof
  fix k assume ns: "\<forall>i<length cmds. ns i = length (cmd_legs (cmds ! i))"
  have "posted (concat (map cmd_legs cmds)) k = sum_list (map (\<lambda>cmd. posted (cmd_legs cmd) k) cmds)"
    by (induction cmds) (simp_all add: posted_append)
  also have "\<dots> = (\<Sum>i<length cmds. posted (cmd_legs (cmds ! i)) k)"
    by (simp add: sum_list_sum_nth atLeast0LessThan)
  also have "\<dots> = race_posted cmds ns k" using ns by (simp add: race_posted_def)
  finally show "race_posted cmds ns k = posted (concat (map cmd_legs cmds)) k" ..
qed

subsection \<open>Runs in which no two commands hold one account\<close>

context ledger_ports
begin

lemma received_effect:
  assumes "record_step e svc cmd Received g w = (ph', g', w')"
  shows "w' = w" "phase_at v cmd 0 ph'"
proof -
  have "w' = w \<and> phase_at v cmd 0 ph'"
  proof (cases "cmd_ok cmd")
    case False
    obtain err where "RecordTransaction e svc cmd g w = (Inl err, g, w)"
      using record_rejected [OF False, of e svc g w] by blast
    then have "record_step e svc cmd Received g w = (Answered (Inl err), g, w)"
      by (simp only: record_step_rejected [OF False] prod.case)
    with assms show ?thesis by (metis Pair_inject le0 phase_at.simps(7) sum.distinct(1))
  next
    case True
    obtain tx g1 where tx: "cmd_params 0 (rc_Entries cmd) = Inr (cmd_legs cmd)"
      "NewTransaction e (cmd_legs cmd) (rc_Description cmd) g = (Inr tx, g1)" "map params_of (tx_entries tx) = cmd_legs cmd"
      using cmd_accepted [OF True] by metis
    have "phase_at v cmd 0 (next_leg tx (drop 0 (tx_entries tx)))"
      using True tx(3) by (intro phase_at_next_leg) (auto simp: accepted_def)
    then show ?thesis using assms tx by (auto simp: Transaction_Entries_def)
  qed
  then show "w' = w" "phase_at v cmd 0 ph'" by simp_all
qed

lemma finding_effect:
  assumes "record_step e svc cmd (FindingLeg tx x xs) g w = (ph', g', w')" "invar w"
    and "phase_at (view w) cmd n (FindingLeg tx x xs)"
  shows "invar w'" "view w' = view w" "phase_at (view w) cmd n ph'"
proof -
  obtain r w1 where find: "acc_FindByID (ls_accounts svc) (e_accountID x) w = (r, w1)" by fastforce
  note w1 = find_frame [OF assms(2) find] and n = phase_at_bound [OF assms(3)]
  have "invar w' \<and> view w' = view w \<and> phase_at (view w) cmd n ph'"
  proof (cases r)
    case (Inl err)
    then show ?thesis using assms(1) find w1 n by auto
  next
    case (Inr acc)
    then show ?thesis
      using assms(1,3) find w1 n leg_found(1) [OF assms(2) find [unfolded Inr], of e g]
      by (auto split: prod.splits sum.splits)
  qed
  then show "invar w'" "view w' = view w" "phase_at (view w) cmd n ph'" by simp_all
qed

text \<open>A step leaves the accounts alone, or it saves a leg.\<close>

lemma record_step_effect:
  assumes "record_step e svc cmd ph g w = (ph', g', w')" "invar w" "phase_at (view w) cmd n ph"
  obtains (keeps) "invar w'" "view w' = view w" "phase_at (view w) cmd n ph'"
  | (posts) k b p where "invar w'" "writing ph = Some k" "view w' = (view w)(k \<mapsto> b)"
      "n < length (cmd_legs cmd)" "cmd_legs cmd ! n = p" "postable (view w) p"
      "moved (view w) (posted [p]) (view w')" "\<And>v. phase_at v cmd (Suc n) ph'"
proof (cases ph)
  case Received
  then show ?thesis using received_effect [OF assms(1) [unfolded Received]] assms(2,3) by (intro keeps) auto
next
  case (FindingLeg tx x xs)
  then show ?thesis using finding_effect [of e cmd tx x xs g w] assms by (intro keeps) auto
next
  case (SavingLeg tx x xs b)
  obtain r w1 where save: "acc_Save (ls_accounts svc) b w = (r, w1)" by fastforce
  from assms(3) have at: "accepted cmd tx" "drop n (tx_entries tx) = x # xs" "leg_pending (view w) x b"
    by (simp_all add: SavingLeg)
  note leg = accepted_leg [OF at(1,2)]
  show ?thesis
  proof (cases r)
    case (Inl err)
    then show ?thesis
      using assms(1) SavingLeg save save_err [OF assms(2) save [unfolded Inl]] leg(1) by (intro keeps) auto
  next
    case (Inr u)
    note saved = leg_saved [OF assms(2) at(3) save [unfolded Inr]]
    have "phase_at v cmd (Suc n) (next_leg tx xs)" for v
      using phase_at_next_leg [OF at(1), of "Suc n" v] leg by simp
    then show ?thesis using assms(1) SavingLeg save Inr saved leg(1,2)
      by (intro posts [of "e_accountID x" "stored b" "params_of x"]) (auto simp: writing_def simp del: posted_simps)
  qed
next
  case (SavingTx tx)
  obtain r w1 where save: "txr_Save (ls_transactions svc) tx w = (r, w1)" by fastforce
  show ?thesis using assms SavingTx save tx_frame [OF assms(2) save] by (intro keeps) (auto split: sum.splits)
qed (use assms project_frame(2) in \<open>auto intro!: keeps simp: Let_def dest: append_frame
    split: sum.splits prod.splits option.splits\<close>)

definition race_inv :: "(AccountID \<rightharpoonup> Account) \<Rightarrow> RecordTransactionCmd list \<Rightarrow> (nat \<Rightarrow> nat) \<Rightarrow> 'w race \<Rightarrow> bool" where
  "race_inv v0 cmds ns c \<longleftrightarrow> invar (ra_store c) \<and> length (ra_phases c) = length cmds
     \<and> moved v0 (race_posted cmds ns) (view (ra_store c))
     \<and> (\<forall>i<length cmds. phase_at (view (ra_store c)) (cmds ! i) (ns i) (ra_phases c ! i)
          \<and> list_all (postable v0) (take (ns i) (cmd_legs (cmds ! i))))"

lemma race_inv_turn:
  assumes "race_inv v0 cmds ns c" "exclusive c" "i < length cmds"
  shows "\<exists>ns. race_inv v0 cmds ns (race_turn e svc cmds i c)"
proof -
  have len: "length (ra_phases c) = length cmds" and invc: "invar (ra_store c)"
    and mv: "moved v0 (race_posted cmds ns) (view (ra_store c))"
    and ph: "\<And>j. j < length cmds \<Longrightarrow> phase_at (view (ra_store c)) (cmds ! j) (ns j) (ra_phases c ! j)"
    and pb: "\<And>j. j < length cmds \<Longrightarrow> list_all (postable v0) (take (ns j) (cmd_legs (cmds ! j)))"
    using assms(1) by (simp_all add: race_inv_def)
  obtain ph' g' w' where step:
    "record_step e svc (cmds ! i) (ra_phases c ! i) (ra_gen c) (ra_store c) = (ph', g', w')" by (metis prod_cases3)
  have turn: "race_turn e svc cmds i c = \<lparr>ra_phases = (ra_phases c)[i := ph'], ra_gen = g', ra_store = w'\<rparr>"
    by (simp add: race_turn_def step)
  from step invc ph [OF assms(3)] show ?thesis
  proof (cases rule: record_step_effect)
    case keeps
    then have "race_inv v0 cmds ns (race_turn e svc cmds i c)"
      using mv ph pb len assms(3) by (auto simp: race_inv_def turn nth_list_update)
    then show ?thesis by blast
  next
    case (posts k b p)
    let ?ns = "ns(i := Suc (ns i))"
    have "moved v0 (\<lambda>k. race_posted cmds ns k + posted [p] k) (view w')"
      using moved_trans [OF mv posts(7)] .
    moreover have "(\<lambda>k. race_posted cmds ns k + posted [p] k) = race_posted cmds ?ns"
      using race_posted_next [of i cmds "ns i" ns, OF assms(3) posts(4) refl] posts(5) by (simp add: fun_eq_iff del: posted_simps)
    moreover have "phase_at (view w') (cmds ! j) (ns j) (ra_phases c ! j)" if "j < length cmds" "j \<noteq> i" for j
      using exclusiveD [OF assms(2) _ _ _ posts(2), of j] ph [OF that(1)] that assms(3) len
      by (simp add: posts(3) phase_at_other)
    moreover have "list_all (postable v0) (take (Suc (ns i)) (cmd_legs (cmds ! i)))"
      using pb [OF assms(3)] posts(4-6) postable_moved [OF mv] by (simp add: take_Suc_conv_app_nth)
    ultimately have "race_inv v0 cmds ?ns (race_turn e svc cmds i c)"
      using posts(1,8) pb len assms(3) by (auto simp: race_inv_def turn nth_list_update)
    then show ?thesis by blast
  qed
qed

lemma race_reach_inv:
  assumes "race_reach exclusive e svc cmds g w c" "invar w"
  shows "\<exists>ns. race_inv (view w) cmds ns c"
  using assms(1)
proof (induction rule: race_reach.induct)
  case start
  have "race_posted cmds (\<lambda>_. 0) = (\<lambda>_. 0)" by (simp add: race_posted_def fun_eq_iff)
  then have "race_inv (view w) cmds (\<lambda>_. 0) (race_start cmds g w)"
    using assms(2) by (simp add: race_inv_def race_start_def)
  then show ?case by blast
next
  case (turn c i)
  from turn.IH obtain ns where "race_inv (view w) cmds ns c" ..
  then show ?case using race_inv_turn turn.hyps by blast
qed

text \<open>When all commands have been answered without an error, their legs add up.\<close>

lemma race_all_posted:
  assumes "race_reach exclusive e svc cmds g w c" "invar w"
    and "\<forall>ph\<in>set (ra_phases c). \<exists>tx. ph = Answered (Inr tx)"
  shows "invar (ra_store c)" "moved (view w) (posted (concat (map cmd_legs cmds))) (view (ra_store c))"
    "\<forall>cmd\<in>set cmds. cmd_ok cmd \<and> list_all (postable (view w)) (cmd_legs cmd)"
proof -
  from race_reach_inv [OF assms(1,2)] obtain ns where "race_inv (view w) cmds ns c" ..
  note invc = this [unfolded race_inv_def]
  then show "invar (ra_store c)" by simp
  have complete: "ns i = length (cmd_legs (cmds ! i)) \<and> cmd_ok (cmds ! i)
      \<and> list_all (postable (view w)) (cmd_legs (cmds ! i))" if "i < length cmds" for i
  proof -
    have at: "phase_at (view (ra_store c)) (cmds ! i) (ns i) (ra_phases c ! i)"
      "list_all (postable (view w)) (take (ns i) (cmd_legs (cmds ! i)))" "i < length (ra_phases c)"
      using invc that by simp_all
    then obtain tx where "ra_phases c ! i = Answered (Inr tx)" using assms(3) nth_mem by blast
    with at show ?thesis by (simp add: accepted_def)
  qed
  then show "moved (view w) (posted (concat (map cmd_legs cmds))) (view (ra_store c))"
    using invc race_posted_all [of cmds ns] by simp
  show "\<forall>cmd\<in>set cmds. cmd_ok cmd \<and> list_all (postable (view w)) (cmd_legs cmd)"
    using complete by (metis in_set_conv_nth)
qed

lemma race_conserves:
  assumes "race_reach exclusive e svc cmds g w c" "invar w"
    and "\<forall>ph\<in>set (ra_phases c). \<exists>tx. ph = Answered (Inr tx)"
  shows "total_funds (view (ra_store c)) cur = total_funds (view w) cur"
proof -
  note r = race_all_posted [OF assms]
  have "\<forall>ps\<in>set (map cmd_legs cmds). params_ok ps \<and> list_all (postable (view w)) ps"
    using r(3) by (simp add: cmd_ok_def)
  then show ?thesis using r(2) view_finite [OF assms(2)] by (rule total_conserved_concat)
qed

text \<open>Commands without a common account never get into each other's way.\<close>

lemma apart_exclusive:
  assumes "race_inv v0 cmds ns c" "apart cmds"
  shows "exclusive c"
proof -
  have "writing (ra_phases c ! i) \<noteq> writing (ra_phases c ! j)"
    if "i < length cmds" "j < i" and w: "writing (ra_phases c ! i) = Some k" for i j k
  proof
    assume "writing (ra_phases c ! i) = writing (ra_phases c ! j)"
    with w have w': "writing (ra_phases c ! j) = Some k" by simp
    have "phase_at (view (ra_store c)) (cmds ! i) (ns i) (ra_phases c ! i)"
      "phase_at (view (ra_store c)) (cmds ! j) (ns j) (ra_phases c ! j)"
      using assms(1) that by (simp_all add: race_inv_def)
    from this(1) [THEN phase_at_writing, OF w] this(2) [THEN phase_at_writing, OF w']
    show False using assms(2) that(1,2) unfolding apart_def by metis
  qed
  moreover have "length (ra_phases c) = length cmds" using assms(1) by (simp add: race_inv_def)
  ultimately show ?thesis unfolding exclusive_def unshared_iff by (auto, metis)
qed

lemma apart_reach:
  assumes "race_reach (\<lambda>_. True) e svc cmds g w c" "invar w" "apart cmds"
  shows "race_reach exclusive e svc cmds g w c"
  using assms(1)
proof (induction rule: race_reach.induct)
  case start
  show ?case by (rule race_reach.start)
next
  case (turn c i)
  from race_reach_inv [OF turn.IH assms(2)] apart_exclusive assms(3) have "exclusive c" by blast
  with turn show ?case by (blast intro: race_reach.turn)
qed

end

end
