(* ===== verification/Service_Processes.thy ===== *)
theory Service_Processes
  imports Transfer_Service Record_Interleaving
begin

section \<open>Calls of the service as processes\<close>

text \<open>
  Every request runs in its own goroutine. A call of the service is a process: it has returned, or it
  makes its next call of a port and goes on with what comes back. Reading the clock and drawing
  identifiers happens together with the call of a port that follows, or in a step of its own. Run
  without interruption, the processes are the methods of the service.
\<close>

datatype ('w, 'a) proc = Return 'a | Call "gen \<Rightarrow> 'w \<Rightarrow> ('w, 'a) proc \<times> gen \<times> 'w"

primrec bind_proc :: "('w, 'a) proc \<Rightarrow> ('a \<Rightarrow> ('w, 'b) proc) \<Rightarrow> ('w, 'b) proc" where
  "bind_proc (Return a) k = k a"
| "bind_proc (Call f) k = Call (\<lambda>g w. map_prod (\<lambda>p. bind_proc p k) id (f g w))"

primrec run_proc :: "('w, 'a) proc \<Rightarrow> gen \<Rightarrow> 'w \<Rightarrow> 'a \<times> gen \<times> 'w" where
  "run_proc (Return a) = (\<lambda>g w. (a, g, w))"
| "run_proc (Call f) = (\<lambda>g w. case map_prod run_proc id (f g w) of (h, g1, w1) \<Rightarrow> h g1 w1)"

lemma bind_Call [code]:
  "bind_proc (Call f) k = Call (\<lambda>g w. case f g w of (p, g1, w1) \<Rightarrow> (bind_proc p k, g1, w1))"
  by (auto simp: fun_eq_iff split: prod.splits)

lemma run_Call [code]: "run_proc (Call f) g w = (case f g w of (p, g1, w1) \<Rightarrow> run_proc p g1 w1)"
  by (simp split: prod.splits)

declare bind_proc.simps(2) [simp del, code del] run_proc.simps(2) [simp del, code del]
declare bind_Call [simp] run_Call [simp]

lemma proc_induct [case_names Return Call, induct type: proc]:
  assumes "\<And>a. P (Return a)" "\<And>f. (\<And>g w p g1 w1. f g w = (p, g1, w1) \<Longrightarrow> P p) \<Longrightarrow> P (Call f)"
  shows "P p"
proof (induction p rule: proc.induct)
  case (Call f)
  show ?case
  proof (rule assms(2))
    fix g w p g1 w1 assume "f g w = (p, g1, w1)"
    then have "p \<in> Basic_BNFs.fsts (f g w)" by simp
    then show "P p" using Call.IH [of "f g" "f g w"] by blast
  qed
qed (rule assms(1))

lemma run_bind [simp]:
  "run_proc (bind_proc p k) g w = (case run_proc p g w of (a, g1, w1) \<Rightarrow> run_proc (k a) g1 w1)"
proof (induction p arbitrary: g w)
  case (Call f)
  obtain p g1 w1 where step: "f g w = (p, g1, w1)" by (metis prod_cases3)
  from Call.IH [OF this] show ?case by (simp add: step)
qed simp

lemma bind_assoc: "bind_proc (bind_proc p k) l = bind_proc p (\<lambda>x. bind_proc (k x) l)"
proof (induction p)
  case (Call f)
  then show ?case by (auto simp: fun_eq_iff split: prod.splits)
qed simp

subsection \<open>Steps\<close>

definition act :: "(gen \<Rightarrow> 'w \<Rightarrow> 'a \<times> gen \<times> 'w) \<Rightarrow> ('w, 'a) proc" where
  "act f = Call (\<lambda>g w. case f g w of (x, g1, w1) \<Rightarrow> (Return x, g1, w1))"

definition port :: "('w \<Rightarrow> 'a \<times> 'w) \<Rightarrow> ('w, 'a) proc" where
  "port f = act (\<lambda>g w. case f w of (x, w1) \<Rightarrow> (x, g, w1))"

definition draw :: "(gen \<Rightarrow> 'a \<times> gen) \<Rightarrow> ('w, 'a) proc" where
  "draw f = act (\<lambda>g w. case f g of (x, g1) \<Rightarrow> (x, g1, w))"

text \<open>Go's pattern of returning a wrapped error.\<close>

definition and_then :: "('w, error + 'a) proc \<Rightarrow> (error \<Rightarrow> error) \<Rightarrow> ('a \<Rightarrow> ('w, error + 'b) proc) \<Rightarrow> ('w, error + 'b) proc"
where
  "and_then p m k = bind_proc p (\<lambda>r. case r of Inl err \<Rightarrow> Return (Inl (m err)) | Inr x \<Rightarrow> k x)"

lemma run_act [simp]: "run_proc (act f) g w = f g w"
  by (simp add: act_def split: prod.splits)

lemma run_port [simp]: "run_proc (port f) g w = (case f w of (x, w1) \<Rightarrow> (x, g, w1))"
  by (simp add: port_def)

lemma run_draw [simp]: "run_proc (draw f) g w = (case f g of (x, g1) \<Rightarrow> (x, g1, w))"
  by (simp add: draw_def)

lemma run_and_then [simp]:
  "run_proc (and_then p m k) g w = (case run_proc p g w of
     (Inl err, g1, w1) \<Rightarrow> (Inl (m err), g1, w1) | (Inr x, g1, w1) \<Rightarrow> run_proc (k x) g1 w1)"
  by (simp add: and_then_def split: sum.splits prod.splits)

subsection \<open>The methods of the service\<close>

definition find_leg :: "env \<Rightarrow> 'w LedgerService \<Rightarrow> Entry \<Rightarrow> gen \<Rightarrow> 'w \<Rightarrow> (error + Account) \<times> gen \<times> 'w" where
  "find_leg e s x g w =
     (case acc_FindByID (ls_accounts s) (e_accountID x) w of
        (Inl err, w1) \<Rightarrow> (Inl (Wrap (''find account '' @ AccountID_String e (e_accountID x)) err), g, w1)
      | (Inr acc, w1) \<Rightarrow>
          (case apply_leg e x acc g of
             (Inl err, g1) \<Rightarrow>
               (Inl (Wrap (''apply '' @ EntryType_string (e_entryType x) @ '' to account '' @
                  AccountID_String e (e_accountID x)) err), g1, w1)
           | (Inr acc', g1) \<Rightarrow> (Inr acc', g1, w1)))"

fun legs_proc :: "env \<Rightarrow> 'w LedgerService \<Rightarrow> Entry list \<Rightarrow> ('w, error + unit) proc" where
  "legs_proc e s [] = Return (Inr ())"
| "legs_proc e s (x # xs) =
     and_then (act (find_leg e s x)) id (\<lambda>acc.
     and_then (port (acc_Save (ls_accounts s) acc)) (Wrap (''save account '' @ AccountID_String e (e_accountID x))) (\<lambda>_.
     legs_proc e s xs))"

definition emit_recorded ::
  "env \<Rightarrow> 'w LedgerService \<Rightarrow> RecordTransactionCmd \<Rightarrow> Transaction \<Rightarrow> gen \<Rightarrow> 'w \<Rightarrow>
   (error + TransactionRecordedEvent) \<times> gen \<times> 'w" where
  "emit_recorded e s cmd tx g w =
     (let (now, g1) = time_Now e g;
          event = \<lparr>tr_ID = '''', tr_TransactionID = TransactionID_String e (tx_id tx),
                   tr_Entries = map (entry_data e) (Transaction_Entries tx),
                   tr_Description = rc_Description cmd, tr_Timestamp = now\<rparr>
      in (case appendEvent e s (TransactionID_String e (tx_id tx)) ''transaction'' 0 (TransactionRecorded event) w of
            (Inl err, w1) \<Rightarrow> (Inl err, g1, w1)
          | (Inr _, w1) \<Rightarrow> (Inr event, g1, w1)))"

definition project_with :: "'w LedgerService \<Rightarrow> ('w Projector \<Rightarrow> 'w \<Rightarrow> (error + unit) \<times> 'w) \<Rightarrow> 'a \<Rightarrow> ('w, error + 'a) proc" where
  "project_with s f x = (case ls_projector s of
     None \<Rightarrow> Return (Inr x) | Some p \<Rightarrow> bind_proc (port (f p)) (\<lambda>_. Return (Inr x)))"

definition RecordTransaction_proc ::
  "env \<Rightarrow> 'w LedgerService \<Rightarrow> RecordTransactionCmd \<Rightarrow> ('w, error + Transaction) proc" where
  "RecordTransaction_proc e s cmd =
     and_then (Return (cmd_params 0 (rc_Entries cmd))) id (\<lambda>params.
     and_then (draw (NewTransaction e params (rc_Description cmd))) (Wrap ''create transaction'') (\<lambda>tx.
     and_then (legs_proc e s (Transaction_Entries tx)) id (\<lambda>_.
     and_then (port (txr_Save (ls_transactions s) tx)) (Wrap ''save transaction'') (\<lambda>_.
     and_then (act (emit_recorded e s cmd tx)) (Wrap ''emit transaction recorded'') (\<lambda>event.
     project_with s (\<lambda>p. pj_ProjectTransactionRecorded p event) tx)))))"

text \<open>The identifier of a new account is drawn in the step that saves it.\<close>

definition save_new ::
  "env \<Rightarrow> 'w LedgerService \<Rightarrow> OpenAccountCmd \<Rightarrow> gen \<Rightarrow> 'w \<Rightarrow> (error + Account) \<times> gen \<times> 'w" where
  "save_new e s cmd g w =
     (case NewAccountWithType e (oc_Name cmd) (accType_of (oc_AccountType cmd)) (oc_Currency cmd) g of
        (Inl err, g1) \<Rightarrow> (Inl (Wrap ''open account'' err), g1, w)
      | (Inr acc, g1) \<Rightarrow>
          (case acc_Save (ls_accounts s) acc w of
             (Inl err, w1) \<Rightarrow> (Inl (Wrap ''save account'' err), g1, w1)
           | (Inr _, w1) \<Rightarrow> (Inr acc, g1, w1)))"

definition emit_opened ::
  "env \<Rightarrow> 'w LedgerService \<Rightarrow> OpenAccountCmd \<Rightarrow> Account \<Rightarrow> gen \<Rightarrow> 'w \<Rightarrow>
   (error + AccountOpenedEvent) \<times> gen \<times> 'w" where
  "emit_opened e s cmd acc g w =
     (let (now, g1) = time_Now e g;
          event = \<lparr>ao_ID = '''', ao_AccountID = AccountID_String e (a_id acc), ao_Name = a_name acc,
                   ao_AccountType = AccountType_string (accType_of (oc_AccountType cmd)),
                   ao_Currency = Currency_string (a_currency acc), ao_Timestamp = now\<rparr>
      in (case appendEvent e s (AccountID_String e (a_id acc)) ''account'' 0 (AccountOpened event) w of
            (Inl err, w1) \<Rightarrow> (Inl err, g1, w1)
          | (Inr _, w1) \<Rightarrow> (Inr event, g1, w1)))"

definition OpenAccount_proc :: "env \<Rightarrow> 'w LedgerService \<Rightarrow> OpenAccountCmd \<Rightarrow> ('w, error + Account) proc" where
  "OpenAccount_proc e s cmd =
     and_then (act (save_new e s cmd)) id (\<lambda>acc.
     and_then (act (emit_opened e s cmd acc)) (Wrap ''emit account opened'') (\<lambda>event.
     project_with s (\<lambda>p. pj_ProjectAccountOpened p event) acc))"

definition system_proc ::
  "env \<Rightarrow> 'w LedgerService \<Rightarrow> string \<Rightarrow> string \<Rightarrow> Currency \<Rightarrow> ('w, error + Account) proc" where
  "system_proc e s name accType c =
     and_then (port (acc_FindAll (ls_accounts s))) id (\<lambda>all.
     case account_named name all of
       Some acc \<Rightarrow> Return (Inr acc)
     | None \<Rightarrow> OpenAccount_proc e s \<lparr>oc_Name = name, oc_AccountType = accType, oc_Currency = c\<rparr>)"

definition suspense_proc :: "env \<Rightarrow> 'w LedgerService \<Rightarrow> Currency \<Rightarrow> ('w, AccountID) proc" where
  "suspense_proc e s c = bind_proc (system_proc e s (suspense_name c) ''LIABILITY'' c)
     (\<lambda>r. Return (case r of Inl _ \<Rightarrow> AccountID 0 | Inr acc \<Rightarrow> a_id acc))"

definition Deposit_proc ::
  "env \<Rightarrow> 'w LedgerService \<Rightarrow> AccountID \<Rightarrow> int64 \<Rightarrow> Currency \<Rightarrow> string \<Rightarrow> ('w, error + unit) proc" where
  "Deposit_proc e s accountID n c description =
     and_then (system_proc e s (equity_name c) ''EQUITY'' c) (Wrap ''get system equity'') (\<lambda>equityAcc.
     and_then (RecordTransaction_proc e s
         \<lparr>rc_Entries =
            [\<lparr>ec_AccountID = a_id equityAcc, ec_Amount = n, ec_Currency = c, ec_Type = Debit\<rparr>,
             \<lparr>ec_AccountID = accountID, ec_Amount = n, ec_Currency = c, ec_Type = Credit\<rparr>],
          rc_Description = description\<rparr>) id (\<lambda>_.
     Return (Inr ())))"

definition compensate_proc ::
  "env \<Rightarrow> 'w LedgerService \<Rightarrow> TransferCmd \<Rightarrow> error \<Rightarrow> Transfer \<Rightarrow> ('w, Transfer option \<times> error option) proc" where
  "compensate_proc e s cmd err saga =
     bind_proc (draw (MarkFailed e (''credit failed: '' @ error_Error err) saga)) (\<lambda>saga1.
     bind_proc (suspense_proc e s (tc_Currency cmd)) (\<lambda>susp.
     bind_proc (RecordTransaction_proc e s
         (two_legs cmd susp (tc_FromAccountID cmd)
            (''Compensation: reverse debit for failed transfer: '' @ tc_Description cmd))) (\<lambda>r.
     case r of
       Inl compErr \<Rightarrow>
         Return (Some saga1, Some (ErrText
           (''CRITICAL: compensation failed after credit failure: credit_err='' @ error_Error err @
            '', comp_err='' @ error_Error compErr)))
     | Inr _ \<Rightarrow>
         bind_proc (draw (MarkCompensated e saga1)) (\<lambda>saga2.
         Return (Some saga2, Some (Wrap ''transfer failed and compensated'' err))))))"

definition mark_step :: "(gen \<Rightarrow> 'e \<times> 't \<times> gen) \<Rightarrow> gen \<Rightarrow> ('e \<times> 't) \<times> gen" where
  "mark_step f g = (case f g of (err, t, g1) \<Rightarrow> ((err, t), g1))"

definition Execute_proc ::
  "env \<Rightarrow> 'w TransferService \<Rightarrow> TransferCmd \<Rightarrow> ('w, Transfer option \<times> error option) proc" where
  "Execute_proc e ts cmd =
     (let s = ts_ledgerSvc ts in
      case NewMoney (tc_Amount cmd) (tc_Currency cmd) of
        Inl err \<Rightarrow> Return (None, Some (Wrap ''invalid amount'' err))
      | Inr money \<Rightarrow>
          bind_proc (draw (NewTransfer e (tc_FromAccountID cmd) (tc_ToAccountID cmd) money (tc_Description cmd))) (\<lambda>r.
          case r of
            Inl err \<Rightarrow> Return (None, Some (Wrap ''create transfer'' err))
          | Inr saga \<Rightarrow>
              bind_proc (suspense_proc e s (tc_Currency cmd)) (\<lambda>susp.
              bind_proc (RecordTransaction_proc e s
                  (two_legs cmd (tc_FromAccountID cmd) susp (''Transfer out: '' @ tc_Description cmd))) (\<lambda>r1.
              case r1 of
                Inl err \<Rightarrow>
                  bind_proc (draw (MarkFailed e (''debit failed: '' @ error_Error err) saga)) (\<lambda>saga1.
                  Return (Some saga1, Some (Wrap ''saga step 1 (debit source)'' err)))
              | Inr _ \<Rightarrow>
                  bind_proc (draw (mark_step (MarkDebited e saga))) (\<lambda>(err1, saga1).
                  case err1 of
                    Some err \<Rightarrow> Return (Some saga1, Some err)
                  | None \<Rightarrow>
                      bind_proc (suspense_proc e s (tc_Currency cmd)) (\<lambda>susp2.
                      bind_proc (RecordTransaction_proc e s
                          (two_legs cmd susp2 (tc_ToAccountID cmd) (''Transfer in: '' @ tc_Description cmd))) (\<lambda>r2.
                      case r2 of
                        Inl err \<Rightarrow> compensate_proc e s cmd err saga1
                      | Inr _ \<Rightarrow>
                          bind_proc (draw (mark_step (MarkCompleted e saga1))) (\<lambda>(err2, saga2).
                          Return (Some saga2, err2)))))))))"

subsection \<open>A process that runs alone is the method\<close>

lemma run_legs: "run_proc (legs_proc e s xs) g w = update_balances e s xs g w"
  by (induction xs arbitrary: g w) (simp_all add: find_leg_def split: sum.splits prod.splits)

lemma run_project:
  "run_proc (project_with s f x) g w = (case ls_projector s of
     None \<Rightarrow> (Inr x, g, w) | Some p \<Rightarrow> (Inr x, g, snd (f p w)))"
  by (simp add: project_with_def split: option.splits prod.splits)

lemma run_record: "run_proc (RecordTransaction_proc e s cmd) g w = RecordTransaction e s cmd g w"
  by (simp add: RecordTransaction_proc_def RecordTransaction_def run_legs run_project emit_recorded_def
      time_Now_def Let_def split: sum.splits prod.splits option.splits)

lemma run_open: "run_proc (OpenAccount_proc e s cmd) g w = OpenAccount e s cmd g w"
  by (simp add: OpenAccount_proc_def OpenAccount_def run_project save_new_def emit_opened_def
      time_Now_def Let_def split: sum.splits prod.splits option.splits)

lemma run_system: "run_proc (system_proc e s name ty c) g w = getOrCreateSystemAccount e s name ty c g w"
  by (simp add: system_proc_def getOrCreateSystemAccount_def run_open split: sum.splits prod.splits option.splits)

lemma run_suspense: "run_proc (suspense_proc e s c) g w = suspenseAccountID e s c g w"
  by (simp add: suspense_proc_def suspenseAccountID_def run_system split: sum.splits prod.splits)

lemma run_deposit: "run_proc (Deposit_proc e s i n c d) g w = Deposit e s i n c d g w"
  by (simp add: Deposit_proc_def Deposit_def getOrCreateSystemEquity_def run_system run_record
      split: sum.splits prod.splits)

lemma run_compensate: "run_proc (compensate_proc e s cmd err saga) g w = compensate e s cmd err saga g w"
  by (simp add: compensate_proc_def compensate_def run_suspense run_record Let_def split: sum.splits prod.splits)

lemma run_execute: "run_proc (Execute_proc e ts cmd) g w = Execute e ts cmd g w"
  by (simp add: Execute_proc_def Execute_def run_suspense run_record run_compensate mark_step_def Let_def
      split: sum.splits prod.splits option.splits)

subsection \<open>Requests\<close>

text \<open>The calls that the handlers make on the two services, and their results.\<close>

datatype service_call =
    CallOpen OpenAccountCmd
  | CallRecord RecordTransactionCmd
  | CallDeposit AccountID int64 Currency string
  | CallTransfer TransferCmd
  | CallAccount AccountID
  | CallBalance AccountID

datatype service_result =
    Opened "error + Account"
  | Recorded "error + Transaction"
  | Deposited "error + unit"
  | Transferred "Transfer option \<times> error option"
  | Found "error + Account"
  | Balance "error + Money"

definition to_result :: "('a \<Rightarrow> service_result) \<Rightarrow> ('w, 'a) proc \<Rightarrow> ('w, service_result) proc" where
  "to_result c p = bind_proc p (\<lambda>x. Return (c x))"

fun call_proc :: "env \<Rightarrow> 'w LedgerService \<Rightarrow> service_call \<Rightarrow> ('w, service_result) proc" where
  "call_proc e s (CallOpen cmd) = to_result Opened (OpenAccount_proc e s cmd)"
| "call_proc e s (CallRecord cmd) = to_result Recorded (RecordTransaction_proc e s cmd)"
| "call_proc e s (CallDeposit i n c d) = to_result Deposited (Deposit_proc e s i n c d)"
| "call_proc e s (CallTransfer cmd) = to_result Transferred (Execute_proc e (NewTransferService s) cmd)"
| "call_proc e s (CallAccount i) = to_result Found (port (GetAccount s i))"
| "call_proc e s (CallBalance i) = to_result Balance (port (GetBalance s i))"

definition with_result :: "('a \<Rightarrow> service_result) \<Rightarrow> 'a \<times> 'g \<times> 'w \<Rightarrow> service_result \<times> 'g \<times> 'w" where
  "with_result c r = (case r of (x, g, w) \<Rightarrow> (c x, g, w))"

fun serve_call :: "env \<Rightarrow> 'w LedgerService \<Rightarrow> service_call \<Rightarrow> gen \<Rightarrow> 'w \<Rightarrow> service_result \<times> gen \<times> 'w" where
  "serve_call e s (CallOpen cmd) g w = with_result Opened (OpenAccount e s cmd g w)"
| "serve_call e s (CallRecord cmd) g w = with_result Recorded (RecordTransaction e s cmd g w)"
| "serve_call e s (CallDeposit i n c d) g w = with_result Deposited (Deposit e s i n c d g w)"
| "serve_call e s (CallTransfer cmd) g w = with_result Transferred (Execute e (NewTransferService s) cmd g w)"
| "serve_call e s (CallAccount i) g w = (case GetAccount s i w of (r, w1) \<Rightarrow> (Found r, g, w1))"
| "serve_call e s (CallBalance i) g w = (case GetBalance s i w of (r, w1) \<Rightarrow> (Balance r, g, w1))"

lemma run_result: "run_proc (to_result c p) g w = with_result c (run_proc p g w)"
  by (simp add: to_result_def with_result_def)

text \<open>Every method of the two services, run as a sequence of port calls that nobody interrupts, is the
  method: the same result, generator and store, for any ports and on every branch.\<close>

lemma processes_alone: "run_proc (call_proc e s c) g w = serve_call e s c g w"
  by (cases c)
    (simp_all add: run_result run_open run_record run_deposit run_execute with_result_def split: prod.splits)

end
