(* ===== verification/Service_Interleaving.thy ===== *)
theory Service_Interleaving
  imports Service_Processes
begin

section \<open>Calls of the service that interleave\<close>

text \<open>
  A rely-guarantee logic for processes, and any number of calls over one store. The locale
  \<open>interference\<close> has the rules of the logic, \<open>service_interference\<close> derives from the steps of the ports
  that every call of the service keeps to its guarantee. It is interpreted for any ports of the
  contract \<open>ledger_ports\<close>, with the guarantee that accounts stay well-formed and keep their identity.
\<close>

subsection \<open>Rely and guarantee\<close>

text \<open>Between two steps of a process the others change the generator and the store as \<open>R\<close> allows; its own
  steps change them as \<open>G\<close> says. \<open>I\<close> holds before and after every step, and \<open>Q\<close> of the value it
  returns.\<close>

inductive keeps :: "(gen \<Rightarrow> 'w \<Rightarrow> bool) \<Rightarrow> (gen \<Rightarrow> 'w \<Rightarrow> gen \<Rightarrow> 'w \<Rightarrow> bool) \<Rightarrow>
    (gen \<Rightarrow> 'w \<Rightarrow> gen \<Rightarrow> 'w \<Rightarrow> bool) \<Rightarrow> ('a \<Rightarrow> gen \<Rightarrow> 'w \<Rightarrow> bool) \<Rightarrow> gen \<Rightarrow> 'w \<Rightarrow> ('w, 'a) proc \<Rightarrow> bool"
  for I R G Q where
  keeps_Return: "Q a g w \<Longrightarrow> keeps I R G Q g w (Return a)"
| keeps_Call: "(\<And>g1 w1 p g2 w2. R g w g1 w1 \<Longrightarrow> I g1 w1 \<Longrightarrow> f g1 w1 = (p, g2, w2) \<Longrightarrow>
      I g2 w2 \<and> G g1 w1 g2 w2 \<and> keeps I R G Q g2 w2 p) \<Longrightarrow> keeps I R G Q g w (Call f)"

inductive_cases keeps_ReturnE [elim!]: "keeps I R G Q g w (Return a)"
inductive_cases keeps_CallE: "keeps I R G Q g w (Call f)"

locale interference =
  fixes I :: "gen \<Rightarrow> 'w \<Rightarrow> bool" and R G :: "gen \<Rightarrow> 'w \<Rightarrow> gen \<Rightarrow> 'w \<Rightarrow> bool"
  assumes R_refl: "R g w g w"
    and R_trans: "R g w g1 w1 \<Longrightarrow> R g1 w1 g2 w2 \<Longrightarrow> R g w g2 w2"
    and G_R: "G g w g1 w1 \<Longrightarrow> R g w g1 w1"
begin

lemma keeps_conseq:
  "keeps I R G Q g w p \<Longrightarrow> (\<And>a g w. Q a g w \<Longrightarrow> Q' a g w) \<Longrightarrow> keeps I R G Q' g w p"
proof (induction rule: keeps.induct)
  case (keeps_Call g w f)
  show ?case by (rule keeps.keeps_Call) (use keeps_Call in blast)
qed (blast intro: keeps_Return)

lemma keeps_bind:
  assumes "keeps I R G Q g w p" "I g w"
    and "\<And>a g1 w1. R g w g1 w1 \<Longrightarrow> I g1 w1 \<Longrightarrow> Q a g1 w1 \<Longrightarrow> keeps I R G Q' g1 w1 (k a)"
  shows "keeps I R G Q' g w (bind_proc p k)"
  using assms
proof (induction rule: keeps.induct)
  case (keeps_Return a g w)
  then show ?case using R_refl by simp
next
  case (keeps_Call g w f)
  show ?case
    unfolding bind_Call
  proof (rule keeps.keeps_Call)
    fix g1 w1 p g2 w2
    assume R: "R g w g1 w1" and I: "I g1 w1"
      and step: "(case f g1 w1 of (p, g2, w2) \<Rightarrow> (bind_proc p k, g2, w2)) = (p, g2, w2)"
    obtain p0 where f: "f g1 w1 = (p0, g2, w2)" "p = bind_proc p0 k"
      using step by (cases "f g1 w1") auto
    from keeps_Call(1) [OF R I f(1)] have IH: "I g2 w2" "G g1 w1 g2 w2"
      "(\<And>a g1 w1. R g2 w2 g1 w1 \<Longrightarrow> I g1 w1 \<Longrightarrow> Q a g1 w1 \<Longrightarrow> keeps I R G Q' g1 w1 (k a)) \<Longrightarrow>
        keeps I R G Q' g2 w2 (bind_proc p0 k)" by blast+
    have "R g w g2 w2" using R_trans [OF R G_R [OF IH(2)]] .
    then show "I g2 w2 \<and> G g1 w1 g2 w2 \<and> keeps I R G Q' g2 w2 p"
      using IH keeps_Call(3) R_trans by (auto simp: f(2))
  qed
qed

lemma keeps_act:
  assumes "\<And>g1 w1 x g2 w2. R g w g1 w1 \<Longrightarrow> I g1 w1 \<Longrightarrow> f g1 w1 = (x, g2, w2) \<Longrightarrow>
      I g2 w2 \<and> G g1 w1 g2 w2 \<and> Q x g2 w2"
  shows "keeps I R G Q g w (act f)"
  unfolding act_def
proof (rule keeps.keeps_Call)
  fix g1 w1 g2 w2 and p :: "('w, _) proc"
  assume "R g w g1 w1" "I g1 w1" "(case f g1 w1 of (x, g2, w2) \<Rightarrow> (Return x, g2, w2)) = (p, g2, w2)"
  with assms [of g1 w1] show "I g2 w2 \<and> G g1 w1 g2 w2 \<and> keeps I R G Q g2 w2 p"
    by (auto split: prod.splits intro: keeps_Return)
qed

lemma keeps_port:
  assumes "\<And>g1 w1 x w2. R g w g1 w1 \<Longrightarrow> I g1 w1 \<Longrightarrow> f w1 = (x, w2) \<Longrightarrow> I g1 w2 \<and> G g1 w1 g1 w2 \<and> Q x g1 w2"
  shows "keeps I R G Q g w (port f)"
  unfolding port_def using assms by (intro keeps_act) (auto split: prod.splits)

lemma keeps_draw:
  assumes "\<And>g1 w1 x g2. R g w g1 w1 \<Longrightarrow> I g1 w1 \<Longrightarrow> f g1 = (x, g2) \<Longrightarrow> I g2 w1 \<and> G g1 w1 g2 w1 \<and> Q x g2 w1"
  shows "keeps I R G Q g w (draw f)"
  unfolding draw_def using assms by (intro keeps_act) (auto split: prod.splits)

abbreviation kept :: "gen \<Rightarrow> 'w \<Rightarrow> ('w, 'a) proc \<Rightarrow> bool" where
  "kept \<equiv> keeps I R G (\<lambda>_ _ _. True)"

lemma kept_bind:
  assumes "I g w" "kept g w p" "\<And>a g w. I g w \<Longrightarrow> kept g w (k a)"
  shows "kept g w (bind_proc p k)"
  using keeps_bind [OF assms(2,1)] assms(3) by blast

lemma kept_then:
  assumes "I g w" "kept g w p" "\<And>x g w. I g w \<Longrightarrow> kept g w (k x)"
  shows "kept g w (and_then p m k)"
  unfolding and_then_def using assms by (intro kept_bind) (auto intro: keeps_Return split: sum.splits)

lemma keeps_then:
  assumes "keeps I R G (\<lambda>r g w. case r of Inl err \<Rightarrow> True | Inr x \<Rightarrow> Q x g w) g w p" "I g w"
    and "\<And>x g1 w1. R g w g1 w1 \<Longrightarrow> I g1 w1 \<Longrightarrow> Q x g1 w1 \<Longrightarrow> keeps I R G (\<lambda>_ _ _. True) g1 w1 (k x)"
  shows "keeps I R G (\<lambda>_ _ _. True) g w (and_then p m k)"
  unfolding and_then_def
  by (rule keeps_bind [OF assms(1,2)]) (auto split: sum.splits intro: keeps_Return assms(3))

text \<open>What the others do while the process waits.\<close>

lemma keeps_later:
  "keeps I R G (\<lambda>_ _ _. True) g w p \<Longrightarrow> R g w g1 w1 \<Longrightarrow> keeps I R G (\<lambda>_ _ _. True) g1 w1 p"
  by (cases p) (auto intro: keeps_Return intro!: keeps.keeps_Call elim!: keeps_CallE dest: R_trans)

end

subsection \<open>Calls of the service\<close>

text \<open>What is asked of the steps of the ports, and what follows for all calls.\<close>

locale service_interference = interference I R G
  for I :: "gen \<Rightarrow> 'w \<Rightarrow> bool" and R G :: "gen \<Rightarrow> 'w \<Rightarrow> gen \<Rightarrow> 'w \<Rightarrow> bool" +
  fixes e :: env and svc :: "'w LedgerService"
  assumes draws: "I g w \<Longrightarrow> drawn g \<le> drawn g' \<Longrightarrow> I g' w \<and> G g w g' w"
    and legs: "I g w \<Longrightarrow> keeps I R G (\<lambda>_ _ _. True) g w (legs_proc e svc xs)"
    and new: "I g w \<Longrightarrow> keeps I R G (\<lambda>_ _ _. True) g w (act (save_new e svc ocmd))"
    and tx: "I g w \<Longrightarrow> keeps I R G (\<lambda>_ _ _. True) g w (port (txr_Save (ls_transactions svc) t))"
    and recorded: "I g w \<Longrightarrow> keeps I R G (\<lambda>_ _ _. True) g w (act (emit_recorded e svc rcmd t))"
    and opened: "I g w \<Longrightarrow> keeps I R G (\<lambda>_ _ _. True) g w (act (emit_opened e svc ocmd a))"
    and projects: "I g w \<Longrightarrow> ls_projector svc = Some p \<Longrightarrow>
        keeps I R G (\<lambda>_ _ _. True) g w (port (pj_ProjectTransactionRecorded p tr))
        \<and> keeps I R G (\<lambda>_ _ _. True) g w (port (pj_ProjectAccountOpened p ao))"
    and finds: "I g w \<Longrightarrow> keeps I R G (\<lambda>_ _ _. True) g w (port (acc_FindByID (ls_accounts svc) i))"
    and lists: "I g w \<Longrightarrow> keeps I R G (\<lambda>_ _ _. True) g w (port (acc_FindAll (ls_accounts svc)))"
begin

lemma kept_draw: "(\<And>g x g'. f g = (x, g') \<Longrightarrow> drawn g \<le> drawn g') \<Longrightarrow> kept g w (draw f)"
  using draws by (intro keeps_draw) blast

lemma kept_project:
  assumes "I g w" "\<And>p. ls_projector svc = Some p \<Longrightarrow> kept g w (port (f p))"
  shows "kept g w (project_with svc f x)"
  using assms by (auto simp: project_with_def keeps_Return intro!: kept_bind split: option.splits)

lemma kept_record: "I g w \<Longrightarrow> kept g w (RecordTransaction_proc e svc cmd)"
  unfolding RecordTransaction_proc_def
  by (intro kept_then legs tx recorded kept_project kept_draw) (auto simp: keeps_Return dest: NewTransaction_drawn projects)

lemma kept_open: "I g w \<Longrightarrow> kept g w (OpenAccount_proc e svc cmd)"
  unfolding OpenAccount_proc_def
  by (intro kept_then new opened kept_project) (auto dest: projects)

lemma kept_system: "I g w \<Longrightarrow> kept g w (system_proc e svc name ty c)"
  unfolding system_proc_def by (intro kept_then lists) (auto simp: keeps_Return kept_open split: option.splits)

lemma kept_suspense: "I g w \<Longrightarrow> kept g w (suspense_proc e svc c)"
  unfolding suspense_proc_def by (intro kept_bind kept_system) (simp_all add: keeps_Return)

lemma kept_deposit: "I g w \<Longrightarrow> kept g w (Deposit_proc e svc i n c d)"
  unfolding Deposit_proc_def by (intro kept_then kept_system kept_record) (simp_all add: keeps_Return)

lemma kept_marks:
  shows "kept g w (draw (NewTransfer e' src dst m d))" "kept g w (draw (MarkFailed e' reason t))"
    "kept g w (draw (MarkCompensated e' t))" "kept g w (draw (mark_step (MarkDebited e' t)))"
    "kept g w (draw (mark_step (MarkCompleted e' t)))"
  by (rule kept_draw, auto simp: mark_step_def dest: saga_drawn split: prod.splits)+

lemma kept_compensate: "I g w \<Longrightarrow> kept g w (compensate_proc e svc cmd err saga)"
  unfolding compensate_proc_def
  by (auto split: sum.splits intro!: kept_bind keeps_Return kept_suspense kept_record kept_marks)

lemma kept_execute: "I g w \<Longrightarrow> kept g w (Execute_proc e (NewTransferService svc) cmd)"
  unfolding Execute_proc_def Let_def NewTransferService_def TransferService.simps
  by (auto split: sum.splits option.splits prod.splits
      intro!: kept_bind keeps_Return kept_suspense kept_record kept_compensate kept_marks)

lemma kept_balance: "I g w \<Longrightarrow> kept g w (port (GetBalance svc i))"
proof -
  assume inv: "I g w"
  have "port (GetBalance svc i) = bind_proc (port (acc_FindByID (ls_accounts svc) i))
      (\<lambda>r. Return (case r of Inl err \<Rightarrow> Inl (Wrap ''get balance'' err) | Inr acc \<Rightarrow> Inr (a_balance acc)))"
    by (auto simp: port_def act_def GetBalance_def fun_eq_iff split: prod.splits sum.splits)
  then show ?thesis using inv by (auto intro!: kept_bind finds keeps_Return)
qed

lemma kept_call: "I g w \<Longrightarrow> kept g w (call_proc e svc c)"
proof -
  assume inv: "I g w"
  have res: "kept g w (to_result C p)" if "kept g w p" for C and p :: "('w, 'b) proc"
    unfolding to_result_def using that inv by (intro kept_bind) (simp_all add: keeps_Return)
  have "GetAccount svc i = acc_FindByID (ls_accounts svc) i" for i by (simp add: GetAccount_def fun_eq_iff)
  then show ?thesis
    using inv by (cases c)
      (auto intro!: res kept_open kept_record kept_deposit kept_execute kept_balance finds)
qed

end

subsection \<open>Any number of calls\<close>

record ('w, 'a) serving =
  sv_procs :: "('w, 'a) proc list"
  sv_gen :: gen
  sv_store :: 'w

fun proc_step :: "('w, 'a) proc \<Rightarrow> gen \<Rightarrow> 'w \<Rightarrow> ('w, 'a) proc \<times> gen \<times> 'w" where
  "proc_step (Return a) g w = (Return a, g, w)"
| "proc_step (Call f) g w = f g w"

definition serving_turn :: "nat \<Rightarrow> ('w, 'a) serving \<Rightarrow> ('w, 'a) serving" where
  "serving_turn i c =
     (if i < length (sv_procs c)
      then (case proc_step (sv_procs c ! i) (sv_gen c) (sv_store c) of
              (p, g, w) \<Rightarrow> \<lparr>sv_procs = (sv_procs c)[i := p], sv_gen = g, sv_store = w\<rparr>)
      else c)"

definition serving_arrive :: "('w, 'a) proc \<Rightarrow> ('w, 'a) serving \<Rightarrow> ('w, 'a) serving" where
  "serving_arrive p c = c\<lparr>sv_procs := sv_procs c @ [p]\<rparr>"

lemma serving_arrive_simps [simp]:
  "sv_procs (serving_arrive p c) = sv_procs c @ [p]" "sv_gen (serving_arrive p c) = sv_gen c"
  "sv_store (serving_arrive p c) = sv_store c"
  by (simp_all add: serving_arrive_def)

context interference
begin

definition serving_ok :: "('w, 'a) serving \<Rightarrow> bool" where
  "serving_ok c \<longleftrightarrow> I (sv_gen c) (sv_store c) \<and> (\<forall>p\<in>set (sv_procs c). kept (sv_gen c) (sv_store c) p)"

lemma serving_ok_arrive:
  "serving_ok c \<Longrightarrow> (I (sv_gen c) (sv_store c) \<Longrightarrow> kept (sv_gen c) (sv_store c) p) \<Longrightarrow> serving_ok (serving_arrive p c)"
  by (auto simp: serving_ok_def)

text \<open>A step of something else that keeps to what the processes rely on.\<close>

lemma serving_ok_env:
  "serving_ok c \<Longrightarrow> R (sv_gen c) (sv_store c) g w \<Longrightarrow> I g w \<Longrightarrow> serving_ok (c\<lparr>sv_gen := g, sv_store := w\<rparr>)"
  by (auto simp: serving_ok_def keeps_later)

lemma serving_ok_turn:
  assumes "serving_ok c" and "c' = serving_turn i c"
  shows "serving_ok c' \<and> (sv_gen c' = sv_gen c \<and> sv_store c' = sv_store c
    \<or> G (sv_gen c) (sv_store c) (sv_gen c') (sv_store c'))"
proof (cases "i < length (sv_procs c)")
  case True
  have at: "sv_procs c ! i \<in> set (sv_procs c)" using True by simp
  show ?thesis
  proof (cases "sv_procs c ! i")
    case (Return r)
    with True have "c' = c" by (simp add: assms(2) serving_turn_def list_update_same_conv)
    with assms(1) show ?thesis by simp
  next
    case (Call f)
    obtain p g w where f: "f (sv_gen c) (sv_store c) = (p, g, w)" by (metis prod_cases3)
    have c': "c' = \<lparr>sv_procs = (sv_procs c)[i := p], sv_gen = g, sv_store = w\<rparr>"
      using True by (simp add: assms(2) serving_turn_def Call f)
    have inv: "I (sv_gen c) (sv_store c)" and "kept (sv_gen c) (sv_store c) (Call f)"
      using assms(1) at Call by (auto simp: serving_ok_def)
    then have step: "I g w \<and> G (sv_gen c) (sv_store c) g w \<and> kept g w p"
      using f R_refl by (blast elim: keeps_CallE)
    have "kept g w q" if "q \<in> set (sv_procs c)" for q
      by (rule keeps_later [of "sv_gen c" "sv_store c"]) (use that assms(1) G_R step in \<open>auto simp: serving_ok_def\<close>)
    with step have "\<forall>q\<in>set ((sv_procs c)[i := p]). kept g w q"
      using set_update_subset_insert [of "sv_procs c" i p] by blast
    with step show ?thesis by (simp add: c' serving_ok_def)
  qed
qed (use assms in \<open>simp add: serving_turn_def\<close>)

end

subsection \<open>Every account keeps its identity\<close>

definition evolves :: "(AccountID \<rightharpoonup> Account) \<Rightarrow> (AccountID \<rightharpoonup> Account) \<Rightarrow> bool" where
  "evolves v v' \<longleftrightarrow> (\<forall>i a. v i = Some a \<longrightarrow> (\<exists>b. v' i = Some b \<and> same_identity b a))"

text \<open>An account that may be saved: well-formed, and the stored one with its identifier has its identity.\<close>

definition identified :: "(AccountID \<rightharpoonup> Account) \<Rightarrow> Account \<Rightarrow> bool" where
  "identified v b \<longleftrightarrow> Account_ok b \<and> (\<exists>a. v (a_id b) = Some a \<and> same_identity b a)"

lemma evolves_refl [simp]: "evolves v v"
  by (auto simp: evolves_def same_identity_def)

lemma evolves_trans: "evolves v v1 \<Longrightarrow> evolves v1 v2 \<Longrightarrow> evolves v v2"
proof -
  assume v: "evolves v v1" "evolves v1 v2"
  have trans: "same_identity c b \<Longrightarrow> same_identity b a \<Longrightarrow> same_identity c a" for a b c
    by (simp add: same_identity_def)
  show ?thesis
    unfolding evolves_def
  proof (intro allI impI)
    fix i a assume "v i = Some a"
    with v(1) obtain b where "v1 i = Some b" "same_identity b a" by (auto simp: evolves_def)
    moreover from v(2) this(1) obtain c where "v2 i = Some c" "same_identity c b" by (auto simp: evolves_def)
    ultimately show "\<exists>b. v2 i = Some b \<and> same_identity b a" using trans by blast
  qed
qed

lemma evolves_new: "v i = None \<Longrightarrow> evolves v (v(i \<mapsto> a))"
  by (auto simp: evolves_def same_identity_def)

lemma identified_evolves:
  assumes "identified v b" "evolves v v'"
  shows "identified v' b"
proof -
  from assms(1) obtain a where a: "Account_ok b" "v (a_id b) = Some a" "same_identity b a"
    by (auto simp: identified_def)
  with assms(2) obtain a' where "v' (a_id b) = Some a'" "same_identity a' a" unfolding evolves_def by blast
  with a show ?thesis by (auto simp: identified_def same_identity_def)
qed

text \<open>The generator has not given out an identifier twice.\<close>

definition fresh_ids :: "env \<Rightarrow> nat \<Rightarrow> gen \<Rightarrow> bool" where
  "fresh_ids e N g \<longleftrightarrow> uuid_unique e N \<and> drawn g < N"

lemma fresh_ids_mono: "fresh_ids e N g' \<Longrightarrow> drawn g \<le> drawn g' \<Longrightarrow> fresh_ids e N g"
  by (simp add: fresh_ids_def)

context ledger_ports
begin

definition accounts_inv :: "env \<Rightarrow> nat \<Rightarrow> gen \<Rightarrow> 'w \<Rightarrow> bool" where
  "accounts_inv e N g w \<longleftrightarrow> (fresh_ids e N g \<longrightarrow> invar w \<and> ids_drawn e g (view w))"

definition accounts_rely :: "env \<Rightarrow> nat \<Rightarrow> gen \<Rightarrow> 'w \<Rightarrow> gen \<Rightarrow> 'w \<Rightarrow> bool" where
  "accounts_rely e N g w g' w' \<longleftrightarrow> drawn g \<le> drawn g' \<and> (fresh_ids e N g' \<longrightarrow> evolves (view w) (view w'))"

lemma frame_step:
  assumes "accounts_inv e N g w" "drawn g \<le> drawn g'" "invar w \<Longrightarrow> invar w' \<and> view w' = view w"
  shows "accounts_inv e N g' w' \<and> accounts_rely e N g w g' w'"
  using assms ids_drawn_mono [of e g "view w" "view w'" g'] fresh_ids_mono [of e N g' g]
  by (auto simp: accounts_inv_def accounts_rely_def)

lemma find_leg_step:
  assumes "accounts_inv e N g w" "find_leg e svc x g w = (r, g', w')"
  shows "accounts_inv e N g' w' \<and> accounts_rely e N g w g' w'
    \<and> (\<forall>b. r = Inr b \<longrightarrow> fresh_ids e N g' \<longrightarrow> identified (view w') b)"
proof -
  obtain r1 w1 where find: "acc_FindByID (ls_accounts svc) (e_accountID x) w = (r1, w1)" by fastforce
  have w': "w' = w1" and drawn: "drawn g' = drawn g"
    using assms(2) by (auto simp: find_leg_def find dest: apply_leg_drawn split: sum.splits prod.splits)
  have "identified (view w') b" if "r = Inr b" "fresh_ids e N g'" for b
  proof -
    from that assms(2) obtain acc where acc: "r1 = Inr acc" "apply_leg e x acc g = (Inr b, g')"
      by (auto simp: find_leg_def find split: sum.splits prod.splits)
    have inv: "invar w" using assms(1) fresh_ids_mono [OF that(2), of g] drawn by (simp add: accounts_inv_def)
    from find_ok [OF inv] find acc(1) have v: "view w (e_accountID x) = Some acc" by simp
    from view_account [OF inv v] have ok: "Account_ok acc" "a_id acc = e_accountID x" by simp_all
    from apply_leg_InrD(1,2) [OF acc(2) ok(1)] v ok(2) find_frame [OF inv find] show ?thesis
      by (auto simp: identified_def same_identity_def w')
  qed
  with frame_step [OF assms(1), of g' w'] find_frame [OF _ find] drawn w' show ?thesis by simp
qed

lemma save_leg_step:
  assumes "accounts_inv e N g w" "fresh_ids e N g \<longrightarrow> identified (view w) b"
    and "acc_Save (ls_accounts svc) b w = (r, w')"
  shows "accounts_inv e N g w' \<and> accounts_rely e N g w g w'"
proof (cases "fresh_ids e N g")
  case True
  with assms(1) have inv: "invar w" "ids_drawn e g (view w)" by (simp_all add: accounts_inv_def)
  from True assms(2) obtain a where ok: "Account_ok b" and a: "view w (a_id b) = Some a" "same_identity b a"
    by (auto simp: identified_def)
  show ?thesis
  proof (cases r)
    case (Inl err)
    with assms(3) save_err [OF inv(1)] have "invar w'" "view w' = view w" by blast+
    with frame_step [OF assms(1), of g w'] show ?thesis by simp
  next
    case (Inr u)
    have "keeps_identity b (view w (a_id b))" using a by (simp add: keeps_identity_def)
    from save_ok [OF inv(1) ok this assms(3) [unfolded Inr]]
    have w': "invar w'" "view w' = (view w)(a_id b \<mapsto> stored b)" by simp_all
    have "same_identity (stored b) a"
      using a stored_created [OF inv(1) a(1), of b] by (simp add: same_identity_def stored_fields)
    with a(1) have "evolves (view w) (view w')"
      unfolding w'(2) by (auto simp: evolves_def same_identity_def)
    moreover have "ids_drawn e g (view w')" using inv(2) a(1) by (auto simp: ids_drawn_def w'(2))
    ultimately show ?thesis using w'(1) by (simp add: accounts_inv_def accounts_rely_def)
  qed
qed (simp add: accounts_inv_def accounts_rely_def)

lemma save_new_step:
  assumes "accounts_inv e N g w" "save_new e svc cmd g w = (r, g', w')"
  shows "accounts_inv e N g' w' \<and> accounts_rely e N g w g' w'"
proof -
  obtain r1 g1 where new: "NewAccountWithType e (oc_Name cmd) (accType_of (oc_AccountType cmd))
      (oc_Currency cmd) g = (r1, g1)" by fastforce
  show ?thesis
  proof (cases r1)
    case (Inl err)
    with assms(2) new have "w' = w" "drawn g \<le> drawn g'"
      by (auto simp: save_new_def NewAccountWithType_Inl_iff)
    with frame_step [OF assms(1)] show ?thesis by simp
  next
    case acc: (Inr acc)
    have a: "a_id acc = AccountID (uuid_seq e (drawn g))" "Account_ok acc" "drawn g1 = Suc (drawn g)"
      using new [unfolded acc NewAccountWithType_Inr_iff] by (auto simp: Account_ok_def)
    obtain r2 w1 where save: "acc_Save (ls_accounts svc) acc w = (r2, w1)" by fastforce
    have g': "drawn g' = Suc (drawn g)" and w': "w' = w1"
      using assms(2) a(3) by (auto simp: save_new_def new acc save split: sum.splits)
    show ?thesis
    proof (cases "fresh_ids e N g' \<and> r2 = Inr ()")
      case False
      with save_err [of w acc _ w1] save have "fresh_ids e N g' \<Longrightarrow> invar w \<Longrightarrow> invar w' \<and> view w' = view w"
        by (cases r2) (auto simp: w')
      with frame_step [OF assms(1), of g' w'] g' show ?thesis
        by (cases "fresh_ids e N g'") (auto simp: accounts_inv_def accounts_rely_def)
    next
      case True
      then have inv: "invar w" "ids_drawn e g (view w)" using assms(1) g' fresh_ids_mono [of e N g' g] by (simp_all add: accounts_inv_def)
      from ids_drawn_fresh [OF inv(2), of N] True g' a(1) have none: "view w (a_id acc) = None"
        by (auto simp: fresh_ids_def)
      from save_ok [OF inv(1) a(2) _ save [unfolded conjunct2 [OF True]]] none
      have w1: "invar w1" "view w1 = (view w)(a_id acc \<mapsto> stored acc)" by (simp_all add: keeps_identity_def)
      have "ids_drawn e g' (view w1)" using inv(2) a(1) g' by (auto simp: w1(2) ids_drawn_def less_Suc_eq)
      with w1 none g' show ?thesis by (simp add: accounts_inv_def accounts_rely_def w' evolves_new)
    qed
  qed
qed

end

context ledger_ports
begin

abbreviation kept :: "env \<Rightarrow> nat \<Rightarrow> gen \<Rightarrow> 'w \<Rightarrow> ('w, 'a) proc \<Rightarrow> bool" where
  "kept e N \<equiv> keeps (accounts_inv e N) (accounts_rely e N) (accounts_rely e N) (\<lambda>_ _ _. True)"

lemma accounts_interference: "interference (accounts_rely e N) (accounts_rely e N)"
  by unfold_locales (auto simp: accounts_rely_def intro: evolves_trans fresh_ids_mono)

lemmas accounts_act = interference.keeps_act [OF accounts_interference]
  and accounts_port = interference.keeps_port [OF accounts_interference]
  and accounts_then = interference.keeps_then [OF accounts_interference]

lemma kept_frame_act:
  assumes "\<And>g w x g' w'. f g w = (x, g', w') \<Longrightarrow> drawn g \<le> drawn g' \<and> (invar w \<longrightarrow> invar w' \<and> view w' = view w)"
  shows "kept e N g w (act f)"
  using assms frame_step by (intro accounts_act) blast

lemma kept_frame_port:
  assumes "\<And>w x w'. invar w \<Longrightarrow> f w = (x, w') \<Longrightarrow> invar w' \<and> view w' = view w"
  shows "kept e N g w (port f)"
  unfolding port_def using assms by (intro kept_frame_act) (auto split: prod.splits)

lemma kept_legs: "accounts_inv e N g w \<Longrightarrow> kept e N g w (legs_proc e svc xs)"
proof (induction xs arbitrary: g w)
  case Nil
  show ?case by (simp add: keeps_Return)
next
  case (Cons x xs)
  show ?case
    unfolding legs_proc.simps
  proof (rule accounts_then [where I = "accounts_inv e N" and Q = "\<lambda>b g w. fresh_ids e N g \<longrightarrow> identified (view w) b",
        OF accounts_act Cons.prems])
    fix g1 w1 r g2 w2 assume "accounts_inv e N g1 w1" "find_leg e svc x g1 w1 = (r, g2, w2)"
    from find_leg_step [OF this]
    show "accounts_inv e N g2 w2 \<and> accounts_rely e N g1 w1 g2 w2 \<and>
        (case r of Inl err \<Rightarrow> True | Inr b \<Rightarrow> fresh_ids e N g2 \<longrightarrow> identified (view w2) b)"
      by (auto split: sum.splits)
  next
    fix b g1 w1
    assume inv: "accounts_inv e N g1 w1" and b: "fresh_ids e N g1 \<longrightarrow> identified (view w1) b"
    have "fresh_ids e N g2 \<longrightarrow> identified (view w2) b" if "accounts_rely e N g1 w1 g2 w2" for g2 w2
      using that b identified_evolves fresh_ids_mono by (auto simp: accounts_rely_def)
    then have "kept e N g1 w1 (port (acc_Save (ls_accounts svc) b))"
      using save_leg_step by (intro accounts_port) blast
    then show "kept e N g1 w1 (and_then (port (acc_Save (ls_accounts svc) b))
        (Wrap (''save account '' @ AccountID_String e (e_accountID x))) (\<lambda>_. legs_proc e svc xs))"
      using inv Cons.IH by (intro interference.kept_then [OF accounts_interference])
  qed
qed

end

sublocale ledger_ports \<subseteq> rg: service_interference "accounts_inv e N" "accounts_rely e N" "accounts_rely e N" e svc
  for e N
proof (intro service_interference.intro service_interference_axioms.intro accounts_interference)
  show "accounts_inv e N g' w \<and> accounts_rely e N g w g' w" if "accounts_inv e N g w" "drawn g \<le> drawn g'" for g g' w
    using frame_step [OF that] by simp
  show "kept e N g w (act (save_new e svc ocmd))" for ocmd g w
    using save_new_step by (intro accounts_act) blast
  show "kept e N g w (act (emit_recorded e svc rcmd t))" "kept e N g w (act (emit_opened e svc ocmd a))"
    for rcmd t ocmd a g w
    by (rule kept_frame_act, auto simp: emit_recorded_def emit_opened_def time_Now_def Let_def
        dest: append_frame split: sum.splits prod.splits)+
qed (auto intro!: kept_legs kept_frame_port dest: tx_frame all_frame find_frame projector_frame)

subsection \<open>Turns of one process\<close>

text \<open>Simplification stays out of what a process does later.\<close>

lemma step_act: "proc_step (bind_proc (act f) k) g w = (case f g w of (x, g1, w1) \<Rightarrow> (k x, g1, w1))"
  by (simp add: act_def split: prod.splits)

lemma bind_cong_first: "p = q \<Longrightarrow> bind_proc p k = bind_proc q k"
  by simp

text \<open>With turns of its own a process finishes, as if it ran alone.\<close>

lemma turns_finish:
  assumes "i < length ps" "run_proc (ps ! i) g w = (r, g', w')"
  shows "\<exists>n. (serving_turn i ^^ n) \<lparr>sv_procs = ps, sv_gen = g, sv_store = w\<rparr>
      = \<lparr>sv_procs = ps[i := Return r], sv_gen = g', sv_store = w'\<rparr>"
  using assms
proof (induction "ps ! i" arbitrary: ps g w)
  case (Return a)
  then have "ps[i := Return r] = ps" by (metis fst_conv list_update_id run_proc.simps(1))
  with Return show ?case by (intro exI [of _ 0]) (simp flip: Return.hyps)
next
  case (Call f)
  obtain q g1 w1 where step: "f g w = (q, g1, w1)" by (metis prod_cases3)
  have i: "i < length (ps[i := q])" and q: "f g w = (ps[i := q] ! i, g1, w1)" using Call.prems(1) step by simp_all
  have "run_proc (ps[i := q] ! i) g1 w1 = (r, g', w')"
    using Call.prems by (simp add: step flip: Call.hyps(2))
  from Call.hyps(1) [OF q i this] obtain n where
    n: "(serving_turn i ^^ n) \<lparr>sv_procs = ps[i := q], sv_gen = g1, sv_store = w1\<rparr>
      = \<lparr>sv_procs = ps[i := Return r], sv_gen = g', sv_store = w'\<rparr>" by auto
  have "serving_turn i \<lparr>sv_procs = ps, sv_gen = g, sv_store = w\<rparr> = \<lparr>sv_procs = ps[i := q], sv_gen = g1, sv_store = w1\<rparr>"
    using Call.prems(1) by (simp add: serving_turn_def step flip: Call.hyps(2))
  with n show ?case by (intro exI [of _ "Suc n"]) (simp add: funpow_Suc_right del: funpow.simps)
qed

end
