(* ===== verification/Production_Wiring.thy ===== *)
theory Production_Wiring
  imports Postgres_Accounts Read_Projection Service_Interleaving Inmemory_Store
begin

section \<open>The production wiring (cmd/api/main.go)\<close>

text \<open>
  The service as main wires it: accounts, event store, outbox and projector over one database,
  and transactions in memory. The contract \<open>ledger_ports\<close> holds for it with any failures of the
  database, so that everything proved of the service inside the locale holds for the running
  program.
\<close>

record prod_world =
  pw_db :: pg_db
  pw_transactions :: mem_TransactionRepository

definition put_db :: "pg_db \<Rightarrow> prod_world \<Rightarrow> prod_world" where
  "put_db d w = w\<lparr>pw_db := d\<rparr>"

definition put_transactions :: "mem_TransactionRepository \<Rightarrow> prod_world \<Rightarrow> prod_world" where
  "put_transactions r w = w\<lparr>pw_transactions := r\<rparr>"

definition prod_transaction_port :: "env \<Rightarrow> prod_world TransactionRepository" where
  "prod_transaction_port e =
     \<lparr>txr_Save = (\<lambda>t. on_part pw_transactions put_transactions (mem_tx_Save e t)),
      txr_FindByID = (\<lambda>i. on_part pw_transactions put_transactions (mem_tx_FindByID e i)),
      txr_FindByAccountID = (\<lambda>i. on_part pw_transactions put_transactions (mem_tx_FindByAccountID e i))\<rparr>"

definition prod_event_port :: "pg_env \<Rightarrow> prod_world EventStore" where
  "prod_event_port pe =
     \<lparr>es_Append = (\<lambda>i ty n evs. on_part pw_db put_db (es_Append_pg pe i ty n evs)),
      es_LoadEvents = (\<lambda>i. on_part pw_db put_db (es_LoadEvents_pg pe i)),
      es_LoadEventsFrom = (\<lambda>i n. on_part pw_db put_db (es_LoadEventsFrom_pg pe i n))\<rparr>"

definition prod_outbox_port :: "pg_env \<Rightarrow> prod_world OutboxAppender" where
  "prod_outbox_port pe =
     \<lparr>ob_AppendWithOutbox = (\<lambda>i ty n evs. on_part pw_db put_db (AppendWithOutbox pe i ty n evs))\<rparr>"

definition prod_projector_port :: "pg_env \<Rightarrow> prod_world Projector" where
  "prod_projector_port pe =
     \<lparr>pj_ProjectAccountOpened = (\<lambda>ev. on_part pw_db put_db (ProjectAccountOpened pe ev)),
      pj_ProjectTransactionRecorded = (\<lambda>ev. on_part pw_db put_db (ProjectTransactionRecorded pe ev))\<rparr>"

definition prod_query_port :: "pg_env \<Rightarrow> prod_world QueryService" where
  "prod_query_port pe =
     \<lparr>qs_GetAccountBalance = (\<lambda>i. on_part pw_db put_db (GetAccountBalance pe i)),
      qs_ListAccounts = on_part pw_db put_db (ListAccounts pe),
      qs_GetTransactionHistory = (\<lambda>i l n. on_part pw_db put_db (GetTransactionHistory pe i l n))\<rparr>"

definition prod_service :: "env \<Rightarrow> pg_env \<Rightarrow> prod_world LedgerService" where
  "prod_service e pe = NewLedgerService (lift_accounts pw_db put_db (pg_account_port e pe))
     (prod_transaction_port e) (Some (prod_event_port pe)) (Some (prod_outbox_port pe))
     (Some (prod_projector_port pe))"

definition prod_view :: "env \<Rightarrow> prod_world \<Rightarrow> AccountID \<rightharpoonup> Account" where
  "prod_view e w = pg_accounts_view e (pw_db w)"

definition prod_inv :: "env \<Rightarrow> pg_env \<Rightarrow> prod_world \<Rightarrow> bool" where
  "prod_inv e pe w \<longleftrightarrow> pg_accounts_inv e pe (pw_db w)"

lemma put_get [simp]: "pw_db (put_db d w) = d" "pw_db (put_transactions r w) = pw_db w"
  by (simp_all add: put_db_def put_transactions_def)

lemma prod_frame:
  "db_accounts (pw_db w') = db_accounts (pw_db w) \<Longrightarrow> prod_inv e pe w \<Longrightarrow>
     prod_inv e pe w' \<and> prod_view e w' = prod_view e w"
  using pg_inv_cong [of "pw_db w'" "pw_db w" e] by (simp add: prod_inv_def prod_view_def)

lemma events_frame:
  "AppendWithOutbox pe i ty n evs db = (r, db') \<Longrightarrow> db_accounts db' = db_accounts db
     \<and> db_balances db' = db_balances db \<and> db_history db' = db_history db"
  "es_Append_pg pe i ty n evs db = (r, db') \<Longrightarrow> db_accounts db' = db_accounts db
     \<and> db_balances db' = db_balances db \<and> db_history db' = db_history db"
  by (auto dest!: AppendWithOutbox_result Append_result simp: frame_simps split: sum.splits)

lemma projector_accounts:
  "ProjectAccountOpened pe ao db = (r, db') \<Longrightarrow> db_accounts db' = db_accounts db"
  "ProjectTransactionRecorded pe tr db = (r, db') \<Longrightarrow> db_accounts db' = db_accounts db"
  by (auto dest!: ProjectAccountOpened_result(1) ProjectTransactionRecorded_result
      simp: frame_simps split: sum.splits)

lemma prod_ports [simp]:
  "ls_accounts (prod_service e pe) = lift_accounts pw_db put_db (pg_account_port e pe)"
  "ls_transactions (prod_service e pe) = prod_transaction_port e"
  "ls_eventStore (prod_service e pe) = Some (prod_event_port pe)"
  "ls_outbox (prod_service e pe) = Some (prod_outbox_port pe)"
  "ls_projector (prod_service e pe) = Some (prod_projector_port pe)"
  by (simp_all add: prod_service_def NewLedgerService_def)

lemma prod_repository:
  "account_repository (lift_accounts pw_db put_db (pg_account_port e pe)) (prod_view e) (prod_inv e pe) (pg_stored pe)"
proof -
  have "prod_view e = pg_accounts_view e \<circ> pw_db" "prod_inv e pe = pg_accounts_inv e pe \<circ> pw_db"
    by (auto simp: prod_view_def prod_inv_def)
  then show ?thesis
    using lift_account_repository [OF pg_repo.account_repository_axioms, of pw_db put_db e pe] by simp
qed

interpretation prod_ledger: ledger_ports "prod_service e pe" "prod_view e" "prod_inv e pe" "pg_stored pe" for e pe
proof (intro ledger_ports.intro ledger_ports_axioms.intro)
  show "account_repository (ls_accounts (prod_service e pe)) (prod_view e) (prod_inv e pe) (pg_stored pe)"
    by (simp add: prod_repository)
qed (auto simp: prod_transaction_port_def prod_outbox_port_def prod_event_port_def prod_projector_port_def
    on_part_eq_iff intro!: prod_frame,
    (erule events_frame [THEN conjunct1] projector_accounts)+)

end
