(* ===== verification/Read_Write_Agreement.thy ===== *)
theory Read_Write_Agreement
  imports Production_Wiring Ledger_Correctness
begin

section \<open>The read model follows the write model\<close>

text \<open>
  The two sides of the service as main wires it. The locale \<open>unobserved\<close> states what the write side
  keeps of a part of the store; inside it a recorded transaction is shown to reach that part only
  through the projector. For the production wiring the part is the read model, and the balances of
  the two sides stay equal unless a database call fails during the projection, whose error the
  service drops.
\<close>

definition projected :: "'w LedgerService \<Rightarrow> ('w Projector \<Rightarrow> 'w \<Rightarrow> 'w) \<Rightarrow> 'w \<Rightarrow> 'w" where
  "projected s F w = (case ls_projector s of None \<Rightarrow> w | Some p \<Rightarrow> F p w)"

text \<open>The calls of a RecordTransaction that succeeded.\<close>

lemma record_calls:
  assumes "RecordTransaction e s cmd g w = (Inr tx, g', w')"
  obtains g1 g2 u w1 u2 w2 u3 w3 ev where
    "update_balances e s (tx_entries tx) g1 w = (Inr u, g2, w1)"
    "txr_Save (ls_transactions s) tx w1 = (Inr u2, w2)"
    "appendEvent e s (TransactionID_String e (tx_id tx)) ''transaction'' 0 (TransactionRecorded ev) w2 = (Inr u3, w3)"
    "tr_TransactionID ev = TransactionID_String e (tx_id tx)" "tr_Entries ev = map (entry_data e) (tx_entries tx)"
    "tr_Description ev = rc_Description cmd"
    "w' = projected s (\<lambda>p w. snd (pj_ProjectTransactionRecorded p ev w)) w3"
  using assms
  by (auto simp: RecordTransaction_def projected_def Transaction_Entries_def Let_def
      split: sum.splits prod.splits option.splits)

locale unobserved = ledger_ports svc view invar stored
  for svc :: "'w LedgerService" and view :: "'w \<Rightarrow> AccountID \<rightharpoonup> Account"
    and invar :: "'w \<Rightarrow> bool" and stored :: "Account \<Rightarrow> Account" +
  fixes keeps :: "'w \<Rightarrow> 'w \<Rightarrow> bool"
  assumes keeps_refl: "keeps w w" and keeps_trans: "keeps w w1 \<Longrightarrow> keeps w1 w2 \<Longrightarrow> keeps w w2"
    and keeps_save: "acc_Save (ls_accounts svc) a w = (r, w') \<Longrightarrow> keeps w w'"
    and keeps_find: "acc_FindByID (ls_accounts svc) i w = (q, w') \<Longrightarrow> keeps w w'"
    and keeps_tx: "txr_Save (ls_transactions svc) t w = (r, w') \<Longrightarrow> keeps w w'"
    and keeps_outbox: "ls_outbox svc = Some ob \<Longrightarrow> ob_AppendWithOutbox ob aid ty n evs w = (r, w') \<Longrightarrow> keeps w w'"
    and keeps_store: "ls_eventStore svc = Some es \<Longrightarrow> es_Append es aid ty n evs w = (r, w') \<Longrightarrow> keeps w w'"
begin

lemma update_keeps: "update_balances e svc xs g w = (r, g', w') \<Longrightarrow> keeps w w'"
proof (induction xs arbitrary: g w)
  case Nil
  then show ?case by (simp add: keeps_refl)
next
  case (Cons x xs)
  from Cons.prems show ?case
    by (fastforce dest: keeps_find keeps_save Cons.IH intro: keeps_trans split: prod.splits sum.splits)
qed

lemma append_keeps: "appendEvent e svc i ty n ev w = (r, w') \<Longrightarrow> keeps w w'"
  by (auto simp: appendEvent_def Let_def keeps_refl dest: keeps_outbox keeps_store split: sum.splits option.splits)

lemma projected_view:
  assumes "invar w"
  shows "view (projected svc (\<lambda>p w. snd (pj_ProjectTransactionRecorded p tr w)) w) = view w"
proof (cases "ls_projector svc")
  case (Some p)
  with projector_frame(2) [OF assms Some] show ?thesis by (simp add: projected_def prod_eq_iff)
qed (simp add: projected_def)

text \<open>A recorded transaction: the projector gets its entries, after the accounts were saved.\<close>

lemma record_projection:
  assumes "invar w" "RecordTransaction e svc cmd g w = (Inr tx, g', w')"
  shows "\<exists>w3 ev. keeps w w3 \<and> view w3 = view w' \<and> tr_Entries ev = map (entry_data e) (tx_entries tx)
    \<and> w' = projected svc (\<lambda>p w. snd (pj_ProjectTransactionRecorded p ev w)) w3"
proof -
  from assms(2) obtain g1 g2 u w1 u2 w2 u3 w3 ev where
    upd: "update_balances e svc (tx_entries tx) g1 w = (Inr u, g2, w1)"
    and save: "txr_Save (ls_transactions svc) tx w1 = (Inr u2, w2)"
    and app: "appendEvent e svc (TransactionID_String e (tx_id tx)) ''transaction'' 0 (TransactionRecorded ev) w2 = (Inr u3, w3)"
    and ev: "tr_TransactionID ev = TransactionID_String e (tx_id tx)" "tr_Entries ev = map (entry_data e) (tx_entries tx)" "tr_Description ev = rc_Description cmd"
    and w': "w' = projected svc (\<lambda>p w. snd (pj_ProjectTransactionRecorded p ev w)) w3"
    by (rule record_calls)
  from update_balances_spec [OF assms(1) upd] have "invar w1" by blast
  with tx_frame [OF this save] append_frame [OF _ app] have inv: "invar w3" by blast
  have "keeps w w3"
    by (rule keeps_trans [OF keeps_trans [OF update_keeps [OF upd] keeps_tx [OF save]] append_keeps [OF app]])
  with projected_view [OF inv] w' ev(2) show ?thesis by auto
qed

end

subsection \<open>The production wiring\<close>

definition read_tables :: "prod_world \<Rightarrow> balance_row list \<times> history_row list" where
  "read_tables w = (db_balances (pw_db w), db_history (pw_db w))"

text \<open>What the write side keeps: the read tables and the keys of the history. Its round trips are counted.\<close>

definition read_kept :: "pg_db \<Rightarrow> pg_db \<Rightarrow> bool" where
  "read_kept db db' \<longleftrightarrow> db_balances db' = db_balances db \<and> db_history db' = db_history db
     \<and> db_history_seq db' = db_history_seq db \<and> db_calls db \<le> db_calls db'"

lemma accounts_read_kept:
  "pg_acc_Save e pe a db = (r, db') \<Longrightarrow> read_kept db db'"
  "pg_acc_FindByID e pe i db = (q, db') \<Longrightarrow> read_kept db db'"
  by (auto simp: pg_acc_Save_def pg_acc_FindByID_def pg_call_def read_kept_def split: option.splits)

lemma inserts_read_kept:
  "insert_event pe aid ty v ev db = (r, db') \<Longrightarrow> read_kept db db'"
  "insert_outbox pe now aid ty ev db = (r, db') \<Longrightarrow> read_kept db db'"
  by (auto simp: insert_event_def insert_outbox_def pg_call_def Let_def read_kept_def
      split: option.splits sum.splits if_splits)

lemma read_kept_trans: "read_kept db db1 \<Longrightarrow> read_kept db1 db2 \<Longrightarrow> read_kept db db2"
  by (simp add: read_kept_def)

lemma append_loops_read_kept:
  "append_both pe now aid ty n i evs db = (r, db') \<Longrightarrow> read_kept db db'"
  "append_events pe aid ty n i evs db = (q, db') \<Longrightarrow> read_kept db db'"
proof (induction evs arbitrary: i db)
  case Nil
  { case 1 then show ?case by (simp add: read_kept_def) }
  { case 2 then show ?case by (simp add: read_kept_def) }
next
  case (Cons ev evs)
  { case 1 then show ?case
      by (fastforce dest: inserts_read_kept Cons.IH(1) intro: read_kept_trans split: prod.splits sum.splits) }
  { case 2 then show ?case
      by (fastforce dest: inserts_read_kept Cons.IH(2) intro: read_kept_trans split: prod.splits sum.splits) }
qed

lemma events_read_kept:
  "AppendWithOutbox pe aid ty n evs db = (r, db') \<Longrightarrow> read_kept db db'"
  "es_Append_pg pe aid ty n evs db = (q, db') \<Longrightarrow> read_kept db db'"
  unfolding AppendWithOutbox_def es_Append_pg_def
  by (auto simp: pg_call_def read_kept_def pg_rollback_def dest!: append_loops_read_kept
      split: option.splits sum.splits prod.splits)

interpretation prod_unobserved: unobserved "prod_service e pe" "prod_view e" "prod_inv e pe" "pg_stored pe"
  "\<lambda>w w'. read_kept (pw_db w) (pw_db w')" for e pe
proof (intro unobserved.intro prod_ledger.ledger_ports_axioms unobserved_axioms.intro)
qed (auto simp: lift_accounts_def pg_account_port_def prod_transaction_port_def prod_outbox_port_def
    prod_event_port_def on_part_eq_iff read_kept_def
    dest!: accounts_read_kept events_read_kept)

text \<open>The two sides agree: the read model shows every account of the write model, with its balance.\<close>

definition in_step :: "env \<Rightarrow> prod_world \<Rightarrow> bool" where
  "in_step e w \<longleftrightarrow> (\<forall>i a. prod_view e w i = Some a \<longrightarrow>
     read_balance (db_balances (pw_db w)) (AccountID_String e i) = Some (funds a))"

text \<open>The entries of an event move the read model as the legs move the accounts.\<close>

lemma entries_delta_posted:
  assumes "uuid_codec e" "\<forall>x\<in>set xs. e_entryType x \<in> {Debit, Credit}"
  shows "entries_delta (map (entry_data e) xs) (AccountID_String e i) = posted (map params_of xs) i"
  using assms(2)
proof (induction xs)
  case (Cons x xs)
  have "AccountID_String e (e_accountID x) = AccountID_String e i \<longleftrightarrow> e_accountID x = i"
    using account_id.print_inject [of e] assms(1) by blast
  moreover have "entry_delta (entry_data e x) = param_delta (params_of x)"
    using Cons.prems by (auto simp: entry_delta_def entry_data_def param_delta_def params_of_def signed_leg_def
        Debit_def Credit_def)
  moreover have "ed_AccountID (entry_data e x) = AccountID_String e (e_accountID x)" "ep_AccountID (params_of x) = e_accountID x"
    by (simp_all add: entry_data_def params_of_def)
  ultimately show ?case using Cons by (simp add: entries_delta_def)
qed (simp add: entries_delta_def)

text \<open>The entries of a transaction recorded for a command.\<close>

lemma recorded_entries:
  assumes "map params_of xs = cmd_legs cmd"
  shows "map (\<lambda>x. sint (amount (e_amount x))) xs = map (\<lambda>ec. sint (ec_Amount ec)) (rc_Entries cmd)"
    "(\<forall>x\<in>set xs. e_entryType x \<in> T) \<longleftrightarrow> (\<forall>ec\<in>set (rc_Entries cmd). ec_Type ec \<in> T)"
proof -
  from arg_cong [OF assms, of "map (\<lambda>p. sint (amount (ep_Amount p)))"]
  show "map (\<lambda>x. sint (amount (e_amount x))) xs = map (\<lambda>ec. sint (ec_Amount ec)) (rc_Entries cmd)"
    by (simp add: cmd_legs_def params_of_def comp_def)
  from arg_cong [OF assms, of "map ep_Type"] have "map e_entryType xs = map ec_Type (rc_Entries cmd)"
    by (simp add: cmd_legs_def params_of_def comp_def)
  from arg_cong [OF this, of set] have "e_entryType ` set xs = ec_Type ` set (rc_Entries cmd)" by simp
  then show "(\<forall>x\<in>set xs. e_entryType x \<in> T) \<longleftrightarrow> (\<forall>ec\<in>set (rc_Entries cmd). ec_Type ec \<in> T)"
    by (simp add: image_subset_iff [symmetric])
qed

text \<open>There is room for amounts \<open>ns\<close>: no balance comes near the limits of an int64, and the read model
  has versions and keys left.\<close>

definition room_for :: "env \<Rightarrow> prod_world \<Rightarrow> int list \<Rightarrow> bool" where
  "room_for e w ns \<longleftrightarrow>
     (\<forall>i a. prod_view e w i = Some a \<longrightarrow> \<bar>sint (funds a)\<bar> + sum_list (map abs ns) < 2 ^ 63)
     \<and> (\<forall>r\<in>set (db_balances (pw_db w)). sint (br_version r) + int (length ns) < 2 ^ 63)
     \<and> int (db_history_seq (pw_db w)) + int (length ns) < 2 ^ 63"

lemma int_delta_bound:
  assumes "sum_list (map (\<lambda>d. \<bar>sint (ed_Amount d)\<bar>) ds) < 2 ^ 63"
  shows "\<bar>int_delta (take n ds) k\<bar> \<le> sum_list (map (\<lambda>d. \<bar>sint (ed_Amount d)\<bar>) ds)"
  using assms
proof (induction ds arbitrary: n)
  case (Cons d ds)
  have pos: "0 \<le> sum_list (map (\<lambda>d. \<bar>sint (ed_Amount d)\<bar>) ds)" by (rule sum_list_nonneg) auto
  with Cons.prems have "\<bar>sint (ed_Amount d)\<bar> < 2 ^ 63" by simp
  then have "sint (ed_Amount d) \<le> 2 ^ 63 \<and> - sint (ed_Amount d) < 2 ^ 63" by linarith
  then have "sint (- ed_Amount d) = - sint (ed_Amount d)"
    using sint_minus_exact [of 0 "ed_Amount d"] by (simp add: in_int64_def)
  then have one: "\<bar>sint (entry_delta d)\<bar> = \<bar>sint (ed_Amount d)\<bar>" by (simp add: entry_delta_def)
  have IH: "\<bar>int_delta (take m ds) k\<bar> \<le> sum_list (map (\<lambda>d. \<bar>sint (ed_Amount d)\<bar>) ds)" for m
    using Cons pos by simp
  show ?case
  proof (cases n)
    case 0
    then show ?thesis using pos by (simp add: int_delta_def)
  next
    case (Suc m)
    then show ?thesis using IH [of m] one by (auto simp: int_delta_def)
  qed
qed (simp add: int_delta_def)

lemma room_entries_fit:
  assumes "in_step e w" "room_for e w (map (\<lambda>x. sint (amount (e_amount x))) xs)"
    and "\<forall>x\<in>set xs. prod_view e w (e_accountID x) \<noteq> None"
  shows "entries_fit (pw_db w) (map (entry_data e) xs)"
  unfolding entries_fit_def
proof (intro conjI allI impI)
  let ?ds = "map (entry_data e) xs" and ?vol = "sum_list (map (\<lambda>x. \<bar>sint (amount (e_amount x))\<bar>) xs)"
  show "int (db_history_seq (pw_db w)) + int (length ?ds) < 2 ^ 63" using assms(2) by (simp add: room_for_def)
  fix k r assume r: "List.find (\<lambda>r. br_account_id r = k) (db_balances (pw_db w)) = Some r"
  then have "r \<in> set (db_balances (pw_db w))" by (auto simp: find_Some_iff)
  then show "sint (br_version r) + int (length ?ds) < 2 ^ 63" using assms(2) by (simp add: room_for_def)
  fix n
  show "in_int64 (sint (br_balance r) + int_delta (take n ?ds) k)"
  proof (cases "\<exists>x\<in>set xs. AccountID_String e (e_accountID x) = k")
    case True
    then obtain x where x: "x \<in> set xs" "AccountID_String e (e_accountID x) = k" by blast
    with assms(3) obtain a where a: "prod_view e w (e_accountID x) = Some a" by blast
    then have "read_balance (db_balances (pw_db w)) (AccountID_String e (e_accountID x)) = Some (funds a)"
      using assms(1) by (simp add: in_step_def)
    then have bal: "br_balance r = funds a" using x(2) r by (simp add: read_balance_def)
    have big: "\<bar>sint (funds a)\<bar> + ?vol < 2 ^ 63" using assms(2) a by (auto simp: room_for_def comp_def)
    have vol: "sum_list (map (\<lambda>d. \<bar>sint (ed_Amount d)\<bar>) ?ds) = ?vol"
      by (simp add: comp_def entry_data_def)
    from big have "?vol < 2 ^ 63" by linarith
    from int_delta_bound [of ?ds n k, unfolded vol, OF this] have "\<bar>int_delta (take n ?ds) k\<bar> \<le> ?vol" .
    with big show ?thesis unfolding in_int64_def bal by (intro conjI) linarith+
  next
    case False
    then have "\<forall>d\<in>set ?ds. ed_AccountID d \<noteq> k" by (simp add: entry_data_def)
    then have "filter (\<lambda>d. ed_AccountID d = k) (take n ?ds) = []"
      unfolding filter_empty_conv by (meson in_set_takeD)
    then show ?thesis by (simp add: int_delta_def)
  qed
qed

lemma read_model_step:
  assumes "prod_inv e pe w" "in_step e w"
    and "RecordTransaction e (prod_service e pe) cmd g w = (Inr tx, g', w')"
    and "\<forall>x\<in>set (tx_entries tx). e_entryType x \<in> {Debit, Credit}"
    and "room_for e w (map (\<lambda>x. sint (amount (e_amount x))) (tx_entries tx))"
  shows "in_step e w' \<or> read_tables w' = read_tables w \<and> faulted pe (pw_db w) (pw_db w')"
proof -
  from prod_unobserved.record_projection [OF assms(1,3)] obtain w3 ev where
    w3: "read_kept (pw_db w) (pw_db w3)" "prod_view e w3 = prod_view e w'"
    and ev: "tr_Entries ev = map (entry_data e) (tx_entries tx)"
    and w': "w' = projected (prod_service e pe) (\<lambda>p w. snd (pj_ProjectTransactionRecorded p ev w)) w3"
    by blast
  obtain r db where pj: "ProjectTransactionRecorded pe ev (pw_db w3) = (r, db)" by fastforce
  then have db: "pw_db w' = db" by (simp add: w' projected_def prod_projector_port_def on_part_def)
  note res = ProjectTransactionRecorded_result [OF pj]
  from prod_ledger.record_outcome [OF assms(1,3)] have
    moved: "moved (prod_view e w) (posted (map params_of (tx_entries tx))) (prod_view e w')"
    and post: "list_all (postable (prod_view e w)) (map params_of (tx_entries tx))" by auto
  show ?thesis
  proof (cases r)
    case (Inl err)
    have dom: "\<forall>x\<in>set (tx_entries tx). prod_view e w (e_accountID x) \<noteq> None"
      using post by (auto simp: list_all_iff postable_def params_of_def split: option.splits)
    then have "\<forall>d\<in>set (tr_Entries ev). read_balance (db_balances (pw_db w3)) (ed_AccountID d) \<noteq> None"
      using assms(2) w3(1) by (auto simp: ev in_step_def read_kept_def entry_data_def)
    moreover have "entries_fit (pw_db w3) (tr_Entries ev)"
      using room_entries_fit [OF assms(2,5) dom] w3(1) by (simp add: ev entries_fit_def read_kept_def)
    ultimately have "faulted pe (pw_db w3) db"
      using ProjectTransactionRecorded_fails pj Inl by blast
    with w3(1) have "faulted pe (pw_db w) db" by (auto simp: read_kept_def intro: faulted_trans)
    with Inl res db w3(1) show ?thesis by (simp add: frame_simps read_tables_def read_kept_def)
  next
    case (Inr u)
    have codec: "uuid_codec e" using assms(1) by (simp add: prod_inv_def pg_accounts_inv_def)
    have "read_balance (db_balances db) (AccountID_String e i) = Some (funds b)" if "prod_view e w' i = Some b" for i b
    proof -
      from moved that obtain a where a: "prod_view e w i = Some a" by (rule moved_SomeD')
      with moved that have "funds b = funds a + posted (map params_of (tx_entries tx)) i"
        by (simp add: moved_def)
      with a assms(2) res Inr w3(1) show ?thesis
        by (simp add: in_step_def read_kept_def ev entries_delta_posted [OF codec assms(4)])
    qed
    with db show ?thesis by (simp add: in_step_def)
  qed
qed

text \<open>C6. Let a recorded transaction have only DEBIT and CREDIT entries, let the read model show the
  balances of the accounts before it, and let there be room (no balance plus the volume of the
  transaction reaches 2 to the 63rd, and the versions and history keys are not exhausted). Then the
  read model shows the balances of the accounts after it, or one of the database calls of this very
  run failed and the read model is as it was before, although the transaction is recorded and the
  caller sees no error. In particular, when no call fails the two sides stay in step.\<close>

theorem read_model_follows:
  assumes "prod_inv e pe w" "in_step e w"
    and "RecordTransaction e (prod_service e pe) cmd g w = (Inr tx, g', w')"
    and "\<forall>ec\<in>set (rc_Entries cmd). ec_Type ec \<in> {Debit, Credit}"
    and "room_for e w (map (\<lambda>ec. sint (ec_Amount ec)) (rc_Entries cmd))"
  shows "in_step e w' \<or> (read_tables w' = read_tables w
    \<and> (\<exists>n. db_calls (pw_db w) \<le> n \<and> n < db_calls (pw_db w') \<and> pg_fault pe n \<noteq> None))"
proof -
  from prod_ledger.record_outcome [OF assms(1,3)] have legs: "map params_of (tx_entries tx) = cmd_legs cmd" by auto
  note entries = recorded_entries [OF legs]
  from read_model_step [OF assms(1-3), unfolded entries, OF assms(4,5)] show ?thesis by (simp add: faulted_def)
qed

text \<open>Two accounts, shown by the read model.\<close>

definition view_row :: "Account \<Rightarrow> balance_row" where
  "view_row a = \<lparr>br_account_id = AccountID_String sample_env (a_id a), br_name = a_name a,
     br_account_type = AccountType_string (a_accountType a), br_currency = Currency_string (a_currency a),
     br_balance = funds a, br_status = ''ACTIVE'', br_version = 1, br_updated_at = 0\<rparr>"

definition sample_prod :: prod_world where
  "sample_prod = \<lparr>pw_db = empty_db\<lparr>
       db_accounts := map (account_params sample_env sample_pg) [sample_account Asset 100 Active, sample_equity (-100)],
       db_balances := map view_row [sample_account Asset 100 Active, sample_equity (-100)]\<rparr>,
     pw_transactions = NewTransactionRepository\<rparr>"

lemma sample_prod_inv: "prod_inv sample_env sample_pg sample_prod"
proof -
  have "Account_ok (sample_account Asset 100 Active)" "Account_ok (sample_equity (-100))"
    by (simp_all add: sample_account_def sample_equity_def Account_ok_def)
  then have rows: "row_ok sample_env sample_pg (account_params sample_env sample_pg (sample_account Asset 100 Active))"
    "row_ok sample_env sample_pg (account_params sample_env sample_pg (sample_equity (-100)))"
    unfolding row_ok_def by blast+
  have keys: "ar_account_id (account_params sample_env sample_pg (sample_account Asset 100 Active)) = decimal 7"
    "ar_account_id (account_params sample_env sample_pg (sample_equity (-100))) = decimal 8"
    by (simp_all add: account_params_def AccountID_String_def sample_account_def sample_equity_def)
  from rows keys show ?thesis by (simp add: prod_inv_def pg_accounts_inv_def sample_prod_def)
qed

lemma sample_prod_in_step: "in_step sample_env sample_prod"
proof -
  have ok: "Account_ok (sample_account Asset 100 Active)" "Account_ok (sample_equity (-100))"
    by (simp_all add: sample_account_def sample_equity_def Account_ok_def)
  note rows = row_Reconstitute_params [OF sample_env_codec ok(1), of sample_pg]
    row_Reconstitute_params [OF sample_env_codec ok(2), of sample_pg]
  have keys: "ar_account_id (account_params sample_env sample_pg a) = br_account_id (view_row a)"
    "funds (pg_stored sample_pg a) = funds a" for a
    by (simp_all add: account_params_def view_row_def pg_stored_def funds_def)
  show ?thesis
    unfolding in_step_def prod_view_def pg_accounts_view_def read_balance_def sample_prod_def
    by (auto simp: keys rows view_row_def split: if_splits)
qed

lemma sample_prod_room: "room_for sample_env sample_prod [sint (40 :: int64), sint (40 :: int64)]"
proof -
  have "\<bar>sint (funds a)\<bar> \<le> 100" if v: "prod_view sample_env sample_prod i = Some a" for i a
  proof -
    from v sample_prod_in_step
    have "read_balance (db_balances (pw_db sample_prod)) (AccountID_String sample_env i) = Some (funds a)"
      by (simp add: in_step_def)
    then have "funds a = 100 \<or> funds a = - 100"
      by (auto simp: read_balance_def sample_prod_def view_row_def sample_account_def sample_equity_def funds_def
          split: if_splits)
    then show ?thesis by auto
  qed
  then have "\<bar>sint (funds a)\<bar> + 80 < 2 ^ 63" if "prod_view sample_env sample_prod i = Some a" for i a
    using that by fastforce
  then show ?thesis
    by (auto simp: room_for_def) (auto simp: sample_prod_def view_row_def empty_db_def)
qed

theorem read_model_follows_witness:
  "case RecordTransaction sample_env (prod_service sample_env sample_pg) (sample_cmd 40 8) sample_gen sample_prod of
     (Inr tx, g', w') \<Rightarrow> in_step sample_env w'
       \<and> map_option funds (prod_view sample_env w' (AccountID 7)) = Some 60
   | (Inl err, g', w') \<Rightarrow> False"
proof -
  let ?r = "RecordTransaction sample_env (prod_service sample_env sample_pg) (sample_cmd 40 8) sample_gen sample_prod"
  have "case ?r of (Inr tx, g', w') \<Rightarrow> map_option funds (prod_view sample_env w' (AccountID 7)) = Some 60
     | (Inl err, g', w') \<Rightarrow> False"
    by code_simp
  then obtain tx g' w' where run: "?r = (Inr tx, g', w')"
    and seven: "map_option funds (prod_view sample_env w' (AccountID 7)) = Some 60"
    by (auto split: prod.splits sum.splits)
  have "\<forall>ec\<in>set (rc_Entries (sample_cmd 40 8)). ec_Type ec \<in> {Debit, Credit}"
    "map (\<lambda>ec. sint (ec_Amount ec)) (rc_Entries (sample_cmd 40 8)) = [sint (40 :: int64), sint (40 :: int64)]"
    by (simp_all add: sample_cmd_def)
  then have "in_step sample_env w' \<or> (read_tables w' = read_tables sample_prod
      \<and> (\<exists>n. db_calls (pw_db sample_prod) \<le> n \<and> n < db_calls (pw_db w') \<and> pg_fault sample_pg n \<noteq> None))"
    using sample_prod_room by (intro read_model_follows [OF sample_prod_inv sample_prod_in_step run]) simp_all
  moreover have "pg_fault sample_pg n = None" for n by (simp add: sample_pg_def)
  ultimately show ?thesis using run seven by simp
qed

text \<open>C5. RecordTransaction of the service as main wires it implements the abstract ledger, with any
  failures of the database: whatever it returns, the accounts have moved by the first legs of the
  command, one after the other, and an account without a leg is exactly as it was; when it succeeds,
  by all of the legs, and the total of every currency is unchanged.\<close>

theorem prod_record_refines:
  assumes "prod_inv e pe w" "RecordTransaction e (prod_service e pe) cmd g w = (r, g', w')"
  shows "prod_inv e pe w' \<and> (\<exists>k\<le>length (cmd_legs cmd). moved (prod_view e w) (posted (take k (cmd_legs cmd))) (prod_view e w')
      \<and> (case r of Inl err \<Rightarrow> True | Inr tx \<Rightarrow> k = length (cmd_legs cmd) \<and> cmd_ok cmd
           \<and> total_funds (prod_view e w') = total_funds (prod_view e w)))
    \<and> (\<forall>i. i \<notin> ep_AccountID ` set (cmd_legs cmd) \<longrightarrow> prod_view e w' i = prod_view e w i)"
proof -
  from prod_ledger.record_outcome [OF assms] obtain k where k: "prod_inv e pe w'" "k \<le> length (cmd_legs cmd)"
    "moved (prod_view e w) (posted (take k (cmd_legs cmd))) (prod_view e w')"
    "\<And>t. r = Inr t \<Longrightarrow> k = length (cmd_legs cmd) \<and> cmd_ok cmd" by blast
  have "total_funds (prod_view e w') = total_funds (prod_view e w)" if "r = Inr t" for t
    using prod_ledger.record_conserves [OF assms(1) assms(2) [unfolded that]] by auto
  with k prod_ledger.record_untouched [OF assms] show ?thesis by (intro conjI exI [of _ k]) (auto split: sum.splits)
qed

lemma sample_prod_view: "prod_view sample_env sample_prod (AccountID 7) = Some (pg_stored sample_pg (sample_account Asset 100 Active))"
  by code_simp

theorem prod_record_refines_witness:
  "case RecordTransaction sample_env (prod_service sample_env sample_pg) (sample_cmd 40 8) sample_gen sample_prod of
     (r, g', w') \<Rightarrow> prod_inv sample_env sample_pg w' \<and> map_option funds (prod_view sample_env w' (AccountID 7)) = Some 60
       \<and> total_funds (prod_view sample_env w') = total_funds (prod_view sample_env sample_prod)"
proof -
  let ?legs = "cmd_legs (sample_cmd 40 8)"
  obtain r g' w' where run: "RecordTransaction sample_env (prod_service sample_env sample_pg) (sample_cmd 40 8) sample_gen sample_prod
    = (r, g', w')" by (metis prod_cases3)
  have "\<not> isl (fst (RecordTransaction sample_env (prod_service sample_env sample_pg) (sample_cmd 40 8) sample_gen sample_prod))"
    by code_simp
  then obtain tx where tx: "r = Inr tx" by (cases r) (simp_all add: run)
  from prod_record_refines [OF sample_prod_inv run] have out: "prod_inv sample_env sample_pg w'"
    "total_funds (prod_view sample_env w') = total_funds (prod_view sample_env sample_prod)"
    and mv: "moved (prod_view sample_env sample_prod) (posted ?legs) (prod_view sample_env w')" by (auto simp: tx)
  from mv sample_prod_view obtain b where "prod_view sample_env w' (AccountID 7) = Some b"
    "funds b = funds (pg_stored sample_pg (sample_account Asset 100 Active)) + posted ?legs (AccountID 7)"
    by (rule moved_SomeD)
  with out run show ?thesis
    by (simp add: funds_def pg_stored_def sample_account_def cmd_legs_def sample_cmd_def param_delta_def signed_leg_def)
qed

text \<open>An entry whose type is neither DEBIT nor CREDIT is ignored by the write model and projected as a debit:
  the two sides are out of step although nothing failed.\<close>

lemma unknown_type_diverges:
  "case RecordTransaction sample_env (prod_service sample_env sample_pg)
      ((sample_cmd 40 8)\<lparr>rc_Entries := rc_Entries (sample_cmd 40 8)
         @ [\<lparr>ec_AccountID = AccountID 7, ec_Amount = 5, ec_Currency = USD, ec_Type = EntryType ''FEE''\<rparr>]\<rparr>) sample_gen sample_prod of
     (Inr tx, g', w') \<Rightarrow> map_option funds (prod_view sample_env w' (AccountID 7)) = Some 60
       \<and> read_balance (db_balances (pw_db w')) (decimal 7) = Some 55
   | (Inl err, g', w') \<Rightarrow> False"
  by code_simp

end
