(* ===== verification/Http_Messages.thy ===== *)
theory Http_Messages
  imports Ledger_Events
begin

section \<open>HTTP messages (what internal/infra/http uses of net/http and encoding/json)\<close>

text \<open>
  Requests, responses and the text of a JSON body. A response is what a handler wrote: the headers
  it set, the status it passed to \<^verbatim>\<open>WriteHeader\<close> (0 when it never called it; the server then sends
  200), and the body. A handler that panics has no reply. How \<^verbatim>\<open>encoding/json\<close> spells a value as
  text is a parameter of the model, \<open>json_text\<close>: nothing proved depends on the spelling.
\<close>

record http_request =
  rq_Method :: string
  rq_Path :: "string list"
  rq_Header :: "string \<Rightarrow> string"
  rq_Body :: string

record http_response =
  rs_headers :: "(string \<times> string) list"
  rs_status :: int
  rs_body :: string

datatype reply = Reply http_response | Panicked

type_synonym 's handler = "http_request \<Rightarrow> 's \<Rightarrow> reply \<times> 's"

type_synonym json_text = "json \<Rightarrow> string"

text \<open>The status line the client sees.\<close>

definition sent_status :: "http_response \<Rightarrow> int" where
  "sent_status resp = (if rs_status resp = 0 then 200 else rs_status resp)"

text \<open>\<open>WriteHeader\<close> panics on a code that does not have three digits.\<close>

definition WriteHeader_ok :: "int \<Rightarrow> bool" where
  "WriteHeader_ok code \<longleftrightarrow> 100 \<le> code \<and> code \<le> 999"

text \<open>\<open>writeJSON\<close>: the status is written before the value is encoded, so a value that cannot be
  encoded (\<open>None\<close>) leaves an empty body behind the status.\<close>

definition writeJSON :: "json_text \<Rightarrow> (string \<times> string) list \<Rightarrow> int \<Rightarrow> json option \<Rightarrow> reply" where
  "writeJSON enc headers status v =
     Reply \<lparr>rs_headers = headers @ [(''Content-Type'', ''application/json'')], rs_status = status,
            rs_body = (case v of None \<Rightarrow> '''' | Some j \<Rightarrow> enc j)\<rparr>"

definition errorResponse :: "string \<Rightarrow> json option" where
  "errorResponse msg = Some (JObject [(''error'', JString msg)])"

lemma writeJSON_simps [simp]:
  "writeJSON enc hs st v \<noteq> Panicked"
  "writeJSON enc hs st v = Reply resp \<longleftrightarrow>
     resp = \<lparr>rs_headers = hs @ [(''Content-Type'', ''application/json'')], rs_status = st,
             rs_body = (case v of None \<Rightarrow> '''' | Some j \<Rightarrow> enc j)\<rparr>"
  by (auto simp: writeJSON_def)

text \<open>A plain rendering for the witnesses.\<close>

definition sample_text :: json_text where
  "sample_text j = (case j of JObject ((k, JString s) # _) \<Rightarrow> k @ ''='' @ s | _ \<Rightarrow> ''json'')"

end
