(* ===== verification/Float_Cents.thy ===== *)
theory Float_Cents
  imports Ledger_Prelude
begin

section \<open>Dollars to cents (\<^verbatim>\<open>int64(req.Amount * 100)\<close> in internal/infra/http/handlers.go)\<close>

text \<open>
  A finite \<^verbatim>\<open>float64\<close> is a signed mantissa of at most 53 bits times a power of two. The
  product with 100 is rounded to 53 bits, half to even (IEEE 754, as the Go specification requires);
  no product with 100 underflows. The conversion to \<^verbatim>\<open>int64\<close> cuts off the fraction; for a value that does
  not fit, also an infinite one, the Go specification leaves the result to the implementation: it
  is the parameter \<open>big\<close>.
\<close>

record float64 =
  f_mant :: int
  f_exp :: int

definition float64_ok :: "float64 \<Rightarrow> bool" where
  "float64_ok f \<longleftrightarrow> \<bar>f_mant f\<bar> < 2 ^ 53 \<and> - 1074 \<le> f_exp f \<and> f_exp f \<le> 971"

text \<open>How many low bits do not fit into the mantissa.\<close>

function excess :: "int \<Rightarrow> nat" where
  "excess n = (if n < 2 ^ 53 then 0 else Suc (excess (n div 2)))"
  by auto
termination by (relation "measure nat") auto

declare excess.simps [simp del]

definition round_half_even :: "int \<Rightarrow> nat \<Rightarrow> int" where
  "round_half_even n k =
     (let q = n div 2 ^ k; r = n mod 2 ^ k in
      if 2 ^ k < 2 * r \<or> 2 ^ k = 2 * r \<and> odd q then q + 1 else q)"

definition times100 :: "float64 \<Rightarrow> float64" where
  "times100 f =
     (let n = 100 * \<bar>f_mant f\<bar>; k = excess n in
      \<lparr>f_mant = sgn (f_mant f) * round_half_even n k, f_exp = f_exp f + int k\<rparr>)"

definition truncate :: "float64 \<Rightarrow> int" where
  "truncate f = sgn (f_mant f) *
     (if 0 \<le> f_exp f then \<bar>f_mant f\<bar> * 2 ^ nat (f_exp f) else \<bar>f_mant f\<bar> div 2 ^ nat (- f_exp f))"

definition cents :: "(float64 \<Rightarrow> int64) \<Rightarrow> float64 \<Rightarrow> int64" where
  "cents big amount =
     (let p = times100 amount in if in_int64 (truncate p) then of_int (truncate p) else big p)"

subsection \<open>The product is within one cent\<close>

lemma excess_le: "0 \<le> n \<Longrightarrow> n < 2 ^ 53 * 2 ^ j \<Longrightarrow> excess n \<le> j"
proof (induction j arbitrary: n)
  case 0
  then show ?case by (subst excess.simps) simp
next
  case (Suc j)
  then have "n div 2 < 2 ^ 53 * 2 ^ j" "0 \<le> n div 2" by (simp_all add: div_less_iff_less_mult ac_simps)
  from Suc.IH [OF this(2,1)] show ?case by (subst excess.simps) simp
qed

lemma round_half_even_cases:
  "round_half_even n k = n div 2 ^ k \<or> round_half_even n k = n div 2 ^ k + 1 \<and> n mod 2 ^ k \<noteq> 0"
  by (auto simp: round_half_even_def Let_def)

lemma div_power_split: "(n :: int) div 2 ^ (k + d) = n div 2 ^ k div 2 ^ d"
  by (simp add: power_add zdiv_zmult2_eq)

lemma div_Suc_cases: "0 < d \<Longrightarrow> (a + 1) div d = a div d \<or> (a + 1) div d = a div (d :: int) + 1"
  using zdiv_mono1 [of a "a + 1" d] zdiv_mono1 [of "a + 1" "a + d" d] div_add_self2 [of d a] by linarith

lemma round_nonneg: "0 \<le> n \<Longrightarrow> 0 \<le> round_half_even n k"
  using round_half_even_cases [of n k] pos_imp_zdiv_nonneg_iff [of "2 ^ k" n] by auto

text \<open>Rounding to 53 bits and cutting off the fraction gives an integer next to the exact quotient.\<close>

lemma rounded_div:
  assumes "k \<le> j"
  shows "round_half_even n k div 2 ^ (j - k) \<in> {n div 2 ^ j, n div 2 ^ j + 1}"
    and "n mod 2 ^ j = 0 \<Longrightarrow> round_half_even n k div 2 ^ (j - k) = n div 2 ^ j"
proof -
  let ?q = "n div 2 ^ k"
  have split: "n div 2 ^ j = ?q div 2 ^ (j - k)" using div_power_split [of n k "j - k"] assms by simp
  have "(?q + 1) div 2 ^ (j - k) \<in> {n div 2 ^ j, n div 2 ^ j + 1}"
    using div_Suc_cases [of "2 ^ (j - k)" ?q] split by auto
  with round_half_even_cases [of n k] split
  show "round_half_even n k div 2 ^ (j - k) \<in> {n div 2 ^ j, n div 2 ^ j + 1}" by auto
  assume "n mod 2 ^ j = 0"
  then have "2 ^ j dvd n" by (simp add: dvd_eq_mod_eq_0)
  with assms have "2 ^ k dvd n" using le_imp_power_dvd dvd_trans by blast
  with round_half_even_cases [of n k] split
  show "round_half_even n k div 2 ^ (j - k) = n div 2 ^ j" by (auto simp: dvd_eq_mod_eq_0)
qed

lemma sgn_times_div: "0 \<le> q \<Longrightarrow> sgn q * (q div d) = q div (d :: int)"
  by (cases "q = 0") auto

lemma truncate_times100:
  assumes "0 < f_mant f" "f_exp f < 0" "k = excess (100 * f_mant f)" "k \<le> nat (- f_exp f)"
  shows "truncate (times100 f) = round_half_even (100 * f_mant f) k div 2 ^ (nat (- f_exp f) - k)"
proof -
  let ?q = "round_half_even (100 * f_mant f) k"
  have q: "0 \<le> ?q" using assms(1) by (simp add: round_nonneg)
  have p: "times100 f = \<lparr>f_mant = ?q, f_exp = f_exp f + int k\<rparr>"
    using assms(1,3) by (simp add: times100_def Let_def)
  show ?thesis
  proof (cases "0 \<le> f_exp f + int k")
    case True
    with assms(2,4) have e: "f_exp f + int k = 0" "nat (- f_exp f) - k = 0" by linarith+
    show ?thesis unfolding p truncate_def using q e by (simp add: abs_sgn [symmetric] mult.commute)
  next
    case False
    then have "nat (- (f_exp f + int k)) = nat (- f_exp f) - k" by (simp add: nat_diff_distrib')
    then show ?thesis unfolding p truncate_def using q False by (simp add: sgn_times_div)
  qed
qed

text \<open>The amount a request asks for, in cents, is the fraction \<open>hundredfold f / denominator f\<close>.\<close>

definition hundredfold :: "float64 \<Rightarrow> int" where
  "hundredfold f = 100 * f_mant f * 2 ^ nat (f_exp f)"

definition denominator :: "float64 \<Rightarrow> int" where
  "denominator f = 2 ^ nat (- f_exp f)"

lemma truncate_near:
  assumes "0 \<le> f_mant f" "hundredfold f < 2 ^ 53 * denominator f"
  shows "truncate (times100 f) \<in> {hundredfold f div denominator f, hundredfold f div denominator f + 1}
    \<and> (hundredfold f mod denominator f = 0 \<longrightarrow> truncate (times100 f) = hundredfold f div denominator f)"
proof (cases "f_exp f < 0 \<and> 0 < f_mant f")
  case True
  then have n: "hundredfold f = 100 * f_mant f" by (simp add: hundredfold_def)
  define k where "k = excess (100 * f_mant f)"
  have k: "k \<le> nat (- f_exp f)"
    using excess_le [of "100 * f_mant f" "nat (- f_exp f)"] assms(2) True
    unfolding k_def n denominator_def by simp
  have t: "truncate (times100 f) = round_half_even (100 * f_mant f) k div 2 ^ (nat (- f_exp f) - k)"
    using True k k_def by (simp add: truncate_times100)
  show ?thesis
    using rounded_div [OF k, of "100 * f_mant f"] unfolding t n denominator_def by blast
next
  case False
  show ?thesis
  proof (cases "f_mant f = 0")
    case True
    then show ?thesis by (simp add: truncate_def times100_def Let_def hundredfold_def)
  next
    case nz: False
    with False assms(1) have pos: "0 < f_mant f" and e: "0 \<le> f_exp f" by auto
    have "100 * f_mant f * 1 \<le> 100 * f_mant f * 2 ^ nat (f_exp f)"
      using pos by (intro mult_left_mono) simp_all
    with assms(2) e have "100 * f_mant f < 2 ^ 53" by (simp add: hundredfold_def denominator_def)
    then have "excess (100 * f_mant f) = 0" by (subst excess.simps) simp
    then have "times100 f = \<lparr>f_mant = 100 * f_mant f, f_exp = f_exp f\<rparr>"
      using pos by (simp add: times100_def Let_def round_half_even_def)
    then show ?thesis using pos e by (simp add: truncate_def hundredfold_def denominator_def)
  qed
qed

lemma sint_of_int_exact: "in_int64 k \<Longrightarrow> sint (of_int k :: int64) = k"
  by (simp add: in_int64_def signed_of_int signed_take_bit_int_eq_self)

text \<open>C40. An amount that is not negative and below 2^53 cents becomes one of the two whole numbers of cents
  next to it, and exactly the amount when it is a whole number of cents in binary.\<close>

theorem cents_within_one:
  assumes "0 \<le> f_mant f" "hundredfold f < 2 ^ 53 * denominator f"
  shows "sint (cents big f) \<in> {hundredfold f div denominator f, hundredfold f div denominator f + 1}
    \<and> (hundredfold f mod denominator f = 0 \<longrightarrow> sint (cents big f) = hundredfold f div denominator f)"
proof -
  note near = truncate_near [OF assms]
  have d: "0 < denominator f" by (simp add: denominator_def)
  then have "hundredfold f div denominator f * denominator f \<le> hundredfold f" by (metis div_mult_mod_eq le_add_same_cancel1 pos_mod_sign)
  with assms(2) have "hundredfold f div denominator f * denominator f < 2 ^ 53 * denominator f" by simp
  with d have "hundredfold f div denominator f < 2 ^ 53" by (simp add: mult_less_cancel_right)
  moreover have "0 \<le> hundredfold f div denominator f"
    using assms(1) d by (simp add: hundredfold_def pos_imp_zdiv_nonneg_iff)
  ultimately have "in_int64 (truncate (times100 f))" using near by (auto simp: in_int64_def)
  then have "sint (cents big f) = truncate (times100 f)"
    by (simp add: cents_def Let_def sint_of_int_exact)
  with near show ?thesis by simp
qed

theorem cents_within_one_witness:
  "sint (cents (\<lambda>_. 0) \<lparr>f_mant = 5, f_exp = - 1\<rparr>) = 250"
  using cents_within_one [of "\<lparr>f_mant = 5, f_exp = - 1\<rparr>" "\<lambda>_. 0"] by (simp add: hundredfold_def denominator_def)

text \<open>The number nearest to 0.29 becomes 28 cents: the product with 100 is a little less than 29.\<close>

definition twenty_nine_cents :: float64 where
  "twenty_nine_cents = \<lparr>f_mant = 5224175567749775, f_exp = - 54\<rparr>"

lemma twenty_nine_cents_nearest: "\<bar>100 * f_mant twenty_nine_cents - 29 * 2 ^ 54\<bar> \<le> 50"
  by (simp add: twenty_nine_cents_def)

lemma cents_loses_one: "float64_ok twenty_nine_cents \<and> sint (cents big twenty_nine_cents) = 28"
proof -
  have "excess 522417556774977500 = 6" by code_simp
  then have "truncate (times100 twenty_nine_cents) = 28"
    by (simp add: times100_def Let_def twenty_nine_cents_def round_half_even_def truncate_def)
  then show ?thesis
    by (simp add: cents_def Let_def in_int64_def float64_ok_def twenty_nine_cents_def)
qed

end
