(* ===== verification/Http_Handlers.thy ===== *)
theory Http_Handlers
  imports Transfer_Service Read_Projection Http_Messages Float_Cents
begin

section \<open>HTTP handlers (internal/infra/http/handlers.go)\<close>

text \<open>
  The handlers of the API over a ledger service, a transfer service and a query service on one store
  \<open>'w\<close>. What \<^verbatim>\<open>json.Decoder\<close> makes of a request body is a parameter per request type (\<open>None\<close>
  for an error), as is the conversion of a float that does not fit into an int64. A handler that
  dereferences a nil pointer panics; \<^verbatim>\<open>encoding/json\<close> writes the keys of a map in alphabetical
  order and the fields of a struct in the order of the declaration.
\<close>

record openAccountRequest =
  oa_Name :: string
  oa_AccountType :: string
  oa_Currency :: string

record entryRequest =
  er_AccountID :: string
  er_Amount :: int64
  er_Currency :: string
  er_Type :: string

record recordTransactionRequest =
  rt_Entries :: "entryRequest list"
  rt_Description :: string

record depositRequest =
  dq_AccountID :: string
  dq_Amount :: float64
  dq_Currency :: string
  dq_Description :: string

record transferRequest =
  tq_FromAccountID :: string
  tq_ToAccountID :: string
  tq_Amount :: float64
  tq_Currency :: string
  tq_Description :: string

record web_env =
  we_text :: json_text
  we_open :: "string \<Rightarrow> openAccountRequest option"
  we_record :: "string \<Rightarrow> recordTransactionRequest option"
  we_deposit :: "string \<Rightarrow> depositRequest option"
  we_transfer :: "string \<Rightarrow> transferRequest option"
  we_big :: "float64 \<Rightarrow> int64"

record 'w Handler =
  h_svc :: "'w LedgerService"
  h_transferSvc :: "'w TransferService"
  h_queries :: "'w QueryService"

definition NewHandler :: "'w LedgerService \<Rightarrow> 'w TransferService \<Rightarrow> 'w QueryService \<Rightarrow> 'w Handler" where
  "NewHandler svc transferSvc queries = \<lparr>h_svc = svc, h_transferSvc = transferSvc, h_queries = queries\<rparr>"

subsection \<open>Commands\<close>

definition account_json :: "env \<Rightarrow> Account \<Rightarrow> json" where
  "account_json e acc = JObject
     [(''account_id'', JString (AccountID_String e (a_id acc))),
      (''account_type'', JString (AccountType_string (a_accountType acc))),
      (''balance'', JInt (sint (amount (a_balance acc)))),
      (''currency'', JString (Currency_string (a_currency acc))),
      (''name'', JString (a_name acc)),
      (''status'', JString (Status_string (a_status acc)))]"

definition http_OpenAccount :: "env \<Rightarrow> web_env \<Rightarrow> 'w Handler \<Rightarrow> (gen \<times> 'w) handler" where
  "http_OpenAccount e we h r s =
     (case we_open we (rq_Body r) of
        None \<Rightarrow> (writeJSON (we_text we) [] 400 (errorResponse ''invalid request body''), s)
      | Some req \<Rightarrow>
          (case OpenAccount e (h_svc h) \<lparr>oc_Name = oa_Name req, oc_AccountType = oa_AccountType req,
                  oc_Currency = Currency (oa_Currency req)\<rparr> (fst s) (snd s) of
             (Inl err, s1) \<Rightarrow> (writeJSON (we_text we) [] 422 (errorResponse (error_Error err)), s1)
           | (Inr acc, s1) \<Rightarrow> (writeJSON (we_text we) [] 201 (Some (account_json e acc)), s1)))"

fun entry_cmds :: "env \<Rightarrow> entryRequest list \<Rightarrow> EntryCmd list option" where
  "entry_cmds e [] = Some []"
| "entry_cmds e (er # ers) =
     (case NewAccountID e (er_AccountID er) of
        Inl err \<Rightarrow> None
      | Inr accID \<Rightarrow>
          (case entry_cmds e ers of
             None \<Rightarrow> None
           | Some ecs \<Rightarrow> Some (\<lparr>ec_AccountID = accID, ec_Amount = er_Amount er,
                 ec_Currency = Currency (er_Currency er), ec_Type = EntryType (er_Type er)\<rparr> # ecs)))"

definition http_RecordTransaction :: "env \<Rightarrow> web_env \<Rightarrow> 'w Handler \<Rightarrow> (gen \<times> 'w) handler" where
  "http_RecordTransaction e we h r s =
     (case we_record we (rq_Body r) of
        None \<Rightarrow> (writeJSON (we_text we) [] 400 (errorResponse ''invalid request body''), s)
      | Some req \<Rightarrow>
          (case entry_cmds e (rt_Entries req) of
             None \<Rightarrow> (writeJSON (we_text we) [] 400 (errorResponse ''invalid account_id in entry''), s)
           | Some entries \<Rightarrow>
               (case RecordTransaction e (h_svc h) \<lparr>rc_Entries = entries, rc_Description = rt_Description req\<rparr>
                       (fst s) (snd s) of
                  (Inl err, s1) \<Rightarrow> (writeJSON (we_text we) [] 422 (errorResponse (error_Error err)), s1)
                | (Inr tx, s1) \<Rightarrow>
                    (writeJSON (we_text we) [] 201 (Some (JObject
                       [(''description'', JString (tx_description tx)),
                        (''transaction_id'', JString (TransactionID_String e (tx_id tx)))])), s1))))"

definition currency_or_USD :: "string \<Rightarrow> Currency" where
  "currency_or_USD c = (if Currency c = Currency '''' then USD else Currency c)"

definition text_or :: "string \<Rightarrow> string \<Rightarrow> string" where
  "text_or d t = (if t = '''' then d else t)"

definition http_Deposit :: "env \<Rightarrow> web_env \<Rightarrow> 'w Handler \<Rightarrow> (gen \<times> 'w) handler" where
  "http_Deposit e we h r s =
     (case we_deposit we (rq_Body r) of
        None \<Rightarrow> (writeJSON (we_text we) [] 400 (errorResponse ''invalid request body''), s)
      | Some req \<Rightarrow>
          (case NewAccountID e (dq_AccountID req) of
             Inl err \<Rightarrow> (writeJSON (we_text we) [] 400 (errorResponse ''invalid account_id''), s)
           | Inr accID \<Rightarrow>
               let n = cents (we_big we) (dq_Amount req) in
               if sint n \<le> 0 then (writeJSON (we_text we) [] 400 (errorResponse ''amount must be positive''), s)
               else
                 (case Deposit e (h_svc h) accID n (currency_or_USD (dq_Currency req))
                         (text_or ''Deposit'' (dq_Description req)) (fst s) (snd s) of
                    (Inl err, s1) \<Rightarrow> (writeJSON (we_text we) [] 422 (errorResponse (error_Error err)), s1)
                  | (Inr _, s1) \<Rightarrow>
                      (writeJSON (we_text we) [] 200 (Some (JObject [(''status'', JString ''deposited'')])), s1))))"

text \<open>The steps of a saga; a timestamp without a JSON form makes the whole value unencodable.\<close>

definition step_json :: "env \<Rightarrow> SagaStep \<Rightarrow> json option" where
  "step_json e st = map_option (\<lambda>t. JObject
     [(''action'', JString (ss_Action st)), (''state'', JString (SagaState_string (ss_State st))),
      (''detail'', JString (ss_Detail st)), (''timestamp'', JString t)]) (json_time e (ss_Timestamp st))"

definition saga_json :: "env \<Rightarrow> (string \<times> json) list \<Rightarrow> Transfer \<Rightarrow> json option" where
  "saga_json e front saga = map_option (\<lambda>steps. JObject (front @
     [(''state'', JString (SagaState_string (t_state saga))), (''steps'', JArray steps),
      (''transfer_id'', JString (t_id saga))])) (those (map (step_json e) (t_steps saga)))"

definition http_Transfer :: "env \<Rightarrow> web_env \<Rightarrow> 'w Handler \<Rightarrow> (gen \<times> 'w) handler" where
  "http_Transfer e we h r s =
     (case we_transfer we (rq_Body r) of
        None \<Rightarrow> (writeJSON (we_text we) [] 400 (errorResponse ''invalid request body''), s)
      | Some req \<Rightarrow>
          (case NewAccountID e (tq_FromAccountID req) of
             Inl err \<Rightarrow> (writeJSON (we_text we) [] 400 (errorResponse ''invalid from_account_id''), s)
           | Inr fromID \<Rightarrow>
               (case NewAccountID e (tq_ToAccountID req) of
                  Inl err \<Rightarrow> (writeJSON (we_text we) [] 400 (errorResponse ''invalid to_account_id''), s)
                | Inr toID \<Rightarrow>
                    (case Execute e (h_transferSvc h)
                            \<lparr>tc_FromAccountID = fromID, tc_ToAccountID = toID,
                             tc_Amount = cents (we_big we) (tq_Amount req),
                             tc_Currency = currency_or_USD (tq_Currency req),
                             tc_Description = text_or ''Transfer'' (tq_Description req)\<rparr> (fst s) (snd s) of
                       ((None, Some err), s1) \<Rightarrow> (Panicked, s1)
                     | ((Some saga, Some err), s1) \<Rightarrow>
                         (writeJSON (we_text we) [] 422 (saga_json e [(''error'', JString (error_Error err))] saga), s1)
                     | ((None, None), s1) \<Rightarrow> (Panicked, s1)
                     | ((Some saga, None), s1) \<Rightarrow>
                         (writeJSON (we_text we) [] 201 (saga_json e [] saga), s1)))))"

subsection \<open>Queries\<close>

definition AccountView_json :: "env \<Rightarrow> AccountView \<Rightarrow> json option" where
  "AccountView_json e v = map_option (\<lambda>t. JObject
     [(''account_id'', JString (av_AccountID v)), (''name'', JString (av_Name v)),
      (''account_type'', JString (av_AccountType v)), (''currency'', JString (av_Currency v)),
      (''balance'', JInt (sint (av_Balance v))), (''status'', JString (av_Status v)),
      (''version'', JInt (sint (av_Version v))), (''updated_at'', JString t)]) (json_time e (av_UpdatedAt v))"

definition HistoryEntry_json :: "env \<Rightarrow> TransactionHistoryEntry \<Rightarrow> json option" where
  "HistoryEntry_json e th = map_option (\<lambda>t. JObject
     [(''id'', JInt (sint (th_ID th))), (''transaction_id'', JString (th_TransactionID th)),
      (''account_id'', JString (th_AccountID th)), (''entry_type'', JString (th_EntryType th)),
      (''amount'', JInt (sint (th_Amount th))), (''currency'', JString (th_Currency th)),
      (''description'', JString (th_Description th)), (''balance_after'', JInt (sint (th_BalanceAfter th))),
      (''created_at'', JString t)]) (json_time e (th_CreatedAt th))"

definition http_GetBalance :: "env \<Rightarrow> web_env \<Rightarrow> 'w Handler \<Rightarrow> string \<Rightarrow> (gen \<times> 'w) handler" where
  "http_GetBalance e we h accountID r s =
     (case qs_GetAccountBalance (h_queries h) accountID (snd s) of
        (Inl err, w1) \<Rightarrow> (writeJSON (we_text we) [] 404 (errorResponse (error_Error err)), (fst s, w1))
      | (Inr v, w1) \<Rightarrow> (writeJSON (we_text we) [] 200 (AccountView_json e v), (fst s, w1)))"

definition http_ListAccounts :: "env \<Rightarrow> web_env \<Rightarrow> 'w Handler \<Rightarrow> (gen \<times> 'w) handler" where
  "http_ListAccounts e we h r s =
     (case qs_ListAccounts (h_queries h) (snd s) of
        (Inl err, w1) \<Rightarrow> (writeJSON (we_text we) [] 500 (errorResponse (error_Error err)), (fst s, w1))
      | (Inr accounts, w1) \<Rightarrow>
          (writeJSON (we_text we) [] 200 (map_option JArray (those (map (AccountView_json e) accounts))), (fst s, w1)))"

definition http_GetTransactionHistory :: "env \<Rightarrow> web_env \<Rightarrow> 'w Handler \<Rightarrow> string \<Rightarrow> (gen \<times> 'w) handler" where
  "http_GetTransactionHistory e we h accountID r s =
     (case qs_GetTransactionHistory (h_queries h) accountID 100 0 (snd s) of
        (Inl err, w1) \<Rightarrow> (writeJSON (we_text we) [] 500 (errorResponse (error_Error err)), (fst s, w1))
      | (Inr history, w1) \<Rightarrow>
          (writeJSON (we_text we) [] 200 (map_option JArray (those (map (HistoryEntry_json e) history))), (fst s, w1)))"

end
