(* ===== verification/Idempotency_Store.thy ===== *)
theory Idempotency_Store
  imports Http_Messages
begin

section \<open>Idempotency store (internal/infra/redis/idempotency.go)\<close>

text \<open>
  The store over Redis. The server and its client are not part of the repository: \<open>redis_env\<close> says
  which command fails (it has then had no effect), what the server clock shows at a command, and
  whether the client returns a nil slice for an empty value. A key is gone once its time to live is
  over.
\<close>

record redis_env =
  rd_fault :: "nat \<Rightarrow> string option"
  rd_now :: "nat \<Rightarrow> time"
  rd_empty_nil :: bool

record redis_db =
  rd_data :: "string \<rightharpoonup> string \<times> time"
  rd_calls :: nat

definition empty_redis :: redis_db where
  "empty_redis = \<lparr>rd_data = Map.empty, rd_calls = 0\<rparr>"

subsection \<open>Commands\<close>

definition redis_call :: "redis_env \<Rightarrow> redis_db \<Rightarrow> string option \<times> redis_db" where
  "redis_call re rd = (rd_fault re (rd_calls rd), rd\<lparr>rd_calls := Suc (rd_calls rd)\<rparr>)"

definition live :: "redis_env \<Rightarrow> redis_db \<Rightarrow> string \<Rightarrow> string option" where
  "live re rd k =
     (case rd_data rd k of
        None \<Rightarrow> None
      | Some (v, expiry) \<Rightarrow> if rd_now re (rd_calls rd) < expiry then Some v else None)"

definition redis_Get :: "redis_env \<Rightarrow> string \<Rightarrow> redis_db \<Rightarrow> (error + string option) \<times> redis_db" where
  "redis_Get re k rd =
     (case redis_call re rd of
        (Some err, rd1) \<Rightarrow> (Inl (ErrExternal err), rd1)
      | (None, rd1) \<Rightarrow> (Inr (live re rd k), rd1))"

definition redis_Set :: "redis_env \<Rightarrow> string \<Rightarrow> string \<Rightarrow> time \<Rightarrow> redis_db \<Rightarrow> error option \<times> redis_db" where
  "redis_Set re k v ttl rd =
     (case redis_call re rd of
        (Some err, rd1) \<Rightarrow> (Some (ErrExternal err), rd1)
      | (None, rd1) \<Rightarrow> (None, rd1\<lparr>rd_data := (rd_data rd1)(k \<mapsto> (v, rd_now re (rd_calls rd) + ttl))\<rparr>))"

definition redis_SetNX :: "redis_env \<Rightarrow> string \<Rightarrow> string \<Rightarrow> time \<Rightarrow> redis_db \<Rightarrow> (error + bool) \<times> redis_db" where
  "redis_SetNX re k v ttl rd =
     (case redis_call re rd of
        (Some err, rd1) \<Rightarrow> (Inl (ErrExternal err), rd1)
      | (None, rd1) \<Rightarrow>
          if live re rd k \<noteq> None then (Inr False, rd1)
          else (Inr True, rd1\<lparr>rd_data := (rd_data rd1)(k \<mapsto> (v, rd_now re (rd_calls rd) + ttl))\<rparr>))"

definition redis_Del :: "redis_env \<Rightarrow> string \<Rightarrow> redis_db \<Rightarrow> error option \<times> redis_db" where
  "redis_Del re k rd =
     (case redis_call re rd of
        (Some err, rd1) \<Rightarrow> (Some (ErrExternal err), rd1)
      | (None, rd1) \<Rightarrow> (None, rd1\<lparr>rd_data := (rd_data rd1)(k := None)\<rparr>))"

text \<open>\<^verbatim>\<open>strconv.Itoa\<close> and \<^verbatim>\<open>strconv.Atoi\<close>: a syntax error gives 0, a value out of range the
  nearest int64, both with an error.\<close>

definition strconv_Itoa :: "int \<Rightarrow> string" where
  "strconv_Itoa n = (if n < 0 then CHR ''-'' # decimal (nat (- n)) else decimal (nat n))"

definition is_digit :: "char \<Rightarrow> bool" where
  "is_digit c \<longleftrightarrow> 48 \<le> (of_char c :: nat) \<and> (of_char c :: nat) \<le> 57"

definition Atoi_range :: "int \<Rightarrow> int \<times> error option" where
  "Atoi_range n =
     (if n < - (2 ^ 63) then (- (2 ^ 63), Some (ErrExternal ''value out of range''))
      else if 2 ^ 63 \<le> n then (2 ^ 63 - 1, Some (ErrExternal ''value out of range''))
      else (n, None))"

definition strconv_Atoi :: "string \<Rightarrow> int \<times> error option" where
  "strconv_Atoi s =
     (let digits = (case s of [] \<Rightarrow> [] | c # cs \<Rightarrow> if c = CHR ''-'' \<or> c = CHR ''+'' then cs else s) in
      if digits \<noteq> [] \<and> list_all is_digit digits
      then Atoi_range (if hd s = CHR ''-'' then - int (undecimal 0 digits) else int (undecimal 0 digits))
      else (0, Some (ErrExternal ''invalid syntax'')))"

subsection \<open>The store\<close>

definition idempotencyKey :: "string \<Rightarrow> string" where
  "idempotencyKey key = ''idem:'' @ key"

definition idempotencyLock :: "string \<Rightarrow> string" where
  "idempotencyLock key = ''idem:lock:'' @ key"

definition idempotencyStatus :: "string \<Rightarrow> string" where
  "idempotencyStatus key = ''idem:status:'' @ key"

record IdempotencyStore =
  is_ttl :: time

definition DefaultTTL :: time where
  "DefaultTTL = 24 * 3600 * 1000000000"

definition lock_ttl :: time where
  "lock_ttl = 30 * 1000000000"

definition NewIdempotencyStore :: IdempotencyStore where
  "NewIdempotencyStore = \<lparr>is_ttl = DefaultTTL\<rparr>"

text \<open>\<open>Check\<close>: no value is a nil slice.\<close>

definition Check :: "redis_env \<Rightarrow> string \<Rightarrow> redis_db \<Rightarrow> (error + string option) \<times> redis_db" where
  "Check re key rd =
     (case redis_Get re (idempotencyKey key) rd of
        (Inl err, rd1) \<Rightarrow> (Inl err, rd1)
      | (Inr None, rd1) \<Rightarrow> (Inr None, rd1)
      | (Inr (Some val), rd1) \<Rightarrow>
          (Inr (if val = [] \<and> rd_empty_nil re then None else Some val), rd1))"

definition Lock :: "redis_env \<Rightarrow> string \<Rightarrow> redis_db \<Rightarrow> (error + bool) \<times> redis_db" where
  "Lock re key rd = redis_SetNX re (idempotencyLock key) ''processing'' lock_ttl rd"

text \<open>The three commands of the pipeline; its error is the first error of a command.\<close>

definition store_body :: "redis_env \<Rightarrow> IdempotencyStore \<Rightarrow> string \<Rightarrow> string \<Rightarrow> redis_db \<Rightarrow> error option \<times> redis_db" where
  "store_body re st key response rd = redis_Set re (idempotencyKey key) response (is_ttl st) rd"

definition store_status :: "redis_env \<Rightarrow> IdempotencyStore \<Rightarrow> string \<Rightarrow> int \<Rightarrow> redis_db \<Rightarrow> error option \<times> redis_db" where
  "store_status re st key statusCode rd =
     redis_Set re (idempotencyStatus key) (strconv_Itoa statusCode) (is_ttl st) rd"

definition store_unlock :: "redis_env \<Rightarrow> string \<Rightarrow> redis_db \<Rightarrow> error option \<times> redis_db" where
  "store_unlock re key rd = redis_Del re (idempotencyLock key) rd"

definition first_error :: "error option \<Rightarrow> error option \<Rightarrow> error option" where
  "first_error e1 e2 = (case e1 of None \<Rightarrow> e2 | Some err \<Rightarrow> Some err)"

definition Store ::
  "redis_env \<Rightarrow> IdempotencyStore \<Rightarrow> string \<Rightarrow> string \<Rightarrow> int \<Rightarrow> redis_db \<Rightarrow> error option \<times> redis_db" where
  "Store re st key response statusCode rd =
     (let (e1, rd1) = store_body re st key response rd;
          (e2, rd2) = store_status re st key statusCode rd1;
          (e3, rd3) = store_unlock re key rd2
      in (first_error (first_error e1 e2) e3, rd3))"

definition GetStatus :: "redis_env \<Rightarrow> string \<Rightarrow> redis_db \<Rightarrow> (int \<times> error option) \<times> redis_db" where
  "GetStatus re key rd =
     (case redis_Get re (idempotencyStatus key) rd of
        (Inl err, rd1) \<Rightarrow> ((0, Some err), rd1)
      | (Inr None, rd1) \<Rightarrow> ((0, None), rd1)
      | (Inr (Some val), rd1) \<Rightarrow> (strconv_Atoi val, rd1))"

definition Unlock :: "redis_env \<Rightarrow> string \<Rightarrow> redis_db \<Rightarrow> error option \<times> redis_db" where
  "Unlock re key rd = redis_Del re (idempotencyLock key) rd"

subsection \<open>Lemmas\<close>

lemmas redis_defs = redis_Get_def redis_Set_def redis_SetNX_def redis_Del_def redis_call_def

lemma digit_is_digit: "n < 10 \<Longrightarrow> is_digit (digit n)"
  by (simp add: is_digit_def of_char_digit)

lemma decimal_digits: "list_all is_digit (decimal n) \<and> decimal n \<noteq> []"
proof (induction n rule: decimal.induct)
  case (1 n)
  then show ?case by (subst (1 2) decimal.simps) (auto simp: digit_is_digit)
qed

lemma is_digit_sign: "is_digit c \<Longrightarrow> c \<noteq> CHR ''-'' \<and> c \<noteq> CHR ''+''"
  by (auto simp: is_digit_def)

lemma Atoi_Itoa: "in_int64 n \<Longrightarrow> strconv_Atoi (strconv_Itoa n) = (n, None)"
proof (cases "n < 0")
  case True
  assume "in_int64 n"
  with True decimal_digits [of "nat (- n)"] show ?thesis
    by (simp add: strconv_Atoi_def strconv_Itoa_def Atoi_range_def in_int64_def)
next
  case False
  assume range: "in_int64 n"
  obtain c cs where c: "decimal (nat n) = c # cs" using decimal_digits [of "nat n"] by (cases "decimal (nat n)") auto
  have u: "undecimal 0 (c # cs) = nat n" by (metis c undecimal_decimal)
  from c decimal_digits [of "nat n"] have d: "list_all is_digit (c # cs)" by simp
  then have "c \<noteq> CHR ''-''" "c \<noteq> CHR ''+''" using is_digit_sign by simp_all
  with False range d u show ?thesis
    by (simp add: strconv_Atoi_def strconv_Itoa_def Atoi_range_def in_int64_def c del: undecimal.simps)
qed

text \<open>The three entries of one key are different from each other; those of two keys need not be.\<close>

lemma entry_keys_distinct [simp]:
  "idempotencyKey k \<noteq> idempotencyLock k" "idempotencyLock k \<noteq> idempotencyKey k"
  "idempotencyKey k \<noteq> idempotencyStatus k" "idempotencyStatus k \<noteq> idempotencyKey k"
  "idempotencyStatus k \<noteq> idempotencyLock k'" "idempotencyLock k' \<noteq> idempotencyStatus k"
proof -
  have "length (idempotencyKey k) \<noteq> length (idempotencyLock k)"
    "length (idempotencyKey k) \<noteq> length (idempotencyStatus k)"
    by (simp_all add: idempotencyKey_def idempotencyLock_def idempotencyStatus_def)
  then show "idempotencyKey k \<noteq> idempotencyLock k" "idempotencyLock k \<noteq> idempotencyKey k"
    "idempotencyKey k \<noteq> idempotencyStatus k" "idempotencyStatus k \<noteq> idempotencyKey k" by metis+
qed (simp_all add: idempotencyLock_def idempotencyStatus_def)

lemma idempotencyLock_inject [simp]: "idempotencyLock k = idempotencyLock k' \<longleftrightarrow> k = k'"
  by (simp add: idempotencyLock_def)

definition redis_quiet :: "redis_env \<Rightarrow> bool" where
  "redis_quiet re \<longleftrightarrow> (\<forall>n. rd_fault re n = None)"

text \<open>All readings of the clock lie within a window of length \<open>d\<close>.\<close>

definition window :: "redis_env \<Rightarrow> time \<Rightarrow> bool" where
  "window re d \<longleftrightarrow> (\<forall>m n. rd_now re m < rd_now re n + d)"

lemma window_mono: "window re d \<Longrightarrow> d \<le> d' \<Longrightarrow> window re d'"
  by (smt (verit) window_def)

definition sample_redis :: redis_env where
  "sample_redis = \<lparr>rd_fault = (\<lambda>_. None), rd_now = (\<lambda>n. 1000 * (int n mod 1000)), rd_empty_nil = False\<rparr>"

lemma sample_redis_ok [simp]: "redis_quiet sample_redis" "window sample_redis lock_ttl"
proof -
  show "window sample_redis lock_ttl" unfolding window_def sample_redis_def lock_ttl_def
  proof (intro allI)
    fix m n :: nat
    have "int m mod 1000 < 1000" "0 \<le> int n mod 1000" by simp_all
    then show "rd_now \<lparr>rd_fault = \<lambda>_. None, rd_now = \<lambda>n. 1000 * (int n mod 1000), rd_empty_nil = False\<rparr> m
      < rd_now \<lparr>rd_fault = \<lambda>_. None, rd_now = \<lambda>n. 1000 * (int n mod 1000), rd_empty_nil = False\<rparr> n + 30 * 1000000000"
      by simp
  qed
qed (simp add: redis_quiet_def sample_redis_def)

end
