(* ===== verification/Idempotency_Middleware.thy ===== *)
theory Idempotency_Middleware
  imports Idempotency_Store
begin

section \<open>Idempotency middleware (internal/infra/http/idempotency.go)\<close>

text \<open>
  The middleware twice: as one function that handles a request without interruption, and as the
  sequence of its accesses to Redis, one step each, so that requests which are served at the same
  time can be interleaved. The two are proved equal for an uninterrupted request. The handler behind
  the middleware is a parameter over a state \<open>'s\<close>.
\<close>

definition is_write :: "http_request \<Rightarrow> bool" where
  "is_write r \<longleftrightarrow> rq_Method r = ''POST'' \<or> rq_Method r = ''PUT''"

definition request_key :: "http_request \<Rightarrow> string" where
  "request_key r = rq_Header r ''Idempotency-Key''"

text \<open>The replayed response.\<close>

definition replay :: "int \<Rightarrow> string \<Rightarrow> reply" where
  "replay st cached =
     (let status = (if st = 0 then 200 else st) in
      if WriteHeader_ok status
      then Reply \<lparr>rs_headers = [(''Content-Type'', ''application/json''), (''Idempotency-Replayed'', ''true'')],
                  rs_status = status, rs_body = cached\<rparr>
      else Panicked)"

text \<open>The recorder: it keeps the status and the body and passes them on to the writer behind it. A status of 0
  is the one of a writer whose \<open>WriteHeader\<close> has not been called; a second call is ignored by the
  writer.\<close>

record responseRecorder =
  rr_ResponseWriter :: http_response
  rr_body :: string
  rr_statusCode :: int

definition rr_WriteHeader :: "int \<Rightarrow> responseRecorder \<Rightarrow> responseRecorder" where
  "rr_WriteHeader code r = r\<lparr>rr_statusCode := code,
     rr_ResponseWriter := (rr_ResponseWriter r)\<lparr>rs_status :=
       (if rs_status (rr_ResponseWriter r) = 0 then code else rs_status (rr_ResponseWriter r))\<rparr>\<rparr>"

definition rr_Write :: "string \<Rightarrow> responseRecorder \<Rightarrow> responseRecorder" where
  "rr_Write b r = r\<lparr>rr_body := rr_body r @ b,
     rr_ResponseWriter := (rr_ResponseWriter r)\<lparr>rs_body := rs_body (rr_ResponseWriter r) @ b\<rparr>\<rparr>"

text \<open>The recorder after the handler has written a response to it.\<close>

definition recorded :: "http_response \<Rightarrow> responseRecorder" where
  "recorded resp =
     (let fresh = \<lparr>rr_ResponseWriter = \<lparr>rs_headers = rs_headers resp, rs_status = 0, rs_body = ''''\<rparr>,
                   rr_body = '''', rr_statusCode = 0\<rparr>
      in rr_Write (rs_body resp) (if rs_status resp = 0 then fresh else rr_WriteHeader (rs_status resp) fresh))"

lemma recorded_simps [simp]:
  "rr_body (recorded resp) = rs_body resp" "rr_statusCode (recorded resp) = rs_status resp"
  "rr_ResponseWriter (recorded resp) = resp"
  by (simp_all add: recorded_def rr_Write_def rr_WriteHeader_def Let_def)

definition IdempotencyMiddleware ::
  "json_text \<Rightarrow> redis_env \<Rightarrow> IdempotencyStore \<Rightarrow> 's handler \<Rightarrow> http_request \<Rightarrow> redis_db \<Rightarrow> 's \<Rightarrow>
   reply \<times> redis_db \<times> 's" where
  "IdempotencyMiddleware enc re st serve r rd s =
     (if \<not> is_write r then (case serve r s of (rep, s1) \<Rightarrow> (rep, rd, s1))
      else
        let key = request_key r in
        if key = '''' then (case serve r s of (rep, s1) \<Rightarrow> (rep, rd, s1))
        else
          (case Check re key rd of
             (Inl err, rd1) \<Rightarrow> (writeJSON enc [] 500 (errorResponse ''idempotency check failed''), rd1, s)
           | (Inr (Some cached), rd1) \<Rightarrow>
               (case GetStatus re key rd1 of ((status, _), rd2) \<Rightarrow> (replay status cached, rd2, s))
           | (Inr None, rd1) \<Rightarrow>
               (case Lock re key rd1 of
                  (Inl err, rd2) \<Rightarrow> (writeJSON enc [] 500 (errorResponse ''idempotency lock failed''), rd2, s)
                | (Inr False, rd2) \<Rightarrow>
                    (writeJSON enc [(''Retry-After'', ''1'')] 409
                       (errorResponse ''request is already being processed''), rd2, s)
                | (Inr True, rd2) \<Rightarrow>
                    (case serve r s of
                       (Panicked, s1) \<Rightarrow> (Panicked, rd2, s1)
                     | (Reply resp, s1) \<Rightarrow>
                         let recorder = recorded resp in
                         (case Store re st key (rr_body recorder) (rr_statusCode recorder) rd2 of
                            (None, rd3) \<Rightarrow> (Reply (rr_ResponseWriter recorder), rd3, s1)
                          | (Some err, rd3) \<Rightarrow>
                              (Reply (rr_ResponseWriter recorder), snd (Unlock re key rd3), s1))))))"

subsection \<open>The accesses one by one\<close>

datatype phase =
    Passing
  | Checking
  | ReadingStatus string
  | Locking
  | Serving
  | StoringBody http_response
  | StoringStatus http_response "error option"
  | Releasing http_response "error option"
  | Unlocking http_response
  | Done reply

definition mw_start :: "http_request \<Rightarrow> phase" where
  "mw_start r = (if \<not> is_write r \<or> request_key r = '''' then Passing else Checking)"

fun mw_step ::
  "json_text \<Rightarrow> redis_env \<Rightarrow> IdempotencyStore \<Rightarrow> 's handler \<Rightarrow> http_request \<Rightarrow>
   phase \<Rightarrow> redis_db \<Rightarrow> 's \<Rightarrow> phase \<times> redis_db \<times> 's" where
  "mw_step enc re st serve r Passing rd s = (case serve r s of (rep, s1) \<Rightarrow> (Done rep, rd, s1))"
| "mw_step enc re st serve r Checking rd s =
     (case Check re (request_key r) rd of
        (Inl err, rd1) \<Rightarrow> (Done (writeJSON enc [] 500 (errorResponse ''idempotency check failed'')), rd1, s)
      | (Inr (Some cached), rd1) \<Rightarrow> (ReadingStatus cached, rd1, s)
      | (Inr None, rd1) \<Rightarrow> (Locking, rd1, s))"
| "mw_step enc re st serve r (ReadingStatus cached) rd s =
     (case GetStatus re (request_key r) rd of ((status, _), rd1) \<Rightarrow> (Done (replay status cached), rd1, s))"
| "mw_step enc re st serve r Locking rd s =
     (case Lock re (request_key r) rd of
        (Inl err, rd1) \<Rightarrow> (Done (writeJSON enc [] 500 (errorResponse ''idempotency lock failed'')), rd1, s)
      | (Inr False, rd1) \<Rightarrow>
          (Done (writeJSON enc [(''Retry-After'', ''1'')] 409
             (errorResponse ''request is already being processed'')), rd1, s)
      | (Inr True, rd1) \<Rightarrow> (Serving, rd1, s))"
| "mw_step enc re st serve r Serving rd s =
     (case serve r s of
        (Panicked, s1) \<Rightarrow> (Done Panicked, rd, s1)
      | (Reply resp, s1) \<Rightarrow> (StoringBody resp, rd, s1))"
| "mw_step enc re st serve r (StoringBody resp) rd s =
     (case store_body re st (request_key r) (rs_body resp) rd of (e1, rd1) \<Rightarrow> (StoringStatus resp e1, rd1, s))"
| "mw_step enc re st serve r (StoringStatus resp e1) rd s =
     (case store_status re st (request_key r) (rs_status resp) rd of
        (e2, rd1) \<Rightarrow> (Releasing resp (first_error e1 e2), rd1, s))"
| "mw_step enc re st serve r (Releasing resp e12) rd s =
     (case store_unlock re (request_key r) rd of
        (e3, rd1) \<Rightarrow> (case first_error e12 e3 of
                        None \<Rightarrow> (Done (Reply resp), rd1, s)
                      | Some err \<Rightarrow> (Unlocking resp, rd1, s)))"
| "mw_step enc re st serve r (Unlocking resp) rd s =
     (case Unlock re (request_key r) rd of (_, rd1) \<Rightarrow> (Done (Reply resp), rd1, s))"
| "mw_step enc re st serve r (Done rep) rd s = (Done rep, rd, s)"

fun mw_steps ::
  "json_text \<Rightarrow> redis_env \<Rightarrow> IdempotencyStore \<Rightarrow> 's handler \<Rightarrow> http_request \<Rightarrow> nat \<Rightarrow>
   phase \<Rightarrow> redis_db \<Rightarrow> 's \<Rightarrow> phase \<times> redis_db \<times> 's" where
  "mw_steps enc re st serve r 0 ph rd s = (ph, rd, s)"
| "mw_steps enc re st serve r (Suc n) ph rd s =
     (case mw_step enc re st serve r ph rd s of (ph1, rd1, s1) \<Rightarrow> mw_steps enc re st serve r n ph1 rd1 s1)"

subsection \<open>One request alone\<close>

lemma mw_steps_Done [simp]: "mw_steps enc re st serve r n (Done rep) rd s = (Done rep, rd, s)"
  by (induction n) simp_all

lemma seven_steps: "mw_steps enc re st serve r 7 ph rd s =
  mw_steps enc re st serve r (Suc (Suc (Suc (Suc (Suc (Suc (Suc 0))))))) ph rd s"
  by (simp add: eval_nat_numeral)

text \<open>An uninterrupted request takes at most seven steps (Check, Lock, the handler, the three
  commands of the pipeline, Unlock), and they compute what the middleware as one function computes,
  whatever fails.\<close>

lemma middleware_as_steps:
  "mw_steps enc re st serve r 7 (mw_start r) rd s =
     (case IdempotencyMiddleware enc re st serve r rd s of (rep, rd', s') \<Rightarrow> (Done rep, rd', s'))"
  unfolding seven_steps
  by (auto simp: mw_start_def IdempotencyMiddleware_def Store_def Let_def
      split: prod.splits sum.splits option.splits bool.splits reply.splits)

subsection \<open>Replay\<close>

text \<open>The entries a request writes, and the two entries that hold the answer to a key.\<close>

definition own_entries :: "http_request \<Rightarrow> string set" where
  "own_entries r = (if is_write r \<and> request_key r \<noteq> '''' then
     {idempotencyKey (request_key r), idempotencyLock (request_key r), idempotencyStatus (request_key r)} else {})"

definition answered :: "redis_env \<Rightarrow> string \<Rightarrow> http_response \<Rightarrow> redis_db \<Rightarrow> bool" where
  "answered re k resp rd \<longleftrightarrow> (\<exists>t1 t2. rd_data rd (idempotencyKey k) = Some (rs_body resp, t1)
     \<and> rd_data rd (idempotencyStatus k) = Some (strconv_Itoa (rs_status resp), t2)
     \<and> (\<forall>n. rd_now re n < t1 \<and> rd_now re n < t2))"

text \<open>A request that does not touch the entries of \<open>k\<close>, or has the key \<open>k\<close> itself.\<close>

definition no_clash :: "string \<Rightarrow> http_request \<Rightarrow> bool" where
  "no_clash k r \<longleftrightarrow> request_key r = k \<or> own_entries r \<inter> {idempotencyKey k, idempotencyStatus k} = {}"

fun serve_all ::
  "json_text \<Rightarrow> redis_env \<Rightarrow> IdempotencyStore \<Rightarrow> 's handler \<Rightarrow> http_request list \<Rightarrow> redis_db \<Rightarrow> 's \<Rightarrow>
   redis_db \<times> 's" where
  "serve_all enc re st serve [] rd s = (rd, s)"
| "serve_all enc re st serve (r # rs) rd s =
     (case IdempotencyMiddleware enc re st serve r rd s of (_, rd1, s1) \<Rightarrow> serve_all enc re st serve rs rd1 s1)"

text \<open>Only a request without a key passes the store by.\<close>

definition phase_ok :: "http_request \<Rightarrow> phase \<Rightarrow> bool" where
  "phase_ok r ph \<longleftrightarrow> (case ph of Passing \<Rightarrow> \<not> (is_write r \<and> request_key r \<noteq> '''') | Done _ \<Rightarrow> True
     | _ \<Rightarrow> is_write r \<and> request_key r \<noteq> '''')"

lemma redis_frame:
  "redis_Get re k rd = (x, rd') \<Longrightarrow> rd_data rd' = rd_data rd"
  "redis_SetNX re k v d rd = (y, rd') \<Longrightarrow> k' \<noteq> k \<Longrightarrow> rd_data rd' k' = rd_data rd k'"
  "redis_Set re k v d rd = (z, rd') \<Longrightarrow> k' \<noteq> k \<Longrightarrow> rd_data rd' k' = rd_data rd k'"
  "redis_Del re k rd = (z, rd') \<Longrightarrow> k' \<noteq> k \<Longrightarrow> rd_data rd' k' = rd_data rd k'"
  by (auto simp: redis_defs split: option.splits if_splits)

lemma Check_frame: "Check re k rd = (x, rd') \<Longrightarrow> rd_data rd' = rd_data rd"
  by (auto simp: Check_def dest: redis_frame split: prod.splits sum.splits option.splits)

lemma GetStatus_frame: "GetStatus re k rd = (x, rd') \<Longrightarrow> rd_data rd' = rd_data rd"
  by (auto simp: GetStatus_def dest: redis_frame split: prod.splits sum.splits option.splits)

lemma mw_step_frame:
  assumes "mw_step enc re st serve r ph rd s = (ph', rd', s')" and "k' \<notin> own_entries r" and "phase_ok r ph"
  shows "rd_data rd' k' = rd_data rd k' \<and> phase_ok r ph'"
  using assms
  by (cases ph)
    (auto simp: own_entries_def phase_ok_def Lock_def store_body_def store_status_def store_unlock_def Unlock_def
      dest: Check_frame GetStatus_frame redis_frame
      split: prod.splits sum.splits option.splits bool.splits reply.splits)

lemma mw_steps_frame:
  "mw_steps enc re st serve r n ph rd s = (ph', rd', s') \<Longrightarrow> k' \<notin> own_entries r \<Longrightarrow> phase_ok r ph \<Longrightarrow>
     rd_data rd' k' = rd_data rd k'"
  by (induction n arbitrary: ph rd s) (auto dest!: mw_step_frame split: prod.splits)

lemma phase_ok_start: "phase_ok r (mw_start r)"
  by (simp add: phase_ok_def mw_start_def)

lemma middleware_frame:
  assumes "IdempotencyMiddleware enc re st serve r rd s = (rep, rd', s')" and "k' \<notin> own_entries r"
  shows "rd_data rd' k' = rd_data rd k'"
proof -
  have "mw_steps enc re st serve r 7 (mw_start r) rd s = (Done rep, rd', s')"
    by (simp add: middleware_as_steps assms(1))
  then show ?thesis using assms(2) phase_ok_start by (rule mw_steps_frame)
qed

text \<open>A request whose key is answered gets the answer, and touches neither the state nor the store.\<close>

lemma answered_replays:
  assumes "redis_quiet re" "answered re k resp rd" and "is_write r" "request_key r = k" "k \<noteq> ''''"
    and "in_int64 (rs_status resp)" "rs_body resp \<noteq> '''' \<or> \<not> rd_empty_nil re"
  shows "\<exists>rd'. IdempotencyMiddleware enc re st serve r rd s = (replay (rs_status resp) (rs_body resp), rd', s)
    \<and> rd_data rd' = rd_data rd"
proof -
  have "Check re k rd = (Inr (Some (rs_body resp)), rd\<lparr>rd_calls := Suc (rd_calls rd)\<rparr>)"
    using assms(1,2,7)
    by (auto simp: Check_def redis_defs redis_quiet_def answered_def live_def split: option.splits)
  moreover have "GetStatus re k (rd\<lparr>rd_calls := Suc (rd_calls rd)\<rparr>) =
      ((rs_status resp, None), rd\<lparr>rd_calls := Suc (Suc (rd_calls rd))\<rparr>)"
    using assms(1,2) Atoi_Itoa [OF assms(6)]
    by (auto simp: GetStatus_def redis_defs redis_quiet_def answered_def live_def)
  ultimately show ?thesis using assms(3-5) by (simp add: IdempotencyMiddleware_def Let_def)
qed

lemma answered_kept:
  assumes "IdempotencyMiddleware enc re st serve r rd s = (rep, rd', s')"
    and "redis_quiet re" "answered re k resp rd" "no_clash k r" "k \<noteq> ''''"
    and "in_int64 (rs_status resp)" "rs_body resp \<noteq> '''' \<or> \<not> rd_empty_nil re"
  shows "answered re k resp rd'"
proof (cases "is_write r \<and> request_key r = k")
  case True
  with answered_replays [OF assms(2,3) _ _ assms(5-7), of r enc st serve s] assms(1,3) show ?thesis
    by (auto simp: answered_def)
next
  case False
  with assms(4) have "idempotencyKey k \<notin> own_entries r" "idempotencyStatus k \<notin> own_entries r"
    by (auto simp: no_clash_def own_entries_def)
  with middleware_frame [OF assms(1)] assms(3) show ?thesis by (simp add: answered_def)
qed

lemma serve_all_kept:
  "serve_all enc re st serve rs rd s = (rd', s') \<Longrightarrow> redis_quiet re \<Longrightarrow> answered re k resp rd \<Longrightarrow>
     list_all (no_clash k) rs \<Longrightarrow> k \<noteq> '''' \<Longrightarrow> in_int64 (rs_status resp) \<Longrightarrow>
     rs_body resp \<noteq> '''' \<or> \<not> rd_empty_nil re \<Longrightarrow> answered re k resp rd'"
  by (induction rs arbitrary: rd s) (auto dest!: answered_kept split: prod.splits)

text \<open>The first request with a key.\<close>

lemma new_key_served:
  assumes "redis_quiet re" "window re (is_ttl st)" "is_write r" "request_key r = k" "k \<noteq> ''''"
    and "rd_data rd (idempotencyKey k) = None" "rd_data rd (idempotencyLock k) = None"
    and "serve r s = (Reply resp, s1)"
  shows "\<exists>rd'. IdempotencyMiddleware enc re st serve r rd s = (Reply resp, rd', s1) \<and> answered re k resp rd'
    \<and> rd_data rd' (idempotencyLock k) = None"
proof -
  let ?n = "rd_calls rd"
  let ?rd = "\<lambda>m d. rd\<lparr>rd_data := d, rd_calls := m\<rparr>"
  let ?d2 = "(rd_data rd)(idempotencyLock k \<mapsto> (''processing'', rd_now re (Suc ?n) + lock_ttl))"
  let ?t1 = "rd_now re (Suc (Suc ?n)) + is_ttl st" and ?t2 = "rd_now re (Suc (Suc (Suc ?n))) + is_ttl st"
  let ?d4 = "?d2(idempotencyKey k \<mapsto> (rs_body resp, ?t1),
    idempotencyStatus k \<mapsto> (strconv_Itoa (rs_status resp), ?t2), idempotencyLock k := None)"
  have check: "Check re k rd = (Inr None, rd\<lparr>rd_calls := Suc ?n\<rparr>)"
    using assms(1,6) by (auto simp: Check_def redis_defs redis_quiet_def live_def)
  have lock: "Lock re k (rd\<lparr>rd_calls := Suc ?n\<rparr>) = (Inr True, ?rd (Suc (Suc ?n)) ?d2)"
    using assms(1,7) by (simp add: Lock_def redis_defs redis_quiet_def live_def)
  have store: "Store re st k (rs_body resp) (rs_status resp) (?rd (Suc (Suc ?n)) ?d2)
      = (None, ?rd (Suc (Suc (Suc (Suc (Suc ?n))))) ?d4)"
    using assms(1) by (simp add: Store_def store_body_def store_status_def store_unlock_def redis_defs
        redis_quiet_def first_error_def)
  have "answered re k resp (?rd (Suc (Suc (Suc (Suc (Suc ?n))))) ?d4)"
    using assms(2) by (auto simp: answered_def window_def)
  moreover have "IdempotencyMiddleware enc re st serve r rd s =
      (Reply resp, ?rd (Suc (Suc (Suc (Suc (Suc ?n))))) ?d4, s1)"
    using assms(3-5,8) check lock store by (simp add: IdempotencyMiddleware_def Let_def)
  ultimately show ?thesis by auto
qed

text \<open>C27. Sequential idempotency: among write requests that are served one after the other, the first one
  with a key runs the handler; every later one with that key, whatever was served in between and
  whatever it asks for, gets the stored status and body, and the handler does not run again. This
  holds when Redis answers every command, when nothing stored expires on the way (the clock readings
  lie within the time to live), when the key is not empty and unused before, when no other request in
  between uses a key whose entries share a name with the two entries of this key, when the first
  handler answers instead of panicking, and when its body is not empty or the client tells empty from
  missing.\<close>

theorem idempotent_replay:
  assumes "redis_quiet re" "window re (is_ttl st)" "k \<noteq> ''''"
    and "is_write r" "request_key r = k" "is_write r2" "request_key r2 = k"
    and "rd_data rd (idempotencyKey k) = None" "rd_data rd (idempotencyLock k) = None"
    and "serve r s = (Reply resp, s1)"
    and "in_int64 (rs_status resp)" "rs_body resp \<noteq> '''' \<or> \<not> rd_empty_nil re"
    and "list_all (no_clash k) others"
  shows "\<exists>rd1 rd2 s2 rd3. IdempotencyMiddleware enc re st serve r rd s = (Reply resp, rd1, s1)
    \<and> serve_all enc re st serve others rd1 s1 = (rd2, s2)
    \<and> IdempotencyMiddleware enc re st serve r2 rd2 s2 = (replay (rs_status resp) (rs_body resp), rd3, s2)"
proof -
  obtain rd1 where first: "IdempotencyMiddleware enc re st serve r rd s = (Reply resp, rd1, s1)"
    "answered re k resp rd1"
    using new_key_served [where enc = enc and serve = serve and s = s and r = r, OF assms(1,2,4,5,3,8-10)] by blast
  obtain rd2 s2 where mid: "serve_all enc re st serve others rd1 s1 = (rd2, s2)" by fastforce
  have "answered re k resp rd2"
    by (rule serve_all_kept [OF mid assms(1) first(2) assms(13,3,11,12)])
  from answered_replays [where enc = enc and st = st and serve = serve and s = s2, OF assms(1) this assms(6,7,3,11,12)]
    first mid show ?thesis by blast
qed

text \<open>A handler that counts how often it ran.\<close>

definition count_serve :: "nat handler" where
  "count_serve r n = (Reply \<lparr>rs_headers = [], rs_status = 201, rs_body = ''created''\<rparr>, Suc n)"

definition post_with :: "string \<Rightarrow> http_request" where
  "post_with key = \<lparr>rq_Method = ''POST'', rq_Path = [], rq_Header = (\<lambda>h. if h = ''Idempotency-Key'' then key else ''''),
     rq_Body = ''''\<rparr>"

lemma post_with_simps [simp]: "is_write (post_with key)" "request_key (post_with key) = key"
  by (simp_all add: post_with_def is_write_def request_key_def)

lemma sample_window [simp]: "window sample_redis (is_ttl NewIdempotencyStore)"
  by (rule window_mono [OF sample_redis_ok(2)]) (simp add: lock_ttl_def NewIdempotencyStore_def DefaultTTL_def)

theorem idempotent_replay_witness:
  "\<exists>rd1 rd2 s2 rd3.
     IdempotencyMiddleware sample_text sample_redis NewIdempotencyStore count_serve (post_with ''a'') empty_redis 0
       = (Reply \<lparr>rs_headers = [], rs_status = 201, rs_body = ''created''\<rparr>, rd1, 1)
     \<and> serve_all sample_text sample_redis NewIdempotencyStore count_serve [post_with ''b'', post_with ''a''] rd1 1 = (rd2, s2)
     \<and> IdempotencyMiddleware sample_text sample_redis NewIdempotencyStore count_serve (post_with ''a'') rd2 s2
       = (replay 201 ''created'', rd3, s2)"
  using idempotent_replay [where re = sample_redis and st = NewIdempotencyStore and k = "''a''"
      and r = "post_with ''a''" and ?r2.0 = "post_with ''a''" and rd = empty_redis and serve = count_serve
      and s = 0 and ?s1.0 = 1 and resp = "\<lparr>rs_headers = [], rs_status = 201, rs_body = ''created''\<rparr>"
      and others = "[post_with ''b'', post_with ''a'']" and enc = sample_text]
  by (simp add: empty_redis_def count_serve_def in_int64_def no_clash_def own_entries_def
      idempotencyKey_def idempotencyLock_def idempotencyStatus_def)

text \<open>The entries of different keys share one name space: once a request with the key
  \<^verbatim>\<open>lock:a\<close> has been answered, its stored body is taken for the lock of the key
  \<^verbatim>\<open>a\<close>, and requests with that key are refused with 409 until the response expires.\<close>

lemma lock_key_collision:
  "case IdempotencyMiddleware sample_text sample_redis NewIdempotencyStore count_serve (post_with ''lock:a'') empty_redis 0 of
     (rep1, rd1, n1) \<Rightarrow>
       (case IdempotencyMiddleware sample_text sample_redis NewIdempotencyStore count_serve (post_with ''a'') rd1 n1 of
          (Reply resp, rd2, n2) \<Rightarrow> rs_status resp = 409 \<and> n2 = 1
        | (Panicked, rd2, n2) \<Rightarrow> False)"
  by code_simp

text \<open>A handler that panics leaves its lock behind, since neither Store nor Unlock is reached:
  retries with the same key are refused with 409 as long as the lock lives.\<close>

lemma panic_keeps_lock:
  assumes "redis_quiet re" "window re lock_ttl" "k \<noteq> ''''"
    and "is_write r" "request_key r = k" "is_write r2" "request_key r2 = k"
    and "rd_data rd (idempotencyKey k) = None" "rd_data rd (idempotencyLock k) = None"
    and "serve r s = (Panicked, s1)"
  shows "\<exists>rd1 rd2. IdempotencyMiddleware enc re st serve r rd s = (Panicked, rd1, s1)
    \<and> IdempotencyMiddleware enc re st serve r2 rd1 s1 =
        (writeJSON enc [(''Retry-After'', ''1'')] 409 (errorResponse ''request is already being processed''), rd2, s1)"
proof -
  let ?n = "rd_calls rd"
  let ?rd = "rd\<lparr>rd_data := (rd_data rd)(idempotencyLock k \<mapsto> (''processing'', rd_now re (Suc ?n) + lock_ttl)),
    rd_calls := Suc (Suc ?n)\<rparr>"
  have check: "Check re k rd = (Inr None, rd\<lparr>rd_calls := Suc ?n\<rparr>)"
    "Check re k ?rd = (Inr None, ?rd\<lparr>rd_calls := Suc (Suc (Suc ?n))\<rparr>)"
    using assms(1,8) by (simp_all add: Check_def redis_defs redis_quiet_def live_def)
  have lock: "Lock re k (rd\<lparr>rd_calls := Suc ?n\<rparr>) = (Inr True, ?rd)"
    "Lock re k (?rd\<lparr>rd_calls := Suc (Suc (Suc ?n))\<rparr>) = (Inr False, ?rd\<lparr>rd_calls := Suc (Suc (Suc (Suc ?n)))\<rparr>)"
    using assms(1,2,9) by (simp_all add: Lock_def redis_defs redis_quiet_def live_def window_def)
  show ?thesis
    using assms(3-7,10) check lock by (simp add: IdempotencyMiddleware_def Let_def)
qed

lemma panic_keeps_lock_witness:
  "\<exists>rd1 rd2. IdempotencyMiddleware sample_text sample_redis NewIdempotencyStore (\<lambda>r n. (Panicked, Suc n))
       (post_with ''a'') empty_redis 0 = (Panicked, rd1, 1)
    \<and> IdempotencyMiddleware sample_text sample_redis NewIdempotencyStore (\<lambda>r n. (Panicked, Suc n)) (post_with ''a'') rd1 1 =
        (writeJSON sample_text [(''Retry-After'', ''1'')] 409 (errorResponse ''request is already being processed''), rd2, 1)"
  using panic_keeps_lock [where re = sample_redis and st = NewIdempotencyStore and k = "''a''"
      and r = "post_with ''a''" and ?r2.0 = "post_with ''a''" and rd = empty_redis
      and serve = "\<lambda>r n. (Panicked, Suc n)" and s = 0 and ?s1.0 = 1 and enc = sample_text]
  by (simp add: empty_redis_def)

end
