(* ===== verification/Health_Check.thy ===== *)
theory Health_Check
  imports Postgres_Events Idempotency_Store
begin

section \<open>Health endpoint (internal/infra/observability/health.go)\<close>

text \<open>
  The endpoint pings Postgres and Redis and counts the unpublished rows of the outbox. The text of a
  \<^verbatim>\<open>time.Duration\<close> is a parameter, \<open>dur\<close>; a ping or query that runs into the timeout is one that fails.
\<close>

record check =
  ck_Status :: string
  ck_Latency :: string
  ck_Error :: string

record healthResponse =
  hc_Status :: string
  hc_Checks :: "(string \<times> check) list"
  hc_Uptime :: string

text \<open>\<^verbatim>\<open>Duration.Round\<close>: half away from zero.\<close>

definition Duration_Round :: "int \<Rightarrow> int \<Rightarrow> int" where
  "Duration_Round d m =
     (let r = \<bar>d\<bar> mod m in sgn d * (if r + r < m then \<bar>d\<bar> - r else \<bar>d\<bar> + m - r))"

definition checkPostgres :: "env \<Rightarrow> (int \<Rightarrow> string) \<Rightarrow> pg_env \<Rightarrow> gen \<Rightarrow> pg_db \<Rightarrow> check \<times> gen \<times> pg_db" where
  "checkPostgres e dur pe g db =
     (let (start, g1) = time_Now e g;
          (err, db1) = pg_call pe db;
          (now, g2) = time_Now e g1;
          latency = dur (now - start)
      in case err of
           Some msg \<Rightarrow> (\<lparr>ck_Status = ''error'', ck_Latency = latency, ck_Error = msg\<rparr>, g2, db1)
         | None \<Rightarrow> (\<lparr>ck_Status = ''ok'', ck_Latency = latency, ck_Error = ''''\<rparr>, g2, db1))"

definition checkRedis :: "env \<Rightarrow> (int \<Rightarrow> string) \<Rightarrow> redis_env \<Rightarrow> gen \<Rightarrow> redis_db \<Rightarrow> check \<times> gen \<times> redis_db" where
  "checkRedis e dur re g rd =
     (let (start, g1) = time_Now e g;
          (err, rd1) = redis_call re rd;
          (now, g2) = time_Now e g1;
          latency = dur (now - start)
      in case err of
           Some msg \<Rightarrow> (\<lparr>ck_Status = ''error'', ck_Latency = latency, ck_Error = msg\<rparr>, g2, rd1)
         | None \<Rightarrow> (\<lparr>ck_Status = ''ok'', ck_Latency = latency, ck_Error = ''''\<rparr>, g2, rd1))"

definition backlog :: "pg_db \<Rightarrow> nat" where
  "backlog db = length (filter (\<lambda>r. \<not> ob_published r) (db_outbox db))"

definition backlog_status :: "int \<Rightarrow> string" where
  "backlog_status pending =
     (let status = ''ok'';
          status = (if 100 < pending then ''warning'' else status)
      in if 1000 < pending then ''critical'' else status)"

definition checkOutboxBacklog :: "pg_env \<Rightarrow> pg_db \<Rightarrow> check \<times> pg_db" where
  "checkOutboxBacklog pe db =
     (case pg_call pe db of
        (Some msg, db1) \<Rightarrow> (\<lparr>ck_Status = ''error'', ck_Latency = '''', ck_Error = msg\<rparr>, db1)
      | (None, db1) \<Rightarrow>
          (\<lparr>ck_Status = backlog_status (int (backlog db1)), ck_Latency = decimal (backlog db1) @ '' pending'',
            ck_Error = ''''\<rparr>, db1))"

text \<open>The fields tagged \<^verbatim>\<open>omitempty\<close> are left out when empty; a map is written with sorted keys.\<close>

definition check_json :: "check \<Rightarrow> json" where
  "check_json c = JObject ([(''status'', JString (ck_Status c))]
     @ (if ck_Latency c = '''' then [] else [(''latency'', JString (ck_Latency c))])
     @ (if ck_Error c = '''' then [] else [(''error'', JString (ck_Error c))]))"

definition health_json :: "healthResponse \<Rightarrow> json" where
  "health_json hr = JObject
     [(''status'', JString (hc_Status hr)),
      (''checks'', JObject (map (\<lambda>(k, c). (k, check_json c)) (hc_Checks hr))),
      (''uptime'', JString (hc_Uptime hr))]"

definition HealthChecker_Handler ::
  "env \<Rightarrow> json_text \<Rightarrow> (int \<Rightarrow> string) \<Rightarrow> time \<Rightarrow> pg_env \<Rightarrow> redis_env \<Rightarrow> gen \<Rightarrow> pg_db \<Rightarrow> redis_db \<Rightarrow>
   reply \<times> gen \<times> pg_db \<times> redis_db" where
  "HealthChecker_Handler e enc dur startTime pe re g db rd =
     (let (postgres, g1, db1) = checkPostgres e dur pe g db;
          allHealthy = (ck_Status postgres = ''ok'');
          (redis, g2, rd1) = checkRedis e dur re g1 rd;
          allHealthy = (if ck_Status redis \<noteq> ''ok'' then False else allHealthy);
          (outbox, db2) = checkOutboxBacklog pe db1;
          status = (if allHealthy then ''healthy'' else ''degraded'');
          httpStatus = (if allHealthy then 200 else 503);
          (now, g3) = time_Now e g2;
          resp = \<lparr>hc_Status = status,
                  hc_Checks = [(''outbox'', outbox), (''postgres'', postgres), (''redis'', redis)],
                  hc_Uptime = dur (Duration_Round (now - startTime) 1000000000)\<rparr>
      in (writeJSON enc [] httpStatus (Some (health_json resp)), g3, db2, rd1))"

subsection \<open>Properties\<close>

lemma backlog_status_iff:
  "backlog_status n = ''critical'' \<longleftrightarrow> 1000 < n"
  "backlog_status n = ''warning'' \<longleftrightarrow> 100 < n \<and> n \<le> 1000"
  "backlog_status n = ''ok'' \<longleftrightarrow> n \<le> 100"
  by (auto simp: backlog_status_def Let_def)

lemma pings:
  "checkPostgres e dur pe g db = (c, g', db') \<Longrightarrow> (ck_Status c = ''ok'' \<longleftrightarrow> pg_fault pe (db_calls db) = None)
     \<and> db' = db\<lparr>db_calls := Suc (db_calls db)\<rparr>"
  "checkRedis e dur re g rd = (c, g', rd') \<Longrightarrow> (ck_Status c = ''ok'' \<longleftrightarrow> rd_fault re (rd_calls rd) = None)
     \<and> rd' = rd\<lparr>rd_calls := Suc (rd_calls rd)\<rparr>"
  by (auto simp: checkPostgres_def checkRedis_def pg_call_def redis_call_def Let_def split: option.splits prod.splits)

text \<open>The health endpoint answers 200 exactly when the pings of Postgres and of Redis succeed, and 503
  otherwise; the outbox never changes the answer, not even a failing count or a critical backlog. The
  endpoint changes no table and no key.\<close>

lemma health_status:
  assumes "HealthChecker_Handler e enc dur startTime pe re g db rd = (Reply resp, g', db', rd')"
  shows "rs_status resp = (if pg_fault pe (db_calls db) = None \<and> rd_fault re (rd_calls rd) = None then 200 else 503)
    \<and> same_tables db db' \<and> rd_data rd' = rd_data rd"
proof -
  obtain c1 g1 db1 where p: "checkPostgres e dur pe g db = (c1, g1, db1)" by (metis prod_cases3)
  obtain c2 g2 rd1 where r: "checkRedis e dur re g1 rd = (c2, g2, rd1)" by (metis prod_cases3)
  obtain c3 db2 where o: "checkOutboxBacklog pe db1 = (c3, db2)" by fastforce
  have db2: "db2 = db1\<lparr>db_calls := Suc (db_calls db1)\<rparr>"
    using o by (auto simp: checkOutboxBacklog_def pg_call_def split: option.splits)
  have "rs_status resp = (if ck_Status c1 = ''ok'' \<and> ck_Status c2 = ''ok'' then 200 else 503)" "db' = db2" "rd' = rd1"
    using assms by (simp_all add: HealthChecker_Handler_def p r o Let_def time_Now_def)
  with pings(1) [OF p] pings(2) [OF r] db2 show ?thesis
    by (simp add: frame_simps)
qed

lemma health_status_witness:
  "case HealthChecker_Handler sample_env sample_text (\<lambda>d. ''1s'') 0 (sample_pg\<lparr>pg_fault := \<lambda>n. Some ''down''\<rparr>) sample_redis
      sample_gen empty_db empty_redis of
     (Reply resp, g', db', rd') \<Rightarrow> rs_status resp = 503
   | (Panicked, g', db', rd') \<Rightarrow> False"
proof -
  let ?pe = "sample_pg\<lparr>pg_fault := \<lambda>n. Some ''down''\<rparr>"
  obtain rep g' db' rd' where h: "HealthChecker_Handler sample_env sample_text (\<lambda>d. ''1s'') 0 ?pe sample_redis
      sample_gen empty_db empty_redis = (rep, g', db', rd')" by (metis prod_cases4)
  show ?thesis
  proof (cases rep)
    case (Reply resp)
    from health_status [OF h [unfolded Reply]] show ?thesis by (simp add: h Reply)
  next
    case Panicked
    with h show ?thesis by (auto simp: HealthChecker_Handler_def Let_def split: prod.splits)
  qed
qed

end
