(* ===== verification/Http_Router.thy ===== *)
theory Http_Router
  imports Http_Handlers Idempotency_Middleware Health_Check
begin

section \<open>Router (internal/infra/http/router.go)\<close>

text \<open>
  The table of routes and the chain of middlewares, as far as they decide what happens: Recoverer
  turns a panic into a 500, the idempotency middleware stands before every route. RequestID, CORS, the
  metrics and the logger hand the request on and are left out; the metrics endpoint, the static files and
  the answers for unknown routes are the parameter \<open>other\<close>. The health endpoint pings Redis itself; a
  GET passes the idempotency middleware untouched, so it is dispatched beside it.
\<close>

datatype endpoint =
    EP_Health
  | EP_ListAccounts
  | EP_OpenAccount
  | EP_GetBalance string
  | EP_GetTransactionHistory string
  | EP_RecordTransaction
  | EP_Deposit
  | EP_Transfer
  | EP_Other

definition api_route :: "string \<Rightarrow> string list \<Rightarrow> endpoint" where
  "api_route m path =
     (case path of
        [a] \<Rightarrow>
          if m = ''GET'' \<and> a = ''accounts'' then EP_ListAccounts
          else if m = ''POST'' \<and> a = ''accounts'' then EP_OpenAccount
          else if m = ''POST'' \<and> a = ''transactions'' then EP_RecordTransaction
          else if m = ''POST'' \<and> a = ''deposit'' then EP_Deposit
          else if m = ''POST'' \<and> a = ''transfers'' then EP_Transfer
          else EP_Other
      | [a, accountID] \<Rightarrow>
          if m = ''GET'' \<and> a = ''accounts'' then EP_GetBalance accountID else EP_Other
      | [a, accountID, b] \<Rightarrow>
          if m = ''GET'' \<and> a = ''accounts'' \<and> b = ''transactions'' then EP_GetTransactionHistory accountID
          else EP_Other
      | _ \<Rightarrow> EP_Other)"

definition route :: "http_request \<Rightarrow> endpoint" where
  "route r =
     (if rq_Method r = ''GET'' \<and> rq_Path r = [''health''] then EP_Health
      else if take 2 (rq_Path r) = [''api'', ''v1''] then api_route (rq_Method r) (drop 2 (rq_Path r))
      else EP_Other)"

definition api_handler ::
  "env \<Rightarrow> web_env \<Rightarrow> 'w Handler \<Rightarrow> (gen \<times> 'w) handler \<Rightarrow> (gen \<times> 'w) handler" where
  "api_handler e we h other r s =
     (case route r of
        EP_ListAccounts \<Rightarrow> http_ListAccounts e we h r s
      | EP_OpenAccount \<Rightarrow> http_OpenAccount e we h r s
      | EP_GetBalance accountID \<Rightarrow> http_GetBalance e we h accountID r s
      | EP_GetTransactionHistory accountID \<Rightarrow> http_GetTransactionHistory e we h accountID r s
      | EP_RecordTransaction \<Rightarrow> http_RecordTransaction e we h r s
      | EP_Deposit \<Rightarrow> http_Deposit e we h r s
      | EP_Transfer \<Rightarrow> http_Transfer e we h r s
      | _ \<Rightarrow> other r s)"

record 'w RouterDeps =
  dp_Handler :: "'w Handler"
  dp_IdempotencyStore :: "IdempotencyStore option"
  dp_Health :: "gen \<times> 'w \<Rightarrow> redis_db \<Rightarrow> reply \<times> (gen \<times> 'w) \<times> redis_db"

definition Recoverer :: "reply \<Rightarrow> http_response" where
  "Recoverer rep = (case rep of Reply resp \<Rightarrow> resp | Panicked \<Rightarrow> \<lparr>rs_headers = [], rs_status = 500, rs_body = ''''\<rparr>)"

definition NewRouter ::
  "env \<Rightarrow> web_env \<Rightarrow> redis_env \<Rightarrow> (gen \<times> 'w) handler \<Rightarrow> 'w RouterDeps \<Rightarrow> http_request \<Rightarrow> redis_db \<Rightarrow> gen \<times> 'w \<Rightarrow>
   http_response \<times> redis_db \<times> gen \<times> 'w" where
  "NewRouter e we re other deps r rd s =
     (if route r = EP_Health then
        (case dp_Health deps s rd of (rep, s1, rd1) \<Rightarrow> (Recoverer rep, rd1, s1))
      else
        (case dp_IdempotencyStore deps of
           None \<Rightarrow> (case api_handler e we (dp_Handler deps) other r s of (rep, s1) \<Rightarrow> (Recoverer rep, rd, s1))
         | Some st \<Rightarrow>
             (case IdempotencyMiddleware (we_text we) re st (api_handler e we (dp_Handler deps) other) r rd s of
                (rep, rd1, s1) \<Rightarrow> (Recoverer rep, rd1, s1))))"

subsection \<open>What the handlers answer\<close>

lemma Execute_no_saga_iff:
  "fst (fst (Execute e ts cmd g w)) = None \<longleftrightarrow>
     \<not> validCurrencies (tc_Currency cmd) \<or> tc_FromAccountID cmd = tc_ToAccountID cmd"
proof (cases "validCurrencies (tc_Currency cmd) \<and> tc_FromAccountID cmd \<noteq> tc_ToAccountID cmd")
  case True
  then have "fst (fst (Execute e ts cmd g w)) \<noteq> None"
    by (auto simp: Execute_def NewMoney_def NewTransfer_def AccountID_Equals_iff compensate_def Let_def
        split: prod.splits sum.splits option.splits)
  with True show ?thesis by simp
next
  case False
  then show ?thesis by (cases "validCurrencies (tc_Currency cmd)") (simp_all add: Execute_invalid Execute_same_account)
qed

text \<open>The command a transfer request asks for.\<close>

definition transfer_cmd :: "env \<Rightarrow> web_env \<Rightarrow> string \<Rightarrow> TransferCmd option" where
  "transfer_cmd e we body =
     (case we_transfer we body of
        None \<Rightarrow> None
      | Some req \<Rightarrow>
          (case (NewAccountID e (tq_FromAccountID req), NewAccountID e (tq_ToAccountID req)) of
             (Inr fromID, Inr toID) \<Rightarrow>
               Some \<lparr>tc_FromAccountID = fromID, tc_ToAccountID = toID, tc_Amount = cents (we_big we) (tq_Amount req),
                 tc_Currency = currency_or_USD (tq_Currency req),
                 tc_Description = text_or ''Transfer'' (tq_Description req)\<rparr>
           | _ \<Rightarrow> None))"

lemma http_Transfer_None:
  "transfer_cmd e we (rq_Body r) = None \<Longrightarrow> \<exists>resp. http_Transfer e we h r s = (Reply resp, s) \<and> rs_status resp = 400"
  by (auto simp: transfer_cmd_def http_Transfer_def split: option.splits sum.splits)

lemma http_Transfer_Some:
  "transfer_cmd e we (rq_Body r) = Some cmd \<Longrightarrow> http_Transfer e we h r s =
     (case Execute e (h_transferSvc h) cmd (fst s) (snd s) of
        ((None, Some err), s1) \<Rightarrow> (Panicked, s1)
      | ((Some saga, Some err), s1) \<Rightarrow>
          (writeJSON (we_text we) [] 422 (saga_json e [(''error'', JString (error_Error err))] saga), s1)
      | ((None, None), s1) \<Rightarrow> (Panicked, s1)
      | ((Some saga, None), s1) \<Rightarrow> (writeJSON (we_text we) [] 201 (saga_json e [] saga), s1))"
  by (auto simp: transfer_cmd_def http_Transfer_def split: option.splits sum.splits)

lemma http_Transfer_result:
  "case transfer_cmd e we (rq_Body r) of
     None \<Rightarrow> \<exists>resp. http_Transfer e we h r s = (Reply resp, s) \<and> rs_status resp = 400
   | Some cmd \<Rightarrow>
       if validCurrencies (tc_Currency cmd) \<and> tc_FromAccountID cmd \<noteq> tc_ToAccountID cmd
       then \<exists>resp saga eo s1. Execute e (h_transferSvc h) cmd (fst s) (snd s) = ((Some saga, eo), s1)
          \<and> http_Transfer e we h r s = (Reply resp, s1)
          \<and> rs_status resp = (if t_state saga = Completed then 201 else 422)
       else http_Transfer e we h r s = (Panicked, s)"
proof (cases "transfer_cmd e we (rq_Body r)")
  case None
  from http_Transfer_None [OF this] None show ?thesis by simp
next
  case (Some cmd)
  obtain ro eo s1 where ex: "Execute e (h_transferSvc h) cmd (fst s) (snd s) = ((ro, eo), s1)" by (metis prod.collapse)
  note saga = Execute_saga [of e "h_transferSvc h" cmd "fst s" "snd s" ro eo "fst s1" "snd s1"]
  show ?thesis
  proof (cases ro)
    case None
    with ex Execute_no_saga_iff [of e "h_transferSvc h" cmd "fst s" "snd s"]
    have bad: "\<not> (validCurrencies (tc_Currency cmd) \<and> tc_FromAccountID cmd \<noteq> tc_ToAccountID cmd)" by simp
    from saga ex None have "eo \<noteq> None" "s1 = s" by (auto simp: prod_eq_iff)
    with bad None Some ex show ?thesis by (auto simp: http_Transfer_Some)
  next
    case (Some saga')
    with ex Execute_no_saga_iff [of e "h_transferSvc h" cmd "fst s" "snd s"]
    have good: "validCurrencies (tc_Currency cmd) \<and> tc_FromAccountID cmd \<noteq> tc_ToAccountID cmd" by simp
    from saga ex Some have "eo = None \<longleftrightarrow> t_state saga' = Completed" by simp
    with good Some \<open>transfer_cmd e we (rq_Body r) = Some cmd\<close> ex show ?thesis
      by (cases eo) (auto simp: http_Transfer_Some)
  qed
qed

lemma handler_status:
  "http_OpenAccount e we h r s = (Reply resp, s') \<Longrightarrow> rs_status resp \<in> {201, 400, 422} \<and> (rs_status resp = 400 \<longrightarrow> s' = s)"
  "http_RecordTransaction e we h r s = (Reply resp, s') \<Longrightarrow> rs_status resp \<in> {201, 400, 422} \<and> (rs_status resp = 400 \<longrightarrow> s' = s)"
  "http_Deposit e we h r s = (Reply resp, s') \<Longrightarrow> rs_status resp \<in> {200, 400, 422} \<and> (rs_status resp = 400 \<longrightarrow> s' = s)"
  "http_GetBalance e we h i r s = (Reply resp, s') \<Longrightarrow> rs_status resp \<in> {200, 404}"
  "http_ListAccounts e we h r s = (Reply resp, s') \<Longrightarrow> rs_status resp \<in> {200, 500}"
  "http_GetTransactionHistory e we h i r s = (Reply resp, s') \<Longrightarrow> rs_status resp \<in> {200, 500}"
  by (auto simp: http_OpenAccount_def http_RecordTransaction_def http_Deposit_def http_GetBalance_def
      http_ListAccounts_def http_GetTransactionHistory_def Let_def
      split: option.splits sum.splits prod.splits if_splits)

lemma transfer_status:
  "http_Transfer e we h r s = (Reply resp, s') \<Longrightarrow> rs_status resp \<in> {201, 400, 422} \<and> (rs_status resp = 400 \<longrightarrow> s' = s)"
  using http_Transfer_result [where e = e and we = we and r = r and h = h and s = s] by (auto split: option.splits if_splits)

lemma handlers_reply:
  "fst (http_OpenAccount e we h r s) \<noteq> Panicked" "fst (http_RecordTransaction e we h r s) \<noteq> Panicked"
  "fst (http_Deposit e we h r s) \<noteq> Panicked" "fst (http_GetBalance e we h i r s) \<noteq> Panicked"
  "fst (http_ListAccounts e we h r s) \<noteq> Panicked" "fst (http_GetTransactionHistory e we h i r s) \<noteq> Panicked"
  by (simp_all add: http_OpenAccount_def http_RecordTransaction_def http_Deposit_def http_GetBalance_def
      http_ListAccounts_def http_GetTransactionHistory_def Let_def
      split: option.splits sum.splits prod.splits)

definition api_endpoint :: "http_request \<Rightarrow> bool" where
  "api_endpoint r \<longleftrightarrow> route r \<noteq> EP_Health \<and> route r \<noteq> EP_Other"

lemma api_status:
  assumes "api_handler e we h other r s = (Reply resp, s')" "api_endpoint r"
  shows "rs_status resp \<in> {200, 201, 400, 404, 422, 500} \<and> (rs_status resp = 400 \<longrightarrow> s' = s)"
  using assms
  by (cases "route r")
    (auto simp: api_handler_def api_endpoint_def dest: handler_status transfer_status)

subsection \<open>Properties\<close>

text \<open>C37. What the transfer endpoint answers: 400 and no effect when the body or an identifier cannot be
  read; a panic, before anything happened, when the currency is unknown or the two accounts are the
  same, because the handler reads the saga that Execute did not return; otherwise 201 when the saga
  completed and 422 when it did not.\<close>

theorem http_Transfer_answers:
  "case transfer_cmd e we (rq_Body r) of
     None \<Rightarrow> \<exists>resp. http_Transfer e we h r s = (Reply resp, s) \<and> rs_status resp = 400
   | Some cmd \<Rightarrow>
       if validCurrencies (tc_Currency cmd) \<and> tc_FromAccountID cmd \<noteq> tc_ToAccountID cmd
       then \<exists>resp saga eo s1. Execute e (h_transferSvc h) cmd (fst s) (snd s) = ((Some saga, eo), s1)
          \<and> http_Transfer e we h r s = (Reply resp, s1)
          \<and> rs_status resp = (if t_state saga = Completed then 201 else 422)
       else http_Transfer e we h r s = (Panicked, s)"
  by (rule http_Transfer_result)

lemma middleware_serves:
  assumes "IdempotencyMiddleware enc re st serve r rd s = (rep, rd', s')"
  shows "s' = s \<or> serve r s = (rep, s')"
proof -
  obtain rep1 s1 where s1: "serve r s = (rep1, s1)" by fastforce
  show ?thesis
    using assms unfolding IdempotencyMiddleware_def s1 Let_def prod.case
    by (auto split: if_splits prod.splits sum.splits option.splits bool.splits reply.splits)
qed

text \<open>A small web environment for the witnesses: one deposit of 0.25 dollars can be asked for.\<close>

definition sample_web :: web_env where
  "sample_web = \<lparr>we_text = sample_text, we_open = (\<lambda>_. None), we_record = (\<lambda>_. None),
     we_deposit = (\<lambda>b. if b = ''quarter'' then Some \<lparr>dq_AccountID = decimal 1, dq_Amount = \<lparr>f_mant = 1, f_exp = - 2\<rparr>,
        dq_Currency = '''', dq_Description = ''''\<rparr> else None),
     we_transfer = (\<lambda>_. None), we_big = (\<lambda>_. 0)\<rparr>"

definition sample_deps :: "test_world RouterDeps" where
  "sample_deps = \<lparr>dp_Handler = NewHandler (test_service sample_env) (NewTransferService (test_service sample_env))
       \<lparr>qs_GetAccountBalance = (\<lambda>_ w. (Inl ErrViewNotFound, w)), qs_ListAccounts = (\<lambda>w. (Inr [], w)),
        qs_GetTransactionHistory = (\<lambda>_ _ _ w. (Inr [], w))\<rparr>,
     dp_IdempotencyStore = Some NewIdempotencyStore, dp_Health = (\<lambda>s rd. (Panicked, s, rd))\<rparr>"

definition sample_post :: "string \<Rightarrow> http_request" where
  "sample_post body = (post_with ''k1'')\<lparr>rq_Path := [''api'', ''v1'', ''deposit''], rq_Body := body\<rparr>"

lemma sample_post_simps [simp]:
  "is_write (sample_post b)" "request_key (sample_post b) = ''k1''" "route (sample_post b) = EP_Deposit"
  "rq_Body (sample_post b) = b"
  by (simp_all add: sample_post_def post_with_def is_write_def request_key_def route_def api_route_def)

text \<open>C38. A request that the API answers with 400 has changed nothing in the ledger, with or without the
  idempotency store.\<close>

theorem bad_request_no_effect:
  assumes "NewRouter e we re other deps r rd s = (resp, rd', s')" "api_endpoint r" "rs_status resp = 400"
  shows "s' = s"
proof (cases "dp_IdempotencyStore deps")
  case None
  obtain rep s1 where h: "api_handler e we (dp_Handler deps) other r s = (rep, s1)" by (metis surj_pair)
  with None assms have "s' = s1" "Recoverer rep = resp" by (auto simp: NewRouter_def api_endpoint_def)
  with h api_status [of e we "dp_Handler deps" other r s _ s1] assms(2,3) show ?thesis
    by (cases rep) (auto simp: Recoverer_def)
next
  case (Some st)
  obtain rep rd1 s1 where
    mw: "IdempotencyMiddleware (we_text we) re st (api_handler e we (dp_Handler deps) other) r rd s = (rep, rd1, s1)"
    by (metis prod_cases3)
  with Some assms have "s' = s1" "Recoverer rep = resp" by (auto simp: NewRouter_def api_endpoint_def)
  with middleware_serves [OF mw] api_status [of e we "dp_Handler deps" other r s _ s1] assms(2,3) show ?thesis
    by (cases rep) (auto simp: Recoverer_def)
qed

theorem bad_request_no_effect_witness:
  "snd (snd (NewRouter sample_env sample_web sample_redis (\<lambda>r s. (Panicked, s)) sample_deps (sample_post ''broken'')
     empty_redis (first_gen, first_world))) = (first_gen, first_world)"
proof -
  let ?n = "NewRouter sample_env sample_web sample_redis (\<lambda>r s. (Panicked, s)) sample_deps (sample_post ''broken'')
     empty_redis (first_gen, first_world)"
  obtain resp rd s where n: "?n = (resp, rd, s)" by (metis prod_cases3)
  have "rs_status (fst ?n) = 400" by code_simp
  with bad_request_no_effect [OF n] show ?thesis by (simp add: n api_endpoint_def)
qed

text \<open>C30. A write request to the API that is sent again with the same key directly after its first answer
  gets the same status and body, and nothing in the ledger changes the second time: deposits,
  transfers and transactions are not applied twice. This holds when Redis answers every command, when
  nothing stored expires on the way (the clock readings lie within the time to live), when the key is
  not empty and unused before, and when the handler of the first request answered, with a body,
  instead of panicking.\<close>

theorem api_retry:
  assumes "redis_quiet re" "window re (is_ttl st)" "dp_IdempotencyStore deps = Some st"
    and "api_endpoint r" "is_write r" "request_key r = k" "k \<noteq> ''''"
    and "rd_data rd (idempotencyKey k) = None" "rd_data rd (idempotencyLock k) = None"
    and "api_handler e we (dp_Handler deps) other r s = (Reply resp, s1)" "rs_body resp \<noteq> ''''"
  shows "\<exists>rd1 rd2. NewRouter e we re other deps r rd s = (resp, rd1, s1)
    \<and> NewRouter e we re other deps r rd1 s1 =
        (\<lparr>rs_headers = [(''Content-Type'', ''application/json''), (''Idempotency-Replayed'', ''true'')],
          rs_status = rs_status resp, rs_body = rs_body resp\<rparr>, rd2, s1)"
proof -
  let ?serve = "api_handler e we (dp_Handler deps) other"
  have st: "rs_status resp \<in> {200, 201, 400, 404, 422, 500}" using api_status [OF assms(10,4)] by simp
  then have range: "in_int64 (rs_status resp)" by (auto simp: in_int64_def)
  have again: "replay (rs_status resp) (rs_body resp) = Reply \<lparr>rs_headers = [(''Content-Type'', ''application/json''),
      (''Idempotency-Replayed'', ''true'')], rs_status = rs_status resp, rs_body = rs_body resp\<rparr>"
    using st by (auto simp: replay_def WriteHeader_ok_def)
  obtain rd1 where first: "IdempotencyMiddleware (we_text we) re st ?serve r rd s = (Reply resp, rd1, s1)"
    "answered re k resp rd1"
    using new_key_served [where serve = ?serve and s = s and r = r and enc = "we_text we",
        OF assms(1,2,5-10)] by blast
  obtain rd2 where "IdempotencyMiddleware (we_text we) re st ?serve r rd1 s1 =
      (replay (rs_status resp) (rs_body resp), rd2, s1)"
    using answered_replays [where serve = ?serve and s = s1 and enc = "we_text we" and st = st,
        OF assms(1) first(2) assms(5-7) range] assms(11) by blast
  with first assms(3,4) again show ?thesis by (simp add: NewRouter_def api_endpoint_def Recoverer_def)
qed

theorem api_retry_witness:
  "\<exists>resp s1 rd1 rd2. NewRouter sample_env sample_web sample_redis (\<lambda>r s. (Panicked, s)) sample_deps
      (sample_post ''quarter'') empty_redis (first_gen, first_world) = (resp, rd1, s1)
    \<and> rs_status resp = 200
    \<and> NewRouter sample_env sample_web sample_redis (\<lambda>r s. (Panicked, s)) sample_deps (sample_post ''quarter'') rd1 s1 =
        (\<lparr>rs_headers = [(''Content-Type'', ''application/json''), (''Idempotency-Replayed'', ''true'')],
          rs_status = 200, rs_body = rs_body resp\<rparr>, rd2, s1)"
proof -
  let ?h = "api_handler sample_env sample_web (dp_Handler sample_deps) (\<lambda>r s. (Panicked, s)) (sample_post ''quarter'')
      (first_gen, first_world)"
  have "case ?h of (Reply resp, s1) \<Rightarrow> rs_status resp = 200 \<and> rs_body resp \<noteq> '''' | (Panicked, s1) \<Rightarrow> False"
    by code_simp
  then obtain resp s1 where h: "?h = (Reply resp, s1)" and resp: "rs_status resp = 200" "rs_body resp \<noteq> ''''"
    by (auto split: prod.splits reply.splits)
  have "dp_IdempotencyStore sample_deps = Some NewIdempotencyStore" "api_endpoint (sample_post ''quarter'')"
    "rd_data empty_redis i = None" for i
    by (simp_all add: sample_deps_def api_endpoint_def empty_redis_def)
  from api_retry [OF sample_redis_ok(1) sample_window this(1,2) sample_post_simps(1,2) _ this(3) this(3) h resp(2)]
  show ?thesis unfolding resp(1) [symmetric] by blast
qed

end
