(* ===== verification/Http_Metrics.thy ===== *)
theory Http_Metrics
  imports Http_Router
begin

section \<open>Request metrics (internal/infra/http/metrics_middleware.go, internal/infra/observability/metrics.go)\<close>

text \<open>
  The middleware that times every request, and the router with it. The instruments belong to
  OpenTelemetry; here an instrument is its name and the list of what was recorded on it. The
  pattern of the route comes from the router library and is a parameter; the state of the handlers
  carries the generator whose clock times the request.
\<close>

type_synonym attributes = "string \<times> string \<times> int"

record 'a instrument =
  in_name :: string
  in_values :: "'a list"

record Metrics =
  RequestDuration :: "(int \<times> attributes) instrument"
  RequestCount :: "(int \<times> attributes) instrument"
  ActiveAccounts :: "int instrument"
  TransactionAmount :: "int instrument"
  TransfersByState :: "(int \<times> string) instrument"
  OutboxPending :: "int instrument"
  OutboxPublished :: "int instrument"

definition new_instrument :: "string \<Rightarrow> 'a instrument" where
  "new_instrument name = \<lparr>in_name = name, in_values = []\<rparr>"

text \<open>The exporter may fail; the errors of the instruments are dropped.\<close>

definition SetupMetrics :: "string option \<Rightarrow> error + Metrics" where
  "SetupMetrics exporter =
     (case exporter of
        Some err \<Rightarrow> Inl (ErrExternal err)
      | None \<Rightarrow> Inr
          \<lparr>RequestDuration = new_instrument ''http_request_duration_seconds'',
           RequestCount = new_instrument ''http_requests_total'',
           ActiveAccounts = new_instrument ''ledger_active_accounts'',
           TransactionAmount = new_instrument ''ledger_transaction_amount_cents_total'',
           TransfersByState = new_instrument ''ledger_transfers_total'',
           OutboxPending = new_instrument ''outbox_pending_events'',
           OutboxPublished = new_instrument ''outbox_published_total''\<rparr>)"

definition add_value :: "'a \<Rightarrow> 'a instrument \<Rightarrow> 'a instrument" where
  "add_value v i = i\<lparr>in_values := in_values i @ [v]\<rparr>"

definition RecordRequest :: "string \<Rightarrow> string \<Rightarrow> int \<Rightarrow> int \<Rightarrow> Metrics \<Rightarrow> Metrics" where
  "RecordRequest m path status duration metrics =
     (let attrs = (m, path, status)
      in metrics\<lparr>RequestDuration := add_value (duration, attrs) (RequestDuration metrics),
                 RequestCount := add_value (1, attrs) (RequestCount metrics)\<rparr>)"

definition RecordTransfer :: "string \<Rightarrow> Metrics \<Rightarrow> Metrics" where
  "RecordTransfer st metrics = metrics\<lparr>TransfersByState := add_value (1, st) (TransfersByState metrics)\<rparr>"

definition URL_Path :: "http_request \<Rightarrow> string" where
  "URL_Path r = (if rq_Path r = [] then ''/'' else concat (map (\<lambda>p. ''/'' @ p) (rq_Path r)))"

text \<open>The recorder starts with 200 and takes over what is passed to \<^verbatim>\<open>WriteHeader\<close>.\<close>

definition statusRecorder :: "http_response \<Rightarrow> int" where
  "statusRecorder resp = (if rs_status resp = 0 then 200 else rs_status resp)"

definition MetricsMiddleware ::
  "env \<Rightarrow> (http_request \<Rightarrow> string) \<Rightarrow> (gen \<times> 's) handler \<Rightarrow> http_request \<Rightarrow> Metrics \<Rightarrow> gen \<times> 's \<Rightarrow>
   reply \<times> Metrics \<times> gen \<times> 's" where
  "MetricsMiddleware e pattern serve r metrics s =
     (let (start, g1) = time_Now e (fst s) in
      case serve r (g1, snd s) of
        (Panicked, g2, s2) \<Rightarrow> (Panicked, metrics, g2, s2)
      | (Reply resp, g2, s2) \<Rightarrow>
          let routePattern = (if pattern r = '''' then URL_Path r else pattern r);
              (now, g3) = time_Now e g2
          in (Reply resp, RecordRequest (rq_Method r) routePattern (statusRecorder resp) (now - start) metrics, g3, s2))"

text \<open>The middleware hands the reply through; every request that is answered is counted once, under the
  status that is sent; a request whose handler panics is not counted, although the client gets a 500.\<close>

lemma metrics_transparent:
  assumes "serve r (snd (time_Now e (fst s)), snd s) = (rep, g2, s2)"
  shows "\<exists>metrics' g3. MetricsMiddleware e pattern serve r metrics s = (rep, metrics', g3, s2)
    \<and> (case rep of Panicked \<Rightarrow> metrics' = metrics
       | Reply resp \<Rightarrow> \<exists>path. in_values (RequestCount metrics') =
           in_values (RequestCount metrics) @ [(1, rq_Method r, path, sent_status resp)])"
  using assms
  by (cases rep)
    (auto simp: MetricsMiddleware_def RecordRequest_def add_value_def statusRecorder_def sent_status_def Let_def
      split: prod.splits)

lemma metrics_names:
  "SetupMetrics exporter = Inr m \<Longrightarrow>
     distinct [in_name (RequestDuration m), in_name (RequestCount m), in_name (ActiveAccounts m),
       in_name (TransactionAmount m), in_name (TransfersByState m), in_name (OutboxPending m),
       in_name (OutboxPublished m)]"
  by (auto simp: SetupMetrics_def new_instrument_def split: option.splits)

subsection \<open>The router with its metrics\<close>

text \<open>The handler below the metrics middleware: health endpoint, or the API behind the idempotency middleware.\<close>

definition routed ::
  "env \<Rightarrow> web_env \<Rightarrow> redis_env \<Rightarrow> (gen \<times> 'w) handler \<Rightarrow> 'w RouterDeps \<Rightarrow> (gen \<times> redis_db \<times> 'w) handler" where
  "routed e we re other deps r s =
     (case s of (g, rd, w) \<Rightarrow>
        if route r = EP_Health then
          (case dp_Health deps (g, w) rd of (rep, (g1, w1), rd1) \<Rightarrow> (rep, g1, rd1, w1))
        else
          (case dp_IdempotencyStore deps of
             None \<Rightarrow> (case api_handler e we (dp_Handler deps) other r (g, w) of (rep, g1, w1) \<Rightarrow> (rep, g1, rd, w1))
           | Some st \<Rightarrow>
               (case IdempotencyMiddleware (we_text we) re st (api_handler e we (dp_Handler deps) other) r rd (g, w) of
                  (rep, rd1, g1, w1) \<Rightarrow> (rep, g1, rd1, w1))))"

definition metered_router ::
  "env \<Rightarrow> web_env \<Rightarrow> redis_env \<Rightarrow> (gen \<times> 'w) handler \<Rightarrow> (http_request \<Rightarrow> string) \<Rightarrow> 'w RouterDeps \<Rightarrow>
   http_request \<Rightarrow> Metrics \<Rightarrow> gen \<times> redis_db \<times> 'w \<Rightarrow> http_response \<times> Metrics \<times> gen \<times> redis_db \<times> 'w" where
  "metered_router e we re other pattern deps r metrics s =
     (case MetricsMiddleware e pattern (routed e we re other deps) r metrics s of
        (rep, metrics', s1) \<Rightarrow> (Recoverer rep, metrics', s1))"

lemma NewRouter_routed:
  "NewRouter e we re other deps r rd (g, w) =
     (case routed e we re other deps r (g, rd, w) of (rep, g1, rd1, w1) \<Rightarrow> (Recoverer rep, rd1, g1, w1))"
  by (auto simp: NewRouter_def routed_def split: prod.splits option.splits)

text \<open>Measuring changes nothing but the metrics: the response, Redis and the store are those of the router
  without metrics that starts after the first reading of the clock, and at most one request is counted,
  under the status that is sent.\<close>

lemma metered_router_transparent:
  assumes "NewRouter e we re other deps r rd (snd (time_Now e g), w) = (resp, rd1, g1, w1)"
  shows "\<exists>metrics' g2. metered_router e we re other pattern deps r metrics (g, rd, w) = (resp, metrics', g2, rd1, w1)
    \<and> (metrics' = metrics \<and> rs_status resp = 500
       \<or> (\<exists>path. in_values (RequestCount metrics') =
            in_values (RequestCount metrics) @ [(1, rq_Method r, path, sent_status resp)]))"
proof -
  obtain rep g3 rd3 w3 where inner: "routed e we re other deps r (snd (time_Now e g), rd, w) = (rep, g3, rd3, w3)"
    by (metis prod_cases4)
  with assms have eq: "resp = Recoverer rep" "rd3 = rd1" "w3 = w1"
    by (auto simp: NewRouter_routed)
  from metrics_transparent [of "routed e we re other deps" r e "(g, rd, w)" rep g3 "(rd3, w3)" pattern metrics] inner
  obtain metrics' g4 where
    "MetricsMiddleware e pattern (routed e we re other deps) r metrics (g, rd, w) = (rep, metrics', g4, rd3, w3)"
    "case rep of Panicked \<Rightarrow> metrics' = metrics
       | Reply resp \<Rightarrow> \<exists>path. in_values (RequestCount metrics') =
           in_values (RequestCount metrics) @ [(1, rq_Method r, path, sent_status resp)]"
    by auto
  then show ?thesis by (cases rep) (auto simp: metered_router_def eq Recoverer_def)
qed

end
