(* ===== verification/Http_Processes.thy ===== *)
theory Http_Processes
  imports Service_Processes Http_Metrics
begin

section \<open>Requests as processes\<close>

text \<open>
  A request from the router down to the ports: every access to Redis, every call of a port, the reading of the
  clock before and after, and the health endpoint are steps of one process. The store of such a process is
  what the web layer keeps, Redis and the metrics, beside the store of the services. Run without
  interruption, the process is the router.
\<close>

subsection \<open>A process beside other state\<close>

primrec lift_proc :: "('w, 'a) proc \<Rightarrow> ('v \<times> 'w, 'a) proc" where
  "lift_proc (Return a) = Return a"
| "lift_proc (Call f) = Call (\<lambda>g s. map_prod lift_proc (map_prod id (Pair (fst s))) (f g (snd s)))"

lemma lift_Call [code, simp]:
  "lift_proc (Call f) = Call (\<lambda>g s. case f g (snd s) of (p, g1, w1) \<Rightarrow> (lift_proc p, g1, fst s, w1))"
  by (auto simp: fun_eq_iff split: prod.splits)

declare lift_proc.simps(2) [simp del, code del]

lemma run_lift [simp]: "run_proc (lift_proc p) g (v, w) = (case run_proc p g w of (a, g1, w1) \<Rightarrow> (a, g1, v, w1))"
proof (induction p arbitrary: g w)
  case (Call f)
  obtain p g1 w1 where step: "f g w = (p, g1, w1)" by (metis prod_cases3)
  from Call.IH [OF this] show ?case by (simp add: step)
qed simp

lemma lift_act: "lift_proc (act f) = act (\<lambda>g s. case f g (snd s) of (x, g1, w1) \<Rightarrow> (x, g1, fst s, w1))"
  by (auto simp: act_def fun_eq_iff split: prod.splits)

lemma lift_bind: "lift_proc (bind_proc p k) = bind_proc (lift_proc p) (\<lambda>x. lift_proc (k x))"
proof (induction p)
  case (Call f)
  then show ?case by (auto simp: fun_eq_iff split: prod.splits)
qed simp

subsection \<open>Handlers\<close>

definition http_OpenAccount_proc :: "env \<Rightarrow> web_env \<Rightarrow> 'w Handler \<Rightarrow> http_request \<Rightarrow> ('w, reply) proc" where
  "http_OpenAccount_proc e we h r =
     (case we_open we (rq_Body r) of
        None \<Rightarrow> Return (writeJSON (we_text we) [] 400 (errorResponse ''invalid request body''))
      | Some req \<Rightarrow>
          bind_proc (OpenAccount_proc e (h_svc h) \<lparr>oc_Name = oa_Name req, oc_AccountType = oa_AccountType req,
              oc_Currency = Currency (oa_Currency req)\<rparr>) (\<lambda>res. Return (case res of
             Inl err \<Rightarrow> writeJSON (we_text we) [] 422 (errorResponse (error_Error err))
           | Inr acc \<Rightarrow> writeJSON (we_text we) [] 201 (Some (account_json e acc)))))"

definition http_RecordTransaction_proc :: "env \<Rightarrow> web_env \<Rightarrow> 'w Handler \<Rightarrow> http_request \<Rightarrow> ('w, reply) proc" where
  "http_RecordTransaction_proc e we h r =
     (case we_record we (rq_Body r) of
        None \<Rightarrow> Return (writeJSON (we_text we) [] 400 (errorResponse ''invalid request body''))
      | Some req \<Rightarrow>
          (case entry_cmds e (rt_Entries req) of
             None \<Rightarrow> Return (writeJSON (we_text we) [] 400 (errorResponse ''invalid account_id in entry''))
           | Some entries \<Rightarrow>
               bind_proc (RecordTransaction_proc e (h_svc h)
                   \<lparr>rc_Entries = entries, rc_Description = rt_Description req\<rparr>) (\<lambda>res. Return (case res of
                  Inl err \<Rightarrow> writeJSON (we_text we) [] 422 (errorResponse (error_Error err))
                | Inr tx \<Rightarrow>
                    writeJSON (we_text we) [] 201 (Some (JObject
                       [(''description'', JString (tx_description tx)),
                        (''transaction_id'', JString (TransactionID_String e (tx_id tx)))]))))))"

definition http_Deposit_proc :: "env \<Rightarrow> web_env \<Rightarrow> 'w Handler \<Rightarrow> http_request \<Rightarrow> ('w, reply) proc" where
  "http_Deposit_proc e we h r =
     (case we_deposit we (rq_Body r) of
        None \<Rightarrow> Return (writeJSON (we_text we) [] 400 (errorResponse ''invalid request body''))
      | Some req \<Rightarrow>
          (case NewAccountID e (dq_AccountID req) of
             Inl err \<Rightarrow> Return (writeJSON (we_text we) [] 400 (errorResponse ''invalid account_id''))
           | Inr accID \<Rightarrow>
               let n = cents (we_big we) (dq_Amount req) in
               if sint n \<le> 0 then Return (writeJSON (we_text we) [] 400 (errorResponse ''amount must be positive''))
               else
                 bind_proc (Deposit_proc e (h_svc h) accID n (currency_or_USD (dq_Currency req))
                     (text_or ''Deposit'' (dq_Description req))) (\<lambda>res. Return (case res of
                    Inl err \<Rightarrow> writeJSON (we_text we) [] 422 (errorResponse (error_Error err))
                  | Inr _ \<Rightarrow> writeJSON (we_text we) [] 200 (Some (JObject [(''status'', JString ''deposited'')]))))))"

definition transfer_reply :: "env \<Rightarrow> web_env \<Rightarrow> Transfer option \<times> error option \<Rightarrow> reply" where
  "transfer_reply e we res =
     (case res of
        (Some saga, Some err) \<Rightarrow>
          writeJSON (we_text we) [] 422 (saga_json e [(''error'', JString (error_Error err))] saga)
      | (Some saga, None) \<Rightarrow> writeJSON (we_text we) [] 201 (saga_json e [] saga)
      | _ \<Rightarrow> Panicked)"

definition http_Transfer_proc :: "env \<Rightarrow> web_env \<Rightarrow> 'w Handler \<Rightarrow> http_request \<Rightarrow> ('w, reply) proc" where
  "http_Transfer_proc e we h r =
     (case we_transfer we (rq_Body r) of
        None \<Rightarrow> Return (writeJSON (we_text we) [] 400 (errorResponse ''invalid request body''))
      | Some req \<Rightarrow>
          (case NewAccountID e (tq_FromAccountID req) of
             Inl err \<Rightarrow> Return (writeJSON (we_text we) [] 400 (errorResponse ''invalid from_account_id''))
           | Inr fromID \<Rightarrow>
               (case NewAccountID e (tq_ToAccountID req) of
                  Inl err \<Rightarrow> Return (writeJSON (we_text we) [] 400 (errorResponse ''invalid to_account_id''))
                | Inr toID \<Rightarrow>
                    bind_proc (Execute_proc e (h_transferSvc h)
                        \<lparr>tc_FromAccountID = fromID, tc_ToAccountID = toID,
                         tc_Amount = cents (we_big we) (tq_Amount req),
                         tc_Currency = currency_or_USD (tq_Currency req),
                         tc_Description = text_or ''Transfer'' (tq_Description req)\<rparr>)
                      (\<lambda>res. Return (transfer_reply e we res)))))"

definition http_GetBalance_proc :: "env \<Rightarrow> web_env \<Rightarrow> 'w Handler \<Rightarrow> string \<Rightarrow> ('w, reply) proc" where
  "http_GetBalance_proc e we h accountID =
     bind_proc (port (qs_GetAccountBalance (h_queries h) accountID)) (\<lambda>res. Return (case res of
        Inl err \<Rightarrow> writeJSON (we_text we) [] 404 (errorResponse (error_Error err))
      | Inr v \<Rightarrow> writeJSON (we_text we) [] 200 (AccountView_json e v)))"

definition http_ListAccounts_proc :: "env \<Rightarrow> web_env \<Rightarrow> 'w Handler \<Rightarrow> ('w, reply) proc" where
  "http_ListAccounts_proc e we h =
     bind_proc (port (qs_ListAccounts (h_queries h))) (\<lambda>res. Return (case res of
        Inl err \<Rightarrow> writeJSON (we_text we) [] 500 (errorResponse (error_Error err))
      | Inr accounts \<Rightarrow>
          writeJSON (we_text we) [] 200 (map_option JArray (those (map (AccountView_json e) accounts)))))"

definition http_GetTransactionHistory_proc :: "env \<Rightarrow> web_env \<Rightarrow> 'w Handler \<Rightarrow> string \<Rightarrow> ('w, reply) proc" where
  "http_GetTransactionHistory_proc e we h accountID =
     bind_proc (port (qs_GetTransactionHistory (h_queries h) accountID 100 0)) (\<lambda>res. Return (case res of
        Inl err \<Rightarrow> writeJSON (we_text we) [] 500 (errorResponse (error_Error err))
      | Inr history \<Rightarrow>
          writeJSON (we_text we) [] 200 (map_option JArray (those (map (HistoryEntry_json e) history)))))"

lemmas handler_proc_defs = http_OpenAccount_proc_def http_RecordTransaction_proc_def http_Deposit_proc_def
  http_Transfer_proc_def http_GetBalance_proc_def http_ListAccounts_proc_def http_GetTransactionHistory_proc_def

text \<open>Static files, the metrics page and the answers for unknown routes do not touch the ledger.\<close>

definition api_proc ::
  "env \<Rightarrow> web_env \<Rightarrow> 'w Handler \<Rightarrow> (http_request \<Rightarrow> reply) \<Rightarrow> http_request \<Rightarrow> ('w, reply) proc" where
  "api_proc e we h static r =
     (case route r of
        EP_ListAccounts \<Rightarrow> http_ListAccounts_proc e we h
      | EP_OpenAccount \<Rightarrow> http_OpenAccount_proc e we h r
      | EP_GetBalance accountID \<Rightarrow> http_GetBalance_proc e we h accountID
      | EP_GetTransactionHistory accountID \<Rightarrow> http_GetTransactionHistory_proc e we h accountID
      | EP_RecordTransaction \<Rightarrow> http_RecordTransaction_proc e we h r
      | EP_Deposit \<Rightarrow> http_Deposit_proc e we h r
      | EP_Transfer \<Rightarrow> http_Transfer_proc e we h r
      | _ \<Rightarrow> Return (static r))"

lemma run_handlers:
  "run_proc (http_OpenAccount_proc e we h r) g w = http_OpenAccount e we h r (g, w)"
  "run_proc (http_RecordTransaction_proc e we h r) g w = http_RecordTransaction e we h r (g, w)"
  "run_proc (http_Deposit_proc e we h r) g w = http_Deposit e we h r (g, w)"
  "run_proc (http_GetBalance_proc e we h i) g w = http_GetBalance e we h i r (g, w)"
  "run_proc (http_ListAccounts_proc e we h) g w = http_ListAccounts e we h r (g, w)"
  "run_proc (http_GetTransactionHistory_proc e we h i) g w = http_GetTransactionHistory e we h i r (g, w)"
  by (simp_all add: handler_proc_defs http_OpenAccount_def http_RecordTransaction_def http_Deposit_def http_GetBalance_def
      http_ListAccounts_def http_GetTransactionHistory_def run_open run_record run_deposit Let_def
      split: option.splits sum.splits prod.splits)

lemma run_transfer: "run_proc (http_Transfer_proc e we h r) g w = http_Transfer e we h r (g, w)"
  by (simp add: http_Transfer_proc_def http_Transfer_def run_execute transfer_reply_def
      split: option.splits sum.splits prod.splits)

definition unchanged :: "(http_request \<Rightarrow> reply) \<Rightarrow> 's handler" where
  "unchanged static r s = (static r, s)"

lemma run_api: "run_proc (api_proc e we h static r) g w = api_handler e we h (unchanged static) r (g, w)"
  by (cases "route r") (simp_all add: api_proc_def api_handler_def run_handlers run_transfer unchanged_def)

subsection \<open>The middlewares\<close>

record web_state =
  wb_metrics :: Metrics
  wb_redis :: redis_db

definition redis_port :: "(redis_db \<Rightarrow> 'a \<times> redis_db) \<Rightarrow> (web_state \<times> 'w, 'a) proc" where
  "redis_port f = port (\<lambda>(v, w). case f (wb_redis v) of (x, rd) \<Rightarrow> (x, v\<lparr>wb_redis := rd\<rparr>, w))"

definition release_proc ::
  "redis_env \<Rightarrow> string \<Rightarrow> http_response \<Rightarrow> error option \<Rightarrow> (web_state \<times> 'w, reply) proc" where
  "release_proc re key resp e12 =
     bind_proc (redis_port (store_unlock re key)) (\<lambda>e3.
     case first_error e12 e3 of
       None \<Rightarrow> Return (Reply resp)
     | Some err \<Rightarrow> bind_proc (redis_port (Unlock re key)) (\<lambda>_. Return (Reply resp)))"

definition status_proc ::
  "redis_env \<Rightarrow> IdempotencyStore \<Rightarrow> string \<Rightarrow> http_response \<Rightarrow> error option \<Rightarrow> (web_state \<times> 'w, reply) proc" where
  "status_proc re st key resp e1 =
     bind_proc (redis_port (store_status re st key (rs_status resp))) (\<lambda>e2. release_proc re key resp (first_error e1 e2))"

definition store_proc ::
  "redis_env \<Rightarrow> IdempotencyStore \<Rightarrow> string \<Rightarrow> http_response \<Rightarrow> (web_state \<times> 'w, reply) proc" where
  "store_proc re st key resp =
     bind_proc (redis_port (store_body re st key (rs_body resp))) (status_proc re st key resp)"

definition locked_proc ::
  "redis_env \<Rightarrow> IdempotencyStore \<Rightarrow> string \<Rightarrow> (web_state \<times> 'w, reply) proc \<Rightarrow> (web_state \<times> 'w, reply) proc" where
  "locked_proc re st key p =
     bind_proc p (\<lambda>rep. case rep of Panicked \<Rightarrow> Return Panicked | Reply resp \<Rightarrow> store_proc re st key resp)"

definition lock_proc ::
  "json_text \<Rightarrow> redis_env \<Rightarrow> IdempotencyStore \<Rightarrow> string \<Rightarrow> (web_state \<times> 'w, reply) proc \<Rightarrow> (web_state \<times> 'w, reply) proc" where
  "lock_proc enc re st key p =
     bind_proc (redis_port (Lock re key)) (\<lambda>l. case l of
       Inl err \<Rightarrow> Return (writeJSON enc [] 500 (errorResponse ''idempotency lock failed''))
     | Inr False \<Rightarrow>
         Return (writeJSON enc [(''Retry-After'', ''1'')] 409 (errorResponse ''request is already being processed''))
     | Inr True \<Rightarrow> locked_proc re st key p)"

definition replay_proc :: "redis_env \<Rightarrow> string \<Rightarrow> string \<Rightarrow> (web_state \<times> 'w, reply) proc" where
  "replay_proc re key cached =
     bind_proc (redis_port (GetStatus re key)) (\<lambda>(status, _). Return (replay status cached))"

definition middleware_proc ::
  "json_text \<Rightarrow> redis_env \<Rightarrow> IdempotencyStore \<Rightarrow> http_request \<Rightarrow> (web_state \<times> 'w, reply) proc \<Rightarrow>
   (web_state \<times> 'w, reply) proc" where
  "middleware_proc enc re st r p =
     (if \<not> is_write r then p
      else let key = request_key r in
        if key = '''' then p
        else
          bind_proc (redis_port (Check re key)) (\<lambda>c. case c of
            Inl err \<Rightarrow> Return (writeJSON enc [] 500 (errorResponse ''idempotency check failed''))
          | Inr (Some cached) \<Rightarrow> replay_proc re key cached
          | Inr None \<Rightarrow> lock_proc enc re st key p))"

lemmas middleware_proc_defs = middleware_proc_def replay_proc_def lock_proc_def locked_proc_def

definition health_proc :: "'w RouterDeps \<Rightarrow> (web_state \<times> 'w, reply) proc" where
  "health_proc deps = act (\<lambda>g (v, w). case dp_Health deps (g, w) (wb_redis v) of
     (rep, (g1, w1), rd1) \<Rightarrow> (rep, g1, v\<lparr>wb_redis := rd1\<rparr>, w1))"

definition routed_proc ::
  "env \<Rightarrow> web_env \<Rightarrow> redis_env \<Rightarrow> (http_request \<Rightarrow> reply) \<Rightarrow> 'w RouterDeps \<Rightarrow> http_request \<Rightarrow> (web_state \<times> 'w, reply) proc" where
  "routed_proc e we re static deps r =
     (if route r = EP_Health then health_proc deps
      else
        let p = lift_proc (api_proc e we (dp_Handler deps) static r) in
        case dp_IdempotencyStore deps of
          None \<Rightarrow> p
        | Some st \<Rightarrow> middleware_proc (we_text we) re st r p)"

definition count_request ::
  "env \<Rightarrow> (http_request \<Rightarrow> string) \<Rightarrow> http_request \<Rightarrow> time \<Rightarrow> http_response \<Rightarrow> gen \<Rightarrow> web_state \<times> 'w \<Rightarrow> unit \<times> gen \<times> web_state \<times> 'w" where
  "count_request e pattern r start resp g s =
     (let routePattern = (if pattern r = '''' then URL_Path r else pattern r);
          (now, g1) = time_Now e g
      in ((), g1, (fst s)\<lparr>wb_metrics := RecordRequest (rq_Method r) routePattern (statusRecorder resp) (now - start)
            (wb_metrics (fst s))\<rparr>, snd s))"

definition count_proc ::
  "env \<Rightarrow> (http_request \<Rightarrow> string) \<Rightarrow> http_request \<Rightarrow> time \<Rightarrow> reply \<Rightarrow> (web_state \<times> 'w, http_response) proc" where
  "count_proc e pattern r start rep =
     (case rep of
        Panicked \<Rightarrow> Return (Recoverer Panicked)
      | Reply resp \<Rightarrow> bind_proc (act (count_request e pattern r start resp)) (\<lambda>_. Return (Recoverer (Reply resp))))"

definition request_proc ::
  "env \<Rightarrow> web_env \<Rightarrow> redis_env \<Rightarrow> (http_request \<Rightarrow> reply) \<Rightarrow> (http_request \<Rightarrow> string) \<Rightarrow> 'w RouterDeps \<Rightarrow> http_request \<Rightarrow>
   (web_state \<times> 'w, http_response) proc" where
  "request_proc e we re static pattern deps r =
     bind_proc (draw (time_Now e)) (\<lambda>start.
     bind_proc (routed_proc e we re static deps r) (count_proc e pattern r start))"

subsection \<open>A request that runs alone is the router\<close>

lemma run_redis [simp]:
  "run_proc (redis_port f) g (v, w) = (case f (wb_redis v) of (x, rd) \<Rightarrow> (x, g, v\<lparr>wb_redis := rd\<rparr>, w))"
  by (simp add: redis_port_def split: prod.splits)

lemma run_store:
  "run_proc (store_proc re st key resp) g (v, w) =
     (case Store re st key (rs_body resp) (rs_status resp) (wb_redis v) of
        (None, rd) \<Rightarrow> (Reply resp, g, v\<lparr>wb_redis := rd\<rparr>, w)
      | (Some err, rd) \<Rightarrow> (Reply resp, g, v\<lparr>wb_redis := snd (Unlock re key rd)\<rparr>, w))"
  by (simp add: store_proc_def status_proc_def release_proc_def Store_def Let_def split: prod.splits option.splits)

lemma run_middleware:
  assumes "\<And>g w. run_proc p g w = serve r (g, w)"
  shows "run_proc (middleware_proc enc re st r (lift_proc p)) g (v, w) =
     (case IdempotencyMiddleware enc re st serve r (wb_redis v) (g, w) of (rep, rd, g1, w1) \<Rightarrow> (rep, g1, v\<lparr>wb_redis := rd\<rparr>, w1))"
  unfolding middleware_proc_defs IdempotencyMiddleware_def Let_def
  by (simp add: run_store assms split: prod.splits sum.splits option.splits bool.splits reply.splits)

lemma run_routed:
  "run_proc (routed_proc e we re static deps r) g (v, w) =
     (case routed e we re (unchanged static) deps r (g, wb_redis v, w) of (rep, g1, rd, w1) \<Rightarrow> (rep, g1, v\<lparr>wb_redis := rd\<rparr>, w1))"
  by (simp add: routed_proc_def routed_def health_proc_def run_api
      run_middleware [where serve = "api_handler e we (dp_Handler deps) (unchanged static)"] Let_def
      split: prod.splits option.splits)

text \<open>A request that is not interrupted is answered by the router: the process that makes one access at a
  time, through the metrics and idempotency middlewares, the handler, the services and their ports, gives the
  response, the metrics, the generator, Redis and the store of the router with its metrics, for any ports,
  any failures of Redis and any request.\<close>

lemma run_request:
  "run_proc (request_proc e we re static pattern deps r) g (v, w) =
     (case metered_router e we re (unchanged static) pattern deps r (wb_metrics v) (g, wb_redis v, w) of
        (resp, metrics, g1, rd, w1) \<Rightarrow> (resp, g1, \<lparr>wb_metrics = metrics, wb_redis = rd\<rparr>, w1))"
  by (simp add: request_proc_def count_proc_def metered_router_def MetricsMiddleware_def run_routed count_request_def Let_def
      split: prod.splits reply.splits)

end
