(* ===== verification/Http_Interleaving.thy ===== *)
theory Http_Interleaving
  imports Http_Processes Service_Interleaving
begin

section \<open>Requests that interleave\<close>

text \<open>
  What the calls of the services guarantee carries over to whole requests: a process beside other state keeps
  what it kept, and the steps of the web layer do not touch the store of the services. The locale
  \<open>http_interference\<close> adds to \<open>service_interference\<close> what is asked of the queries and of the health endpoint.
\<close>

definition beside_inv :: "(gen \<Rightarrow> 'w \<Rightarrow> bool) \<Rightarrow> gen \<Rightarrow> 'v \<times> 'w \<Rightarrow> bool" where
  "beside_inv I g s \<longleftrightarrow> I g (snd s)"

definition beside ::
  "(gen \<Rightarrow> 'w \<Rightarrow> gen \<Rightarrow> 'w \<Rightarrow> bool) \<Rightarrow> gen \<Rightarrow> 'v \<times> 'w \<Rightarrow> gen \<Rightarrow> 'v \<times> 'w \<Rightarrow> bool" where
  "beside R g s g' s' \<longleftrightarrow> R g (snd s) g' (snd s')"

lemmas beside_defs = beside_inv_def beside_def

lemma keeps_lift:
  fixes p :: "('w, 'a) proc" and s :: "'v \<times> 'w"
  assumes "keeps I R G (\<lambda>_ _ _. True) g (snd s) p"
  shows "keeps (beside_inv I) (beside R) (beside G) (\<lambda>_ _ _. True) g s (lift_proc p)"
  using assms
proof (induction p arbitrary: g s rule: proc_induct)
  case (Call f)
  show ?case
    unfolding lift_Call
  proof (rule keeps_Call)
    fix g1 g2 and s1 s2 :: "'v \<times> 'w" and p :: "('v \<times> 'w, 'a) proc"
    assume rely: "beside R g s g1 s1" "beside_inv I g1 s1"
      and step: "(case f g1 (snd s1) of (p, g1, w1) \<Rightarrow> (lift_proc p, g1, fst s1, w1)) = (p, g2, s2)"
    obtain q g3 w3 where f: "f g1 (snd s1) = (q, g3, w3)" by (metis prod_cases3)
    then have "I g3 w3 \<and> G g1 (snd s1) g3 w3 \<and> keeps I R G (\<lambda>_ _ _. True) g3 w3 q"
      using Call.prems rely by (auto simp: beside_defs elim: keeps_CallE)
    moreover from this have "keeps (beside_inv I) (beside R) (beside G) (\<lambda>_ _ _. True) g3 (fst s1, w3) (lift_proc q)"
      using Call.IH [OF f] by simp
    moreover have "p = lift_proc q" "g2 = g3" "s2 = (fst s1, w3)" using step by (simp_all add: f)
    ultimately show "beside_inv I g2 s2 \<and> beside G g1 s1 g2 s2
        \<and> keeps (beside_inv I) (beside R) (beside G) (\<lambda>_ _ _. True) g2 s2 p"
      by (simp add: beside_inv_def [of I g3] beside_def [of G g1])
  qed
qed (simp add: keeps_Return)

locale http_interference = service_interference I R G e svc
  for I :: "gen \<Rightarrow> 'w \<Rightarrow> bool" and R G :: "gen \<Rightarrow> 'w \<Rightarrow> gen \<Rightarrow> 'w \<Rightarrow> bool" and e :: env and svc :: "'w LedgerService" +
  fixes deps :: "'w RouterDeps"
  assumes wired: "h_svc (dp_Handler deps) = svc" "h_transferSvc (dp_Handler deps) = NewTransferService svc"
    and balances: "I g w \<Longrightarrow> keeps I R G (\<lambda>_ _ _. True) g w (port (qs_GetAccountBalance (h_queries (dp_Handler deps)) i))"
    and accounts: "I g w \<Longrightarrow> keeps I R G (\<lambda>_ _ _. True) g w (port (qs_ListAccounts (h_queries (dp_Handler deps))))"
    and histories: "I g w \<Longrightarrow>
      keeps I R G (\<lambda>_ _ _. True) g w (port (qs_GetTransactionHistory (h_queries (dp_Handler deps)) i l n))"
    and health: "I g w \<Longrightarrow> dp_Health deps (g, w) rd = (rep, (g1, w1), rd1) \<Longrightarrow> I g1 w1 \<and> G g w g1 w1"
begin

lemma kept_api: "I g w \<Longrightarrow> kept g w (api_proc e we (dp_Handler deps) static r)"
  by (cases "route r")
    (auto simp: api_proc_def handler_proc_defs wired Let_def intro!: keeps_Return kept_bind kept_open kept_record
      kept_deposit kept_execute balances accounts histories split: option.splits sum.splits)

end

sublocale http_interference \<subseteq> web: interference "beside_inv I" "beside R" "beside G"
  by unfold_locales (auto simp: beside_def R_refl intro: R_trans G_R)

context http_interference
begin

lemma kept_redis: "web.kept g (s :: web_state \<times> 'w) (redis_port f)"
  unfolding redis_port_def
  by (rule web.keeps_port) (use draws in \<open>auto simp: beside_defs split: prod.splits\<close>)

lemma kept_store: "beside_inv I g s \<Longrightarrow> web.kept g s (store_proc re st key resp)"
  unfolding store_proc_def status_proc_def release_proc_def
  by (auto intro!: web.kept_bind kept_redis keeps_Return split: option.splits)

lemma kept_middleware:
  assumes "beside_inv I g s" "\<And>g s. beside_inv I g s \<Longrightarrow> web.kept g s p"
  shows "web.kept g s (middleware_proc enc re st r p)"
  using assms unfolding middleware_proc_defs Let_def
  by (auto intro!: web.kept_bind kept_redis keeps_Return kept_store split: option.splits sum.splits bool.splits reply.splits)

lemma kept_routed: "beside_inv I g s \<Longrightarrow> web.kept g s (routed_proc e we re static deps r)"
proof -
  assume inv: "beside_inv I g s"
  have api: "web.kept g s (lift_proc (api_proc e we (dp_Handler deps) static r))" if "beside_inv I g s"
    for g and s :: "web_state \<times> 'w"
    using that by (intro keeps_lift kept_api) (simp add: beside_inv_def)
  have "web.kept g s (health_proc deps)"
    unfolding health_proc_def
    by (rule web.keeps_act) (auto simp: beside_defs dest: health split: prod.splits)
  with api inv show ?thesis
    by (auto simp: routed_proc_def Let_def intro!: kept_middleware split: option.splits)
qed

lemma kept_request: "beside_inv I g s \<Longrightarrow> web.kept g s (request_proc e we re static pattern deps r)"
proof -
  have start: "web.kept g s (draw (time_Now e))" for g and s :: "web_state \<times> 'w"
    by (rule web.keeps_draw) (use draws in \<open>auto simp: beside_defs time_Now_def\<close>)
  have count: "web.kept g s (act (count_request e pattern r start resp))" for g and s :: "web_state \<times> 'w" and start resp
    by (rule web.keeps_act) (use draws in \<open>auto simp: beside_defs count_request_def time_Now_def Let_def\<close>)
  show "beside_inv I g s \<Longrightarrow> ?thesis"
    unfolding request_proc_def count_proc_def by (auto intro!: start count web.kept_bind kept_routed keeps_Return split: reply.splits)
qed

end

end
