(* ===== verification/Outbox_Worker.thy ===== *)
theory Outbox_Worker
  imports Postgres_Events
begin

section \<open>Outbox worker (internal/app/outbox_worker.go, internal/infra/publisher/log_publisher.go)\<close>

text \<open>
  The background worker that delivers the rows of the outbox: it fetches a batch, publishes the
  rows one by one, and marks those that were published. The publisher is a port; the log publisher
  of the repository is an instance. The polling loop is run for the number of ticks before its
  context is cancelled.
\<close>

record 'p EventPublisher =
  pub_Publish :: "string \<Rightarrow> string \<Rightarrow> json \<Rightarrow> 'p \<Rightarrow> (error + unit) \<times> 'p"

record 'p OutboxWorker =
  ow_publisher :: "'p EventPublisher"
  ow_interval :: int
  ow_batchSize :: nat

definition NewOutboxWorker :: "'p EventPublisher \<Rightarrow> 'p OutboxWorker" where
  "NewOutboxWorker publisher =
     \<lparr>ow_publisher = publisher, ow_interval = 1000000000, ow_batchSize = 50\<rparr>"

fun publish_entries ::
  "'p EventPublisher \<Rightarrow> OutboxEntry list \<Rightarrow> 'p \<Rightarrow> int64 list \<times> 'p" where
  "publish_entries pub [] p = ([], p)"
| "publish_entries pub (entry # entries) p =
     (case pub_Publish pub (oe_EventType entry) (oe_AggregateID entry) (oe_Payload entry) p of
        (Inl err, p1) \<Rightarrow> publish_entries pub entries p1
      | (Inr _, p1) \<Rightarrow>
          (case publish_entries pub entries p1 of (ids, p2) \<Rightarrow> (oe_ID entry # ids, p2)))"

definition processBatch :: "pg_env \<Rightarrow> 'p OutboxWorker \<Rightarrow> pg_db \<Rightarrow> 'p \<Rightarrow> pg_db \<times> 'p" where
  "processBatch pe w db p =
     (case FetchUnpublished pe (ow_batchSize w) db of
        (Inl err, db1) \<Rightarrow> (db1, p)
      | (Inr entries, db1) \<Rightarrow>
          if entries = [] then (db1, p)
          else
            (case publish_entries (ow_publisher w) entries p of
               (publishedIDs, p1) \<Rightarrow>
                 if 0 < length publishedIDs then (snd (MarkPublished pe publishedIDs db1), p1)
                 else (db1, p1)))"

text \<open>The two accesses of a batch to the database, for a worker that is interrupted between them.\<close>

definition fetch_publish :: "pg_env \<Rightarrow> 'p OutboxWorker \<Rightarrow> pg_db \<Rightarrow> 'p \<Rightarrow> int64 list \<times> pg_db \<times> 'p" where
  "fetch_publish pe w db p =
     (case FetchUnpublished pe (ow_batchSize w) db of
        (Inl err, db1) \<Rightarrow> ([], db1, p)
      | (Inr entries, db1) \<Rightarrow>
          (case publish_entries (ow_publisher w) entries p of (publishedIDs, p1) \<Rightarrow> (publishedIDs, db1, p1)))"

lemma processBatch_split:
  "processBatch pe w db p =
     (case fetch_publish pe w db p of (ids, db1, p1) \<Rightarrow>
        if ids = [] then (db1, p1) else (snd (MarkPublished pe ids db1), p1))"
  by (simp add: processBatch_def fetch_publish_def split: sum.splits prod.splits)

text \<open>The loop of Start: one batch per tick.\<close>

fun worker_Start :: "pg_env \<Rightarrow> 'p OutboxWorker \<Rightarrow> nat \<Rightarrow> pg_db \<Rightarrow> 'p \<Rightarrow> pg_db \<times> 'p" where
  "worker_Start pe w 0 db p = (db, p)"
| "worker_Start pe w (Suc n) db p =
     (case processBatch pe w db p of (db1, p1) \<Rightarrow> worker_Start pe w n db1 p1)"

subsection \<open>The log publisher\<close>

type_synonym log_line = "string \<times> string \<times> json"

definition LogPublisher :: "log_line list EventPublisher" where
  "LogPublisher = \<lparr>pub_Publish = (\<lambda>eventType aggregateID payload log.
     (Inr (), log @ [(eventType, aggregateID, payload)]))\<rparr>"

subsection \<open>The contract of a publisher\<close>

locale event_publisher =
  fixes pub :: "'p EventPublisher" and delivered :: "'p \<Rightarrow> log_line set"
  assumes published: "pub_Publish pub ty aid payload p = (Inr u, p') \<Longrightarrow> (ty, aid, payload) \<in> delivered p'"
    and kept: "pub_Publish pub ty aid payload p = (r, p') \<Longrightarrow> delivered p \<subseteq> delivered p'"
begin

lemma publish_entries_kept: "publish_entries pub entries p = (ids, p') \<Longrightarrow> delivered p \<subseteq> delivered p'"
  by (induction entries arbitrary: p ids) (fastforce dest: kept split: prod.splits sum.splits)+

lemma publish_entries_delivered:
  assumes "publish_entries pub entries p = (ids, p')" "i \<in> set ids"
  shows "\<exists>entry\<in>set entries. oe_ID entry = i
    \<and> (oe_EventType entry, oe_AggregateID entry, oe_Payload entry) \<in> delivered p'"
  using assms
proof (induction entries arbitrary: p ids p')
  case (Cons entry entries)
  obtain r p1 where pub1: "pub_Publish pub (oe_EventType entry) (oe_AggregateID entry) (oe_Payload entry) p = (r, p1)"
    by fastforce
  obtain ids1 p2 where rest: "publish_entries pub entries p1 = (ids1, p2)" by fastforce
  show ?case
  proof (cases r)
    case (Inl err)
    with Cons.prems pub1 rest Cons.IH [OF rest] show ?thesis by auto
  next
    case (Inr u)
    with Cons.prems pub1 rest have eq: "ids = oe_ID entry # ids1" "p' = p2" by auto
    have "(oe_EventType entry, oe_AggregateID entry, oe_Payload entry) \<in> delivered p2"
      using published pub1 Inr publish_entries_kept [OF rest] by blast
    with eq Cons.prems(2) Cons.IH [OF rest] show ?thesis by auto
  qed
qed simp

end

interpretation log_publisher: event_publisher LogPublisher set
  by unfold_locales (auto simp: LogPublisher_def)

subsection \<open>What a batch does to the outbox\<close>

definition unpublished :: "pg_db \<Rightarrow> outbox_row list" where
  "unpublished db = filter (\<lambda>r. \<not> ob_published r) (db_outbox db)"

definition row_line :: "outbox_row \<Rightarrow> log_line" where
  "row_line r = (ob_event_type r, ob_aggregate_id r, ob_payload r)"

definition outbox_keys :: "pg_db \<Rightarrow> bool" where
  "outbox_keys db \<longleftrightarrow> distinct (map ob_id (db_outbox db))"

text \<open>What may happen to a row while the delivered events are \<open>D\<close>: it keeps its content, it stays
  published, and it becomes published only if it was delivered.\<close>

definition row_step :: "log_line set \<Rightarrow> outbox_row \<Rightarrow> outbox_row \<Rightarrow> bool" where
  "row_step D r r' \<longleftrightarrow> ob_id r' = ob_id r \<and> outbox_content r' = outbox_content r
     \<and> (ob_published r \<longrightarrow> ob_published r') \<and> (ob_published r' \<longrightarrow> ob_published r \<or> row_line r \<in> D)"

lemma row_step_refl [simp]: "row_step D r r"
  by (simp add: row_step_def)

lemma row_line_content: "outbox_content r' = outbox_content r \<Longrightarrow> row_line r' = row_line r"
  by (simp add: outbox_content_def row_line_def)

lemma row_step_trans:
  "row_step D r r1 \<Longrightarrow> row_step D' r1 r2 \<Longrightarrow> D \<subseteq> D' \<Longrightarrow> row_step D' r r2"
  by (auto simp: row_step_def dest: row_line_content)

lemma FetchUnpublished_outbox: "db_outbox (snd (FetchUnpublished pe n db)) = db_outbox db"
  by (simp add: FetchUnpublished_def pg_call_def Let_def split: option.splits)

lemma FetchUnpublished_Inr:
  assumes "FetchUnpublished pe n db = (Inr entries, db')" "pg_scan_ok pe"
  obtains rows where "entries = map row_OutboxEntry rows" "set rows \<subseteq> set (unpublished db)"
proof -
  let ?rows = "take n (order_rows (\<lambda>r s. ob_created_at r \<le> ob_created_at s)
      (filter (\<lambda>r. \<not> ob_published r \<and> \<not> pg_locked pe (db_calls db) (ob_id r))
         (scan_rows pe (db_calls db) (db_outbox db))))"
  have "entries = map row_OutboxEntry ?rows"
    using assms(1) by (auto simp: FetchUnpublished_def pg_call_def Let_def split: option.splits)
  moreover have "set ?rows \<subseteq> set (unpublished db)"
    by (rule subset_trans [OF set_take_subset])
      (auto simp: unpublished_def set_scan_rows [OF assms(2)])
  ultimately show ?thesis by (rule that)
qed

lemma MarkPublished_outbox:
  "db_outbox (snd (MarkPublished pe ids db)) = db_outbox db \<or>
   (\<exists>t. db_outbox (snd (MarkPublished pe ids db)) =
      map (\<lambda>r. if ob_id r \<in> set ids then r\<lparr>ob_published := True, ob_published_at := t\<rparr> else r) (db_outbox db))"
  by (auto simp: MarkPublished_def pg_call_def split: option.splits)

lemma mark_steps:
  assumes "\<And>q. q \<in> set (db_outbox db) \<Longrightarrow> ob_id q \<in> set ids \<Longrightarrow> row_line q \<in> D"
  shows "list_all2 (row_step D) (db_outbox db) (db_outbox (snd (MarkPublished pe ids db)))"
  using MarkPublished_outbox [of pe ids db] assms
  by (auto simp: list_all2_map2 list_all2_same row_step_def outbox_content_def)

lemma unique_row:
  "outbox_keys db \<Longrightarrow> r \<in> set (db_outbox db) \<Longrightarrow> s \<in> set (db_outbox db) \<Longrightarrow> ob_id r = ob_id s \<Longrightarrow> r = s"
  by (auto simp: outbox_keys_def distinct_map inj_on_def)

context event_publisher
begin

lemma fetch_publish_delivered:
  assumes "fetch_publish pe w db p = (ids, db1, p1)" "ow_publisher w = pub" "pg_scan_ok pe" "outbox_keys db"
  shows "delivered p \<subseteq> delivered p1" "set ids \<subseteq> ob_id ` set (db_outbox db)"
    "\<And>q. q \<in> set (db_outbox db) \<Longrightarrow> ob_id q \<in> set ids \<Longrightarrow> row_line q \<in> delivered p1"
proof -
  obtain r where fetch: "FetchUnpublished pe (ow_batchSize w) db = (r, db1)"
    using assms(1) by (auto simp: fetch_publish_def split: sum.splits prod.splits)
  have kept: "delivered p \<subseteq> delivered p1 \<and> (\<forall>i\<in>set ids. \<exists>s\<in>set (db_outbox db). ob_id s = i \<and> row_line s \<in> delivered p1)"
  proof (cases r)
    case (Inl err)
    then show ?thesis using assms(1) fetch by (auto simp: fetch_publish_def)
  next
    case (Inr entries)
    from fetch [unfolded Inr] assms(3) obtain rows where
      rows: "entries = map row_OutboxEntry rows" "set rows \<subseteq> set (unpublished db)"
      by (rule FetchUnpublished_Inr)
    have pub: "publish_entries pub entries p = (ids, p1)"
      using assms(1,2) fetch Inr by (auto simp: fetch_publish_def split: prod.splits)
    have "\<exists>s\<in>set (db_outbox db). ob_id s = i \<and> row_line s \<in> delivered p1" if "i \<in> set ids" for i
    proof -
      from publish_entries_delivered [OF pub that] rows(1) obtain s where
        "s \<in> set rows" "ob_id s = i" "row_line s \<in> delivered p1"
        by (auto simp: row_OutboxEntry_def row_line_def)
      with rows(2) show ?thesis by (auto simp: unpublished_def)
    qed
    then show ?thesis using publish_entries_kept [OF pub] by blast
  qed
  then show "delivered p \<subseteq> delivered p1" "set ids \<subseteq> ob_id ` set (db_outbox db)" by auto
  fix q assume q: "q \<in> set (db_outbox db)" "ob_id q \<in> set ids"
  with kept obtain s where s: "s \<in> set (db_outbox db)" "ob_id s = ob_id q" "row_line s \<in> delivered p1" by blast
  from unique_row [OF assms(4) s(1) q(1) s(2)] s(3) show "row_line q \<in> delivered p1" by simp
qed

lemma fetch_publish_outbox: "fetch_publish pe w db p = (ids, db1, p1) \<Longrightarrow> db_outbox db1 = db_outbox db"
  using FetchUnpublished_outbox [of pe "ow_batchSize w" db] by (auto simp: fetch_publish_def split: sum.splits prod.splits)

lemma batch_steps:
  assumes "processBatch pe w db p = (db', p')" "ow_publisher w = pub" "pg_scan_ok pe" "outbox_keys db"
  shows "list_all2 (row_step (delivered p')) (db_outbox db) (db_outbox db') \<and> delivered p \<subseteq> delivered p'"
proof -
  obtain ids db1 p1 where fetch: "fetch_publish pe w db p = (ids, db1, p1)" by (metis prod_cases3)
  note fetched = fetch_publish_delivered [OF fetch assms(2-4)] fetch_publish_outbox [OF fetch]
  have "list_all2 (row_step (delivered p1)) (db_outbox db1) (db_outbox (snd (MarkPublished pe ids db1)))"
    by (rule mark_steps) (use fetched in simp)
  with fetched assms(1) show ?thesis
    by (auto simp: processBatch_split fetch list_all2_same split: if_splits)
qed

lemma batch_keys:
  assumes "processBatch pe w db p = (db', p')" "ow_publisher w = pub" "pg_scan_ok pe" "outbox_keys db"
  shows "outbox_keys db'"
proof -
  have "list_all2 (\<lambda>r r'. ob_id r = ob_id r') (db_outbox db) (db_outbox db')"
    using batch_steps [OF assms] by (auto simp: row_step_def elim!: list_all2_mono)
  then have "map ob_id (db_outbox db) = map ob_id (db_outbox db')"
    by (simp add: list_all2_conv_all_nth list_eq_iff_nth_eq)
  with assms(4) show ?thesis by (simp add: outbox_keys_def)
qed

lemma worker_steps:
  assumes "worker_Start pe w n db p = (db', p')" "ow_publisher w = pub" "pg_scan_ok pe" "outbox_keys db"
  shows "list_all2 (row_step (delivered p')) (db_outbox db) (db_outbox db') \<and> delivered p \<subseteq> delivered p'"
  using assms(1,4)
proof (induction n arbitrary: db p)
  case 0
  then show ?case by (simp add: list_all2_same)
next
  case (Suc n)
  obtain db1 p1 where batch: "processBatch pe w db p = (db1, p1)" by fastforce
  with Suc.prems have rest: "worker_Start pe w n db1 p1 = (db', p')" by simp
  note one = batch_steps [OF batch assms(2,3) Suc.prems(2)]
  note IH = Suc.IH [OF rest batch_keys [OF batch assms(2,3) Suc.prems(2)]]
  have "list_all2 (row_step (delivered p')) (db_outbox db) (db_outbox db')"
    by (rule list_all2_trans [OF _ conjunct1 [OF one] conjunct1 [OF IH]])
      (use IH in \<open>blast intro: row_step_trans\<close>)
  then show ?case using one IH by blast
qed

end

subsection \<open>Serial keys\<close>

text \<open>The keys of the outbox come from a sequence that never goes back, so that they stay distinct.\<close>

definition serial_keys :: "pg_db \<Rightarrow> bool" where
  "serial_keys db \<longleftrightarrow> outbox_keys db \<and> (\<forall>r\<in>set (db_outbox db). unat (ob_id r) \<le> db_outbox_seq db)"

lemma unat_nextval: "nextval n = Inr i \<Longrightarrow> unat i = Suc n"
proof -
  assume "nextval n = Inr i"
  then have i: "i = of_nat (Suc n)" "int n < 2 ^ 63 - 1" by (simp_all add: nextval_def split: if_splits)
  then show ?thesis by (simp add: unat_of_nat del: of_nat_Suc)
qed

lemma insert_event_frame:
  "insert_event pe aid ty v ev db = (r, db') \<Longrightarrow> db_outbox db' = db_outbox db \<and> db_outbox_seq db' = db_outbox_seq db"
  by (auto simp: insert_event_def pg_call_def Let_def split: option.splits sum.splits if_splits)

lemma insert_outbox_serial:
  assumes "insert_outbox pe now aid ty ev db = (r, db')"
  shows "db_outbox_seq db \<le> db_outbox_seq db' \<and> (serial_keys db \<longrightarrow> serial_keys db')"
proof -
  have new: "(\<forall>r\<in>set (db_outbox db). ob_id r \<noteq> i \<and> unat (ob_id r) \<le> Suc (db_outbox_seq db)) \<and> unat i \<le> Suc (db_outbox_seq db)"
    if "serial_keys db" "nextval (db_outbox_seq db) = Inr i" for i
    using that(1) unat_nextval [OF that(2)] by (fastforce simp: serial_keys_def)
  show ?thesis
    using assms new by (cases "nextval (db_outbox_seq db)")
      (auto simp: insert_outbox_def pg_call_def serial_keys_def outbox_keys_def split: option.splits)
qed

lemma append_both_serial:
  "append_both pe now aid ty ver i evs db = (r, db') \<Longrightarrow>
     db_outbox_seq db \<le> db_outbox_seq db' \<and> (serial_keys db \<longrightarrow> serial_keys db')"
proof (induction evs arbitrary: i db)
  case (Cons ev evs)
  obtain r1 db1 where ins: "insert_event pe aid ty (ver + of_nat i + 1) ev db = (r1, db1)" by fastforce
  obtain r2 db2 where out: "insert_outbox pe now aid ty ev db1 = (r2, db2)" by fastforce
  have "db_outbox_seq db1 = db_outbox_seq db \<and> (serial_keys db \<longrightarrow> serial_keys db1)"
    using insert_event_frame [OF ins] by (simp add: serial_keys_def outbox_keys_def)
  with insert_outbox_serial [OF out] Cons.IH [of "Suc i" db2] Cons.prems show ?case
    by (cases r1; cases r2) (auto simp: ins out)
qed simp

lemma AppendWithOutbox_serial:
  assumes "AppendWithOutbox pe aid ty ver evs db = (r, db')" "serial_keys db"
  shows "serial_keys db'"
proof -
  let ?db1 = "snd (pg_call pe db)" and ?now = "pg_now pe (db_calls db)"
  obtain r2 db2 where app: "append_both pe ?now aid ty ver 0 evs ?db1 = (r2, db2)" by fastforce
  have keys: "serial_keys (pg_rollback ?db1 d)" if "db_outbox_seq ?db1 \<le> db_outbox_seq d" for d
    using that assms(2) by (auto simp: serial_keys_def outbox_keys_def pg_rollback_def pg_call_def)
  have "serial_keys ?db1" "db_outbox_seq ?db1 \<le> db_outbox_seq db2" "serial_keys db2"
    using append_both_serial [OF app] assms(2) by (auto simp: serial_keys_def outbox_keys_def pg_call_def)
  with keys [of db2] keys [of "snd (pg_call pe db2)"] assms(1) app show ?thesis
    by (auto simp: AppendWithOutbox_def pg_call_def serial_keys_def outbox_keys_def
        split: prod.splits option.splits sum.splits)
qed

subsection \<open>Draining the outbox\<close>

text \<open>A database that answers every call, with no other session holding locks.\<close>

definition pg_quiet :: "pg_env \<Rightarrow> bool" where
  "pg_quiet pe \<longleftrightarrow> pg_scan_ok pe \<and> (\<forall>n. pg_fault pe n = None) \<and> (\<forall>n i. \<not> pg_locked pe n i)"

lemma publish_log:
  "publish_entries LogPublisher entries log =
     (map oe_ID entries, log @ map (\<lambda>x. (oe_EventType x, oe_AggregateID x, oe_Payload x)) entries)"
  by (induction entries arbitrary: log) (simp_all add: LogPublisher_def)

lemma fetch_quiet:
  assumes "pg_quiet pe"
  obtains rows db1 where "FetchUnpublished pe n db = (Inr (map row_OutboxEntry rows), db1)"
    "db_outbox db1 = db_outbox db" "length rows = min n (length (unpublished db))"
    "set rows \<subseteq> set (unpublished db)" "distinct (unpublished db) \<Longrightarrow> distinct rows"
proof -
  let ?all = "order_rows (\<lambda>r s. ob_created_at r \<le> ob_created_at s)
      (filter (\<lambda>r. \<not> ob_published r) (scan_rows pe (db_calls db) (db_outbox db)))"
  have scan: "pg_scan_ok pe" using assms by (simp add: pg_quiet_def)
  have all: "mset ?all = mset (unpublished db)" by (simp add: mset_scan_rows [OF scan] unpublished_def)
  then have len: "length ?all = length (unpublished db)" by (metis size_mset)
  have "FetchUnpublished pe n db = (Inr (map row_OutboxEntry (take n ?all)),
      db\<lparr>db_calls := Suc (Suc (db_calls db))\<rparr>)"
    using assms by (simp add: FetchUnpublished_def pg_call_def pg_quiet_def Let_def)
  moreover have "set (take n ?all) \<subseteq> set (unpublished db)"
    using set_take_subset [of n ?all] mset_eq_setD [OF all] by simp
  moreover have "distinct (unpublished db) \<Longrightarrow> distinct (take n ?all)"
    using mset_eq_imp_distinct_iff [OF all] by simp
  ultimately show ?thesis
    using len by (intro that [of "take n ?all" "db\<lparr>db_calls := Suc (Suc (db_calls db))\<rparr>"]) simp_all
qed

lemma unpublished_marked:
  "filter (\<lambda>r. \<not> ob_published r) (map (\<lambda>r. if ob_id r \<in> S
       then r\<lparr>ob_published := True, ob_published_at := t\<rparr> else r) rows)
     = filter (\<lambda>r. ob_id r \<notin> S) (filter (\<lambda>r. \<not> ob_published r) rows)"
  by (induction rows) auto

lemma batch_drains:
  assumes "pg_quiet pe" "outbox_keys db" "0 < ow_batchSize w" "ow_publisher w = LogPublisher"
    and "processBatch pe w db log = (db', log')"
  shows "length (unpublished db') = length (unpublished db) - ow_batchSize w"
proof -
  obtain rows db1 where fetch: "FetchUnpublished pe (ow_batchSize w) db = (Inr (map row_OutboxEntry rows), db1)"
    "db_outbox db1 = db_outbox db" and rows: "length rows = min (ow_batchSize w) (length (unpublished db))"
    "set rows \<subseteq> set (unpublished db)" "distinct (unpublished db) \<Longrightarrow> distinct rows"
    using fetch_quiet [OF assms(1)] by metis
  show ?thesis
  proof (cases "rows = []")
    case True
    with rows(1) assms(3) have "unpublished db = []" by (auto simp: min_def split: if_splits)
    with True assms(5) fetch show ?thesis by (auto simp: processBatch_def unpublished_def)
  next
    case False
    then have out: "db_outbox db' = map (\<lambda>r. if ob_id r \<in> ob_id ` set rows
        then r\<lparr>ob_published := True, ob_published_at := Some (pg_now pe (db_calls db1))\<rparr> else r) (db_outbox db)"
      using assms(1,4,5) fetch
      by (auto simp: processBatch_def publish_log MarkPublished_def pg_call_def pg_quiet_def row_OutboxEntry_def
          split: if_splits)
    have "distinct (map ob_id (unpublished db))"
      using assms(2) by (simp add: outbox_keys_def unpublished_def distinct_map_filter)
    then have inj: "inj_on ob_id (set (unpublished db))" and dist: "distinct (unpublished db)"
      by (simp_all add: distinct_map)
    have "unpublished db' = filter (\<lambda>r. ob_id r \<notin> ob_id ` set rows) (unpublished db)"
      by (simp add: unpublished_def out unpublished_marked)
    also have "\<dots> = filter (\<lambda>r. r \<notin> set rows) (unpublished db)"
      using inj rows(2) by (intro filter_cong) (auto simp: inj_on_def)
    finally have "length (unpublished db') = card (set (unpublished db) - set rows)"
      using dist by (metis distinct_card distinct_filter set_diff_eq set_filter)
    moreover have "distinct rows" using rows(3) [OF dist] .
    ultimately show ?thesis
      using rows(2) dist rows(1) by (simp add: card_Diff_subset distinct_card)
  qed
qed

lemma worker_drains:
  assumes "pg_quiet pe" "outbox_keys db" "0 < ow_batchSize w" "ow_publisher w = LogPublisher"
    and "worker_Start pe w n db log = (db', log')"
  shows "length (unpublished db') = length (unpublished db) - n * ow_batchSize w"
  using assms(2,5)
proof (induction n arbitrary: db log)
  case (Suc n)
  obtain db1 log1 where batch: "processBatch pe w db log = (db1, log1)" by fastforce
  have scan: "pg_scan_ok pe" using assms(1) by (simp add: pg_quiet_def)
  have "length (unpublished db') = length (unpublished db1) - n * ow_batchSize w"
    using Suc.IH [OF log_publisher.batch_keys [OF batch assms(4) scan Suc.prems(1)]] Suc.prems(2) batch by simp
  with batch_drains [OF assms(1) Suc.prems(1) assms(3,4) batch] show ?case by simp
qed simp

subsection \<open>Properties\<close>

text \<open>At-least-once delivery, the safety half: however many polls are run, with whatever failures of
  the database, every outbox row keeps its content, and a row is marked published only after the
  publisher has accepted its event.\<close>

lemma outbox_published_implies_delivered:
  assumes "worker_Start pe (NewOutboxWorker LogPublisher) n db log = (db', log')"
    and "pg_scan_ok pe" and "outbox_keys db"
  shows "list_all2 (row_step (set log')) (db_outbox db) (db_outbox db')"
proof -
  have "ow_publisher (NewOutboxWorker LogPublisher) = LogPublisher" by (simp add: NewOutboxWorker_def)
  from log_publisher.worker_steps [OF assms(1) this assms(2,3)] show ?thesis by simp
qed

definition sample_outbox :: pg_db where
  "sample_outbox = snd (AppendWithOutbox sample_pg ''t1'' ''transaction'' 0 [sample_event 1, sample_event 2] empty_db)"

lemma sample_outbox_keys: "outbox_keys sample_outbox"
proof -
  have "distinct (map ob_id (db_outbox sample_outbox))" by code_simp
  then show ?thesis by (simp add: outbox_keys_def)
qed

lemma sample_pg_quiet: "pg_quiet sample_pg"
  using sample_pg_laws by (simp add: pg_quiet_def pg_laws_def sample_pg_def)

lemma outbox_published_implies_delivered_witness:
  "case worker_Start sample_pg (NewOutboxWorker LogPublisher) 1 sample_outbox [] of
     (db', log') \<Rightarrow> list_all2 (row_step (set log')) (db_outbox sample_outbox) (db_outbox db')"
proof -
  obtain db' log' where run: "worker_Start sample_pg (NewOutboxWorker LogPublisher) 1 sample_outbox [] = (db', log')"
    by fastforce
  have "pg_scan_ok sample_pg" using sample_pg_laws by (simp add: pg_laws_def)
  from outbox_published_implies_delivered [OF run this sample_outbox_keys] run show ?thesis by simp
qed

text \<open>C35. At-least-once delivery, the liveness half: when the database answers and the publisher accepts,
  n polls with batches of 50 publish everything in an outbox of at most 50 n unpublished rows.\<close>

theorem outbox_drained:
  assumes "pg_quiet pe" and "outbox_keys db" and "length (unpublished db) \<le> 50 * n"
    and "worker_Start pe (NewOutboxWorker LogPublisher) n db log = (db', log')"
  shows "unpublished db' = []"
proof -
  have "0 < ow_batchSize (NewOutboxWorker LogPublisher)"
    "ow_publisher (NewOutboxWorker LogPublisher) = LogPublisher" by (simp_all add: NewOutboxWorker_def)
  from worker_drains [OF assms(1,2) this assms(4)] assms(3) show ?thesis
    by (simp add: NewOutboxWorker_def)
qed

theorem outbox_drained_witness:
  "unpublished (fst (worker_Start sample_pg (NewOutboxWorker LogPublisher) 1 sample_outbox [])) = []"
proof -
  obtain db' log' where run: "worker_Start sample_pg (NewOutboxWorker LogPublisher) 1 sample_outbox [] = (db', log')"
    by fastforce
  have "length (unpublished sample_outbox) \<le> 50" by code_simp
  then have "length (unpublished sample_outbox) \<le> 50 * 1" by simp
  from outbox_drained [OF sample_pg_quiet sample_outbox_keys this run] run show ?thesis by simp
qed

text \<open>Delivery is not exactly once: when the call that marks the rows fails after they were
  published, the next poll publishes them again.\<close>

lemma outbox_may_deliver_twice:
  "case worker_Start (sample_pg\<lparr>pg_fault := \<lambda>n. if n = 10 then Some ''connection reset'' else None\<rparr>)
      (NewOutboxWorker LogPublisher) 2 (sample_outbox\<lparr>db_calls := 8\<rparr>) [] of
     (db', log') \<Rightarrow> length (db_outbox db') = 2 \<and> length log' = 4"
  by code_simp

end
