(* ===== verification/Idempotency_Concurrency.thy ===== *)
theory Idempotency_Concurrency
  imports Idempotency_Middleware
begin

section \<open>Requests served at the same time\<close>

text \<open>
  Every request runs in its own goroutine, and their accesses to Redis interleave: a configuration
  holds the phase of every request, the store and the state of the program, and a step lets one
  request make one access. Running the handler is one step, too. The lock keeps two requests with one
  key from holding it together, but since a request checks for a stored response only before it takes
  the lock, it may run the handler again when the other request has finished in between.
\<close>

record 's conc =
  cn_phase :: "nat \<Rightarrow> phase"
  cn_redis :: redis_db
  cn_state :: 's

definition conc_start :: "(nat \<Rightarrow> http_request) \<Rightarrow> redis_db \<Rightarrow> 's \<Rightarrow> 's conc" where
  "conc_start reqs rd s = \<lparr>cn_phase = (\<lambda>i. mw_start (reqs i)), cn_redis = rd, cn_state = s\<rparr>"

definition conc_turn ::
  "json_text \<Rightarrow> redis_env \<Rightarrow> IdempotencyStore \<Rightarrow> 's handler \<Rightarrow> (nat \<Rightarrow> http_request) \<Rightarrow> nat \<Rightarrow> 's conc \<Rightarrow> 's conc" where
  "conc_turn enc re st serve reqs i c =
     (case mw_step enc re st serve (reqs i) (cn_phase c i) (cn_redis c) (cn_state c) of
        (ph, rd, s) \<Rightarrow> \<lparr>cn_phase = (cn_phase c)(i := ph), cn_redis = rd, cn_state = s\<rparr>)"

inductive conc_reach ::
  "json_text \<Rightarrow> redis_env \<Rightarrow> IdempotencyStore \<Rightarrow> 's handler \<Rightarrow> (nat \<Rightarrow> http_request) \<Rightarrow> redis_db \<Rightarrow> 's \<Rightarrow> 's conc \<Rightarrow> bool"
  for enc re st serve reqs rd s where
  start: "conc_reach enc re st serve reqs rd s (conc_start reqs rd s)"
| turn: "conc_reach enc re st serve reqs rd s c \<Longrightarrow>
    conc_reach enc re st serve reqs rd s (conc_turn enc re st serve reqs i c)"

fun run_schedule ::
  "json_text \<Rightarrow> redis_env \<Rightarrow> IdempotencyStore \<Rightarrow> 's handler \<Rightarrow> (nat \<Rightarrow> http_request) \<Rightarrow> nat list \<Rightarrow> 's conc \<Rightarrow> 's conc" where
  "run_schedule enc re st serve reqs [] c = c"
| "run_schedule enc re st serve reqs (i # is) c =
     run_schedule enc re st serve reqs is (conc_turn enc re st serve reqs i c)"

lemma run_schedule_reach:
  "conc_reach enc re st serve reqs rd s c \<Longrightarrow>
     conc_reach enc re st serve reqs rd s (run_schedule enc re st serve reqs is c)"
  by (induction "is" arbitrary: c) (auto intro: conc_reach.turn)

subsection \<open>What a step does to the lock\<close>

text \<open>A request holds its lock from the moment it has it until it has deleted it.\<close>

definition holding :: "phase \<Rightarrow> bool" where
  "holding ph \<longleftrightarrow> (case ph of Serving \<Rightarrow> True | StoringBody _ \<Rightarrow> True | StoringStatus _ _ \<Rightarrow> True
     | Releasing _ _ \<Rightarrow> True | _ \<Rightarrow> False)"

definition no_error_seen :: "phase \<Rightarrow> bool" where
  "no_error_seen ph \<longleftrightarrow> (case ph of StoringStatus _ e \<Rightarrow> e = None | Releasing _ e \<Rightarrow> e = None
     | Unlocking _ \<Rightarrow> False | _ \<Rightarrow> True)"

definition keeps_entries :: "redis_db \<Rightarrow> redis_db \<Rightarrow> bool" where
  "keeps_entries rd rd' \<longleftrightarrow> dom (rd_data rd) \<subseteq> dom (rd_data rd')"

lemma keeps_entries_update [simp]:
  "keeps_entries rd (rd\<lparr>rd_calls := m, rd_data := (rd_data rd)(k \<mapsto> v)\<rparr>)" "keeps_entries rd rd"
  by (auto simp: keeps_entries_def)

text \<open>What a step may do: nothing to the entries, take a lock that is not live, keep all entries, or give
  the lock back.\<close>

definition lock_effect :: "redis_env \<Rightarrow> string \<Rightarrow> phase \<Rightarrow> phase \<Rightarrow> redis_db \<Rightarrow> redis_db \<Rightarrow> bool" where
  "lock_effect re k ph ph' rd rd' \<longleftrightarrow>
     \<not> holding ph \<and> \<not> holding ph' \<and> rd_data rd' = rd_data rd
   \<or> \<not> holding ph \<and> live re rd (idempotencyLock k) = None \<and> rd_data rd' (idempotencyLock k) \<noteq> None
       \<and> keeps_entries rd rd'
   \<or> holding ph \<and> keeps_entries rd rd'
   \<or> holding ph \<and> \<not> holding ph' \<and> rd_data rd' = (rd_data rd)(idempotencyLock k := None)"

lemmas store_defs = Check_def GetStatus_def Lock_def store_body_def store_status_def store_unlock_def
  redis_defs first_error_def

lemma mw_step_effect:
  assumes "mw_step enc re st serve r ph rd s = (ph', rd', s')" and "redis_quiet re" "no_error_seen ph"
  shows "no_error_seen ph' \<and> lock_effect re (request_key r) ph ph' rd rd'"
proof -
  have quiet: "rd_fault re n = None" for n using assms(2) by (simp add: redis_quiet_def)
  show ?thesis
    using assms(1,3) quiet
    by (cases ph) (auto simp: store_defs no_error_seen_def lock_effect_def holding_def
        split: prod.splits reply.splits option.splits if_splits)
qed

subsection \<open>Mutual exclusion\<close>

text \<open>At most one of the requests with one key is between taking and giving back its lock, and the entry
  of its lock is there.\<close>

definition exclusive_locks :: "(nat \<Rightarrow> string) \<Rightarrow> (nat \<Rightarrow> phase) \<Rightarrow> redis_db \<Rightarrow> bool" where
  "exclusive_locks key ph rd \<longleftrightarrow> (\<forall>i. no_error_seen (ph i))
     \<and> (\<forall>i. holding (ph i) \<longrightarrow> rd_data rd (idempotencyLock (key i)) \<noteq> None)
     \<and> (\<forall>i j. holding (ph i) \<and> holding (ph j) \<and> key i = key j \<longrightarrow> i = j)"

text \<open>Nobody is slower than the 30 seconds of a lock: the entry of a lock that is held has not expired at
  the time of the next access.\<close>

definition locks_alive :: "redis_env \<Rightarrow> (nat \<Rightarrow> string) \<Rightarrow> (nat \<Rightarrow> phase) \<Rightarrow> redis_db \<Rightarrow> bool" where
  "locks_alive re key ph rd \<longleftrightarrow> (\<forall>i v t. holding (ph i) \<and> rd_data rd (idempotencyLock (key i)) = Some (v, t) \<longrightarrow>
     rd_now re (rd_calls rd) < t)"

lemma exclusive_locks_step:
  assumes "exclusive_locks key ph rd" and alive: "locks_alive re key ph rd"
    and eff: "no_error_seen p" "lock_effect re (key i) (ph i) p rd rd'"
  shows "exclusive_locks key (ph(i := p)) rd'"
proof -
  let ?lock = "\<lambda>j. idempotencyLock (key j)"
  have held: "\<And>j. holding (ph j) \<Longrightarrow> ?lock j \<in> dom (rd_data rd)"
    and excl: "\<And>j j'. holding (ph j) \<Longrightarrow> holding (ph j') \<Longrightarrow> key j = key j' \<Longrightarrow> j = j'"
    using assms(1) by (auto simp: exclusive_locks_def)
  have lives: "live re rd (?lock j) \<noteq> None" if "holding (ph j)" for j
    using held [OF that] alive that by (auto simp: locks_alive_def live_def)
  from eff(2) have "(holding p \<longrightarrow> ?lock i \<in> dom (rd_data rd'))
      \<and> (\<forall>j. j \<noteq> i \<and> holding (ph j) \<longrightarrow> ?lock j \<in> dom (rd_data rd') \<and> (holding p \<longrightarrow> key j \<noteq> key i))"
    unfolding lock_effect_def
  proof (elim disjE conjE)
    assume "holding (ph i)" and d: "keeps_entries rd rd'"
    then show ?thesis using held excl unfolding keeps_entries_def by blast
  next
    assume "\<not> holding (ph i)" and free: "live re rd (?lock i) = None"
      and got: "rd_data rd' (?lock i) \<noteq> None" and d: "keeps_entries rd rd'"
    have "key j \<noteq> key i" if "holding (ph j)" for j
      using lives [OF that] free by metis
    with held d got show ?thesis unfolding keeps_entries_def by blast
  next
    assume "holding (ph i)" "\<not> holding p"
      and rd: "rd_data rd' = (rd_data rd)(?lock i := None)"
    then have "?lock j \<in> dom (rd_data rd')" if "j \<noteq> i" "holding (ph j)" for j
      using held [OF that(2)] excl [OF that(2), of i] that(1) by auto
    with \<open>\<not> holding p\<close> show ?thesis by blast
  qed (use held in auto)
  with eff(1) assms(1) excl show ?thesis
    unfolding exclusive_locks_def by (auto split: if_splits)
qed

text \<open>Sufficient for that: all readings of the clock lie within the life of a lock and of a response, so that
  no entry ever expires.\<close>

definition outlives :: "redis_env \<Rightarrow> IdempotencyStore \<Rightarrow> bool" where
  "outlives re st \<longleftrightarrow> window re lock_ttl \<and> window re (is_ttl st)"

definition fresh_entries :: "redis_env \<Rightarrow> redis_db \<Rightarrow> bool" where
  "fresh_entries re rd \<longleftrightarrow> (\<forall>k v t n. rd_data rd k = Some (v, t) \<longrightarrow> rd_now re n < t)"

lemma fresh_update:
  "fresh_entries re rd \<Longrightarrow> window re d \<Longrightarrow>
     fresh_entries re (rd\<lparr>rd_calls := m, rd_data := (rd_data rd)(k \<mapsto> (v, rd_now re n + d))\<rparr>)"
  "fresh_entries re rd \<Longrightarrow> fresh_entries re (rd\<lparr>rd_calls := m, rd_data := (rd_data rd)(k := None)\<rparr>)"
  "fresh_entries re rd \<Longrightarrow> fresh_entries re (rd\<lparr>rd_calls := m\<rparr>)"
  by (auto simp: fresh_entries_def window_def split: if_splits)

lemma mw_step_fresh:
  assumes "mw_step enc re st serve r ph rd s = (ph', rd', s')" and "outlives re st" "fresh_entries re rd"
  shows "fresh_entries re rd'"
proof -
  have win: "window re lock_ttl" "window re (is_ttl st)" using assms(2) by (simp_all add: outlives_def)
  show ?thesis
    using assms(1) fresh_update [OF assms(3)] win assms(3)
    by (cases ph) (auto simp: store_defs Unlock_def split: prod.splits reply.splits option.splits if_splits sum.splits)
qed

lemma fresh_alive: "fresh_entries re rd \<Longrightarrow> locks_alive re key ph rd"
  by (auto simp: fresh_entries_def locks_alive_def)

lemma sample_outlives [simp]: "outlives sample_redis NewIdempotencyStore"
  by (simp add: outlives_def)

lemma fresh_empty [simp]: "fresh_entries re empty_redis"
  by (simp add: fresh_entries_def empty_redis_def)

definition conc_inv :: "(nat \<Rightarrow> http_request) \<Rightarrow> 's conc \<Rightarrow> bool" where
  "conc_inv reqs c \<longleftrightarrow> exclusive_locks (\<lambda>i. request_key (reqs i)) (cn_phase c) (cn_redis c)"

fun timely_schedule ::
  "json_text \<Rightarrow> redis_env \<Rightarrow> IdempotencyStore \<Rightarrow> 's handler \<Rightarrow> (nat \<Rightarrow> http_request) \<Rightarrow> nat list \<Rightarrow> 's conc \<Rightarrow> bool" where
  "timely_schedule enc re st serve reqs [] c = True"
| "timely_schedule enc re st serve reqs (i # is) c \<longleftrightarrow>
     locks_alive re (\<lambda>i. request_key (reqs i)) (cn_phase c) (cn_redis c)
     \<and> timely_schedule enc re st serve reqs is (conc_turn enc re st serve reqs i c)"

lemma conc_inv_turn:
  assumes "conc_inv reqs c" "redis_quiet re" "locks_alive re (\<lambda>i. request_key (reqs i)) (cn_phase c) (cn_redis c)"
  shows "conc_inv reqs (conc_turn enc re st serve reqs i c)"
proof -
  obtain ph rd s where step: "mw_step enc re st serve (reqs i) (cn_phase c i) (cn_redis c) (cn_state c) = (ph, rd, s)"
    by (cases "mw_step enc re st serve (reqs i) (cn_phase c i) (cn_redis c) (cn_state c)")
  have "no_error_seen (cn_phase c i)" using assms(1) by (simp add: conc_inv_def exclusive_locks_def)
  from mw_step_effect [OF step assms(2) this] exclusive_locks_step [OF assms(1) [unfolded conc_inv_def] assms(3), of ph i rd]
  show ?thesis by (simp add: conc_turn_def step conc_inv_def)
qed

lemma conc_inv_start: "conc_inv reqs (conc_start reqs rd s)"
  by (simp add: conc_inv_def exclusive_locks_def conc_start_def mw_start_def no_error_seen_def holding_def)

lemma conc_inv_schedule:
  "conc_inv reqs c \<Longrightarrow> redis_quiet re \<Longrightarrow> timely_schedule enc re st serve reqs is c \<Longrightarrow>
     conc_inv reqs (run_schedule enc re st serve reqs is c)"
  by (induction "is" arbitrary: c) (simp_all add: conc_inv_turn)

text \<open>Mutual exclusion: in every interleaving of any number of requests in which no lock expires while it is
  held, at most one of the requests with one key is between taking its lock and giving it back, so two
  requests with one key never run the handler at the same time. Redis has to answer.\<close>

lemma same_key_exclusive:
  assumes "redis_quiet re" "timely_schedule enc re st serve reqs is (conc_start reqs rd s)"
    and "c = run_schedule enc re st serve reqs is (conc_start reqs rd s)"
    and "holding (cn_phase c i)" "holding (cn_phase c j)" "request_key (reqs i) = request_key (reqs j)"
  shows "i = j"
  using conc_inv_schedule [OF conc_inv_start assms(1,2)] assms(3-6) by (simp add: conc_inv_def exclusive_locks_def)

text \<open>C28. Two requests with one key may both run the handler, one after the other: the second has found
  no stored response before the first one took the lock, and takes the lock after the first one gave
  it back. The handler has then run twice for one key, and both clients see a first answer.\<close>

theorem same_key_served_twice:
  "\<exists>c. conc_reach sample_text sample_redis NewIdempotencyStore count_serve (\<lambda>_. post_with ''a'') empty_redis 0 c
     \<and> cn_state c = 2"
proof (intro exI conjI)
  let ?c = "run_schedule sample_text sample_redis NewIdempotencyStore count_serve (\<lambda>_. post_with ''a'')
       [1, 0, 0, 0, 0, 0, 0, 1, 1] (conc_start (\<lambda>_. post_with ''a'') empty_redis 0)"
  show "conc_reach sample_text sample_redis NewIdempotencyStore count_serve (\<lambda>_. post_with ''a'') empty_redis 0 ?c"
    by (rule run_schedule_reach [OF conc_reach.start])
  show "cn_state ?c = 2" by code_simp
qed

subsection \<open>Every request is answered\<close>

text \<open>How many steps a request has left at most.\<close>

fun steps_left :: "phase \<Rightarrow> nat" where
  "steps_left Passing = 1"
| "steps_left Checking = 7"
| "steps_left (ReadingStatus cached) = 1"
| "steps_left Locking = 6"
| "steps_left Serving = 5"
| "steps_left (StoringBody resp) = 4"
| "steps_left (StoringStatus resp e1) = 3"
| "steps_left (Releasing resp e12) = 2"
| "steps_left (Unlocking resp) = 1"
| "steps_left (Done rep) = 0"

lemma mw_step_left:
  "mw_step enc re st serve r ph rd s = (ph', rd', s') \<Longrightarrow> steps_left ph' \<le> steps_left ph - 1"
  by (cases ph) (auto split: prod.splits sum.splits option.splits bool.splits reply.splits)

lemma conc_turn_left:
  "steps_left (cn_phase (conc_turn enc re st serve reqs j c) i) \<le> steps_left (cn_phase c i) - (if j = i then 1 else 0)"
  by (auto simp: conc_turn_def dest: mw_step_left split: prod.splits)

lemma run_schedule_left:
  "steps_left (cn_phase (run_schedule enc re st serve reqs is c) i) \<le> steps_left (cn_phase c i) - count_list is i"
proof (induction "is" arbitrary: c)
  case (Cons j js)
  let ?c = "conc_turn enc re st serve reqs j c"
  have "steps_left (cn_phase (run_schedule enc re st serve reqs js ?c) i) \<le> steps_left (cn_phase ?c i) - count_list js i"
    by (rule Cons.IH)
  with conc_turn_left [of enc re st serve reqs j c i] show ?case by (auto split: if_splits)
qed simp

lemma steps_left_0: "steps_left ph = 0 \<longleftrightarrow> (\<exists>rep. ph = Done rep)"
  by (cases ph) auto

text \<open>C29. No request waits for another: in any interleaving, with any failures of Redis, a request that has
  got seven turns has been answered.\<close>

theorem requests_finish:
  assumes "7 \<le> count_list is i"
  shows "\<exists>rep. cn_phase (run_schedule enc re st serve reqs is (conc_start reqs rd s)) i = Done rep"
proof -
  have "steps_left (cn_phase (conc_start reqs rd s) i) \<le> 7" by (simp add: conc_start_def mw_start_def)
  with run_schedule_left [of enc re st serve reqs "is" "conc_start reqs rd s" i] assms
  have "steps_left (cn_phase (run_schedule enc re st serve reqs is (conc_start reqs rd s)) i) = 0" by simp
  then show ?thesis by (simp add: steps_left_0)
qed

theorem requests_finish_witness:
  "\<exists>rep. cn_phase (run_schedule sample_text sample_redis NewIdempotencyStore count_serve (\<lambda>i. post_with ''a'')
     [0, 1, 0, 0, 0, 1, 0, 0, 0] (conc_start (\<lambda>i. post_with ''a'') empty_redis 0)) 0 = Done rep"
  by (rule requests_finish) simp

end
