(* ===== verification/Event_Replay.thy ===== *)
theory Event_Replay
  imports Read_Write_Agreement
begin

section \<open>Replaying the event store\<close>

text \<open>
  The event log as the source of truth: a reference replay of the rows of the event table, which reads the
  stored payloads, and the proof that it gives the balances of the write model. The locale \<open>journalled\<close>
  states what a service must keep of its journal; the service as main wires it is an instance.
\<close>

subsection \<open>JSON up to the order of keys\<close>

fun json_field :: "string \<Rightarrow> json \<Rightarrow> json option" where
  "json_field k (JObject kvs) = map_of kvs k"
| "json_field k _ = None"

text \<open>A JSONB column keeps values and drops the order of keys; here two values are the same up to that order.\<close>

inductive same_json :: "json \<Rightarrow> json \<Rightarrow> bool" where
  string: "same_json (JString s) (JString s)"
| int: "same_json (JInt n) (JInt n)"
| array: "list_all2 same_json xs ys \<Longrightarrow> same_json (JArray xs) (JArray ys)"
| object: "(\<And>k. rel_option same_json (map_of kvs k) (map_of kws k)) \<Longrightarrow> same_json (JObject kvs) (JObject kws)"
  monos list.rel_mono option.rel_mono

inductive_simps same_json_simps [simp]:
  "same_json (JString s) y" "same_json (JInt n) y" "same_json (JArray xs) y" "same_json (JObject kvs) y"

fun distinct_keys :: "json \<Rightarrow> bool" where
  "distinct_keys (JObject kvs) \<longleftrightarrow> distinct (map fst kvs) \<and> (\<forall>v\<in>set (map snd kvs). distinct_keys v)"
| "distinct_keys (JArray xs) \<longleftrightarrow> (\<forall>x\<in>set xs. distinct_keys x)"
| "distinct_keys _ \<longleftrightarrow> True"

text \<open>The documented behaviour of the column type, for values without duplicate keys.\<close>

definition jsonb_faithful :: "pg_env \<Rightarrow> bool" where
  "jsonb_faithful pe \<longleftrightarrow> (\<forall>j. distinct_keys j \<longrightarrow> same_json j (pg_jsonb pe j))"

lemma same_json_refl [simp]: "same_json j j"
proof (induction j)
  case (JObject kvs)
  have "rel_option same_json (map_of kvs k) (map_of kvs k)" for k
  proof (cases "map_of kvs k")
    case (Some v)
    then have "(k, v) \<in> set kvs" by (rule map_of_SomeD)
    then have "same_json v v" using JObject.IH [of "(k, v)" v] by simp
    with Some show ?thesis by simp
  qed simp
  then show ?case by simp
qed (simp_all add: list_all2_same)

subsection \<open>Replay\<close>

text \<open>The balance of every account according to the rows of the event table, read from their payloads: a credit
  adds, a debit subtracts, and other kinds of entries and events do nothing.\<close>

fun as_text :: "json option \<Rightarrow> string option" where
  "as_text (Some (JString s)) = Some s"
| "as_text _ = None"

fun as_number :: "json option \<Rightarrow> int" where
  "as_number (Some (JInt n)) = n"
| "as_number _ = 0"

fun as_list :: "json option \<Rightarrow> json list" where
  "as_list (Some (JArray xs)) = xs"
| "as_list _ = []"

definition entry_effect :: "json \<Rightarrow> string \<Rightarrow> int64" where
  "entry_effect x k =
     (let n = of_int (as_number (json_field ''amount'' x)) in
      if as_text (json_field ''account_id'' x) \<noteq> Some k then 0
      else if as_text (json_field ''type'' x) = Some ''DEBIT'' then - n
      else if as_text (json_field ''type'' x) = Some ''CREDIT'' then n else 0)"

definition apply_event :: "(string \<Rightarrow> int64) \<Rightarrow> event_row \<Rightarrow> string \<Rightarrow> int64" where
  "apply_event b r k =
     (if ev_event_type r = EventType_string EventTransactionRecorded
      then b k + sum_list (map (\<lambda>x. entry_effect x k) (as_list (json_field ''entries'' (ev_payload r)))) else b k)"

definition replay_events :: "event_row list \<Rightarrow> string \<Rightarrow> int64" where
  "replay_events rows = foldl apply_event (\<lambda>_. 0) rows"

lemma same_json_field:
  "same_json x y \<Longrightarrow> rel_option same_json (json_field k x) (json_field k y)"
  by (cases x) auto

lemma same_json_parts:
  assumes "rel_option same_json a b"
  shows "as_text a = as_text b" "as_number a = as_number b" "list_all2 same_json (as_list a) (as_list b)"
  using assms by (cases; (cases "the a")?; auto)+

lemma entry_effect_same: "same_json x y \<Longrightarrow> entry_effect x = entry_effect y"
proof -
  assume "same_json x y"
  note parts = same_json_parts(1,2) [OF same_json_field [OF this]]
  show ?thesis by (rule ext) (simp only: entry_effect_def parts)
qed

lemma entries_effect_same:
  "list_all2 same_json xs ys \<Longrightarrow> map (\<lambda>x. entry_effect x k) xs = map (\<lambda>x. entry_effect x k) ys"
  by (induction rule: list_all2_induct) (auto dest: entry_effect_same)

lemma effect_entry_data:
  assumes "uuid_codec e"
  shows "entry_effect (EntryEventData_json (entry_data e x)) (AccountID_String e i)
    = (if e_accountID x = i then param_delta (params_of x) else 0)"
proof -
  have "AccountID_String e (e_accountID x) = AccountID_String e i \<longleftrightarrow> e_accountID x = i"
    using account_id.print_inject [of e] assms by blast
  moreover have "EntryType_string (e_entryType x) = ''DEBIT'' \<longleftrightarrow> e_entryType x = Debit"
    "EntryType_string (e_entryType x) = ''CREDIT'' \<longleftrightarrow> e_entryType x = Credit"
    by (cases "e_entryType x"; simp add: Debit_def Credit_def)+
  ultimately show ?thesis
    by (auto simp: entry_effect_def EntryEventData_json_def entry_data_def Let_def param_delta_def params_of_def signed_leg_def)
qed

lemma effects_posted:
  "uuid_codec e \<Longrightarrow> sum_list (map (\<lambda>x. entry_effect x (AccountID_String e i)) (map EntryEventData_json (map (entry_data e) xs)))
     = posted (map params_of xs) i"
  by (induction xs) (simp_all add: effect_entry_data, simp add: params_of_def)

lemma marshal_keys: "json_Marshal e ev = Inr p \<Longrightarrow> distinct_keys p"
  by (cases ev) (auto simp: EntryEventData_json_def split: option.splits)

lemma event_row_of:
  assumes "row_body row = x" shows "ev_event_type row = ev_event_type x" "ev_payload row = ev_payload x"
  using assms by (auto simp: row_body_def)

lemma appended_row:
  assumes "appendEvent e (prod_service e pe) aid ty n ev w = (r, w')"
  obtains "db_events (pw_db w') = db_events (pw_db w)" "\<And>u. r \<noteq> Inr u"
  | p row where "json_Marshal e ev = Inr p" "db_events (pw_db w') = db_events (pw_db w) @ [row]"
      "ev_event_type row = EventType_string (DomainEvent_EventType ev)" "ev_payload row = pg_jsonb pe p"
proof (cases "json_Marshal e ev")
  case (Inl err)
  with assms that(1) show ?thesis by (auto simp: appendEvent_def)
next
  case (Inr p)
  let ?se = "\<lparr>se_ID = '''', se_AggregateID = '''', se_AggregateType = '''', se_EventType = DomainEvent_EventType ev,
    se_Version = 0, se_Payload = p, se_OccurredAt = DomainEvent_OccurredAt ev\<rparr>"
  from assms Inr have app: "AppendWithOutbox pe aid ty n [?se] (pw_db w) = (r, pw_db w')"
    by (auto simp: appendEvent_def Let_def prod_outbox_port_def on_part_eq_iff)
  show ?thesis
  proof (cases r)
    case (Inl err)
    with AppendWithOutbox_result [OF app] that(1) show ?thesis by (auto simp: frame_simps)
  next
    case (Inr u)
    with AppendWithOutbox_result [OF app] obtain news where
      news: "db_events (pw_db w') = db_events (pw_db w) @ news" "map row_body news = stream_rows pe aid ty n 0 [?se]" by auto
    then obtain row where "news = [row]" "[row_body row] = stream_rows pe aid ty n 0 [?se]" by (auto simp: map_eq_Cons_conv)
    with that(2) [OF \<open>json_Marshal e ev = Inr p\<close>, of row] news(1) event_row_of [of row] show ?thesis by simp
  qed
qed

lemma opened_replay:
  assumes "appendEvent e (prod_service e pe) aid ty n (AccountOpened ao) w = (r, w')"
  shows "replay_events (db_events (pw_db w')) = replay_events (db_events (pw_db w))"
  using assms
  by (cases rule: appended_row)
    (simp_all add: replay_events_def apply_event_def fun_eq_iff EventAccountOpened_def EventTransactionRecorded_def)

lemma recorded_replay:
  assumes "appendEvent e (prod_service e pe) aid ty n (TransactionRecorded tr) w = (Inr u, w')"
    and "tr_Entries tr = map (entry_data e) xs" "jsonb_faithful pe" "uuid_codec e"
  shows "replay_events (db_events (pw_db w')) (AccountID_String e i)
    = replay_events (db_events (pw_db w)) (AccountID_String e i) + posted (map params_of xs) i"
  using assms(1)
proof (cases rule: appended_row)
  case (2 p row)
  have "same_json p (pg_jsonb pe p)" using assms(3) marshal_keys [OF 2(1)] by (simp add: jsonb_faithful_def)
  from entries_effect_same [OF same_json_parts(3) [OF same_json_field [OF this]]]
  have effects: "map (\<lambda>x. entry_effect x k) (as_list (json_field ''entries'' (ev_payload row)))
      = map (\<lambda>x. entry_effect x k) (as_list (json_field ''entries'' p))" for k by (simp add: 2(4))
  have "as_list (json_field ''entries'' p) = map EntryEventData_json (map (entry_data e) xs)"
    using 2(1) assms(2) by (auto split: option.splits)
  with effects_posted [OF assms(4), of i xs] effects 2(2,3) show ?thesis
    by (simp add: replay_events_def apply_event_def)
qed simp


subsection \<open>A journal\<close>

lemma posted_unknown: "list_all (postable v) ps \<Longrightarrow> v i = None \<Longrightarrow> posted ps i = 0"
  by (induction ps) (auto simp: postable_def)

text \<open>A service that keeps a journal: only the event of a recorded transaction changes what the journal says of
  the balances, by the entries of the transaction.\<close>

locale journalled = ledger_ports svc view invar stored
  for svc :: "'w LedgerService" and view :: "'w \<Rightarrow> AccountID \<rightharpoonup> Account"
    and invar :: "'w \<Rightarrow> bool" and stored :: "Account \<Rightarrow> Account" +
  fixes e :: env and lossless :: bool and journal :: "'w \<Rightarrow> AccountID \<Rightarrow> int64"
  assumes jr_save: "acc_Save (ls_accounts svc) a w = (r, w') \<Longrightarrow> journal w' = journal w"
    and jr_find: "acc_FindByID (ls_accounts svc) i w = (q, w') \<Longrightarrow> journal w' = journal w"
    and jr_all: "acc_FindAll (ls_accounts svc) w = (rs, w') \<Longrightarrow> journal w' = journal w"
    and jr_tx: "txr_Save (ls_transactions svc) t w = (r, w') \<Longrightarrow> journal w' = journal w"
    and jr_project: "ls_projector svc = Some p \<Longrightarrow> pj_ProjectAccountOpened p ao w = (r, w') \<Longrightarrow> journal w' = journal w"
      "ls_projector svc = Some p \<Longrightarrow> pj_ProjectTransactionRecorded p tr w = (r, w') \<Longrightarrow> journal w' = journal w"
    and jr_opened: "appendEvent e svc aid ty n (AccountOpened ao) w = (r, w') \<Longrightarrow> journal w' = journal w"
    and jr_recorded: "lossless \<Longrightarrow> invar w \<Longrightarrow> appendEvent e svc aid ty n (TransactionRecorded tr) w = (Inr u, w') \<Longrightarrow>
      tr_Entries tr = map (entry_data e) xs \<Longrightarrow> journal w' i = journal w i + posted (map params_of xs) i"
begin

definition accounted :: "'w \<Rightarrow> bool" where
  "accounted w \<longleftrightarrow> (\<forall>i. journal w i = (case view w i of None \<Rightarrow> 0 | Some a \<Rightarrow> funds a))"

lemma update_journal: "update_balances e svc xs g w = (r, g', w') \<Longrightarrow> journal w' = journal w"
  by (induction xs arbitrary: g w) (fastforce dest: jr_save jr_find split: prod.splits sum.splits)+

lemma projected_journal:
  "journal (projected svc (\<lambda>p w. snd (pj_ProjectAccountOpened p ao w)) w) = journal w"
  "journal (projected svc (\<lambda>p w. snd (pj_ProjectTransactionRecorded p tr w)) w) = journal w"
  using jr_project by (auto simp: projected_def prod_eq_iff split: option.splits)

lemma open_journal: "OpenAccount e svc cmd g w = (r, g', w') \<Longrightarrow> journal w' = journal w"
  using projected_journal(1)
  by (auto simp: OpenAccount_def projected_def Let_def dest!: jr_save jr_opened
      split: sum.splits prod.splits option.splits)

lemma record_journal:
  assumes lossless "invar w" "RecordTransaction e svc cmd g w = (Inr tx, g', w')"
  shows "journal w' i = journal w i + posted (map params_of (tx_entries tx)) i"
proof -
  from assms(3) obtain g1 g2 u w1 u2 w2 u3 w3 ev where
    upd: "update_balances e svc (tx_entries tx) g1 w = (Inr u, g2, w1)"
    and save: "txr_Save (ls_transactions svc) tx w1 = (Inr u2, w2)"
    and app: "appendEvent e svc (TransactionID_String e (tx_id tx)) ''transaction'' 0 (TransactionRecorded ev) w2 = (Inr u3, w3)"
    and ev: "tr_Entries ev = map (entry_data e) (tx_entries tx)"
    and w': "w' = projected svc (\<lambda>p w. snd (pj_ProjectTransactionRecorded p ev w)) w3"
    by (rule record_calls)
  from update_balances_spec [OF assms(2) upd] have "invar w1" by blast
  with tx_frame [OF this save] have inv: "invar w2" by blast
  from jr_recorded [OF assms(1) inv app ev] show ?thesis
    by (simp add: w' projected_journal update_journal [OF upd] jr_tx [OF save])
qed

lemma accounted_cong: "journal w' = journal w \<Longrightarrow> view w' = view w \<Longrightarrow> accounted w \<Longrightarrow> accounted w'"
  by (simp add: accounted_def)

lemma accounted_open:
  assumes "invar w" "view w (AccountID (uuid_seq e (drawn g))) = None" "accounted w" "OpenAccount e svc cmd g w = (r, g', w')"
  shows "accounted w'"
proof -
  have "opened (view w) (view w')" by (rule open_view_opened [OF assms(1,2,4)])
  then have "(case view w' i of None \<Rightarrow> 0 | Some a \<Rightarrow> funds a) = (case view w i of None \<Rightarrow> 0 | Some a \<Rightarrow> funds a)" for i
    by (cases "view w i") (auto simp: opened_def split: option.splits)
  with open_journal [OF assms(4)] assms(3) show ?thesis by (simp add: accounted_def)
qed

lemma accounted_record:
  assumes lossless "invar w" "accounted w" "RecordTransaction e svc cmd g w = (Inr tx, g', w')"
  shows "accounted w'"
  unfolding accounted_def
proof
  fix i
  from record_outcome [OF assms(2,4)] have moved: "moved (view w) (posted (map params_of (tx_entries tx))) (view w')"
    and post: "list_all (postable (view w)) (map params_of (tx_entries tx))" by auto
  note journal = record_journal [OF assms(1,2,4), of i]
  show "journal w' i = (case view w' i of None \<Rightarrow> 0 | Some a \<Rightarrow> funds a)"
  proof (cases "view w i")
    case None
    then have "view w' i = None" using moved by (auto simp: moved_def)
    moreover have "posted (map params_of (tx_entries tx)) i = 0"
      using post None by (rule posted_unknown)
    ultimately show ?thesis using journal assms(3) None by (simp add: accounted_def)
  next
    case (Some a)
    from moved Some obtain b where "view w' i = Some b" "funds b = funds a + posted (map params_of (tx_entries tx)) i"
      by (rule moved_SomeD)
    with journal assms(3) Some show ?thesis by (simp add: accounted_def)
  qed
qed

end

sublocale journalled \<subseteq> accounts: kept_by_runs svc view invar stored e "\<lambda>w. lossless \<longrightarrow> accounted w"
proof
  show "lossless \<longrightarrow> accounted w'" if "invar w" "lossless \<longrightarrow> accounted w" "acc_FindAll (ls_accounts svc) w = (rs, w')" for w rs w'
    using accounted_cong [OF jr_all [OF that(3)] conjunct2 [OF all_frame [OF that(1,3)]]] that(2) by blast
  show "lossless \<longrightarrow> accounted w'" if "invar w" "lossless \<longrightarrow> accounted w" "acc_FindByID (ls_accounts svc) i w = (rf, w')" for w i rf w'
    using accounted_cong [OF jr_find [OF that(3)] conjunct2 [OF find_frame [OF that(1,3)]]] that(2) by blast
qed (use accounted_open accounted_record in blast)+

subsection \<open>The production wiring keeps a journal\<close>

definition event_journal :: "env \<Rightarrow> prod_world \<Rightarrow> AccountID \<Rightarrow> int64" where
  "event_journal e w i = replay_events (db_events (pw_db w)) (AccountID_String e i)"

lemma event_journal_frame: "db_events (pw_db w') = db_events (pw_db w) \<Longrightarrow> event_journal e w' = event_journal e w"
  by (simp add: event_journal_def fun_eq_iff)

lemma account_events_frame:
  "pg_acc_Save e pe a db = (r, db') \<Longrightarrow> db_events db' = db_events db"
  "pg_acc_FindByID e pe i db = (q, db') \<Longrightarrow> db_events db' = db_events db"
  "pg_acc_FindAll e pe db = (rs, db') \<Longrightarrow> db_events db' = db_events db"
  by (auto simp: pg_acc_Save_def pg_acc_FindByID_def pg_acc_FindAll_def pg_call_def split: option.splits sum.splits)

lemma projector_events:
  "ProjectAccountOpened pe ao db = (r, db') \<Longrightarrow> db_events db' = db_events db"
  "ProjectTransactionRecorded pe tr db = (q, db') \<Longrightarrow> db_events db' = db_events db"
  by (auto simp: ProjectAccountOpened_def pg_call_def frame_simps dest!: ProjectTransactionRecorded_result
      split: option.splits if_splits sum.splits)

interpretation prod_journal:
  journalled "prod_service e pe" "prod_view e" "prod_inv e pe" "pg_stored pe" e "jsonb_faithful pe" "event_journal e" for e pe
proof (intro journalled.intro prod_ledger.ledger_ports_axioms journalled_axioms.intro)
  show "event_journal e w' i = event_journal e w i + posted (map params_of xs) i"
    if "jsonb_faithful pe" "prod_inv e pe w"
      "appendEvent e (prod_service e pe) aid ty n (TransactionRecorded tr) w = (Inr u, w')"
      "tr_Entries tr = map (entry_data e) xs" for w aid ty n tr u w' xs i
    using recorded_replay [OF that(3,4,1)] that(2) by (simp add: event_journal_def prod_inv_def pg_accounts_inv_def)
  show "event_journal e w' = event_journal e w"
    if "appendEvent e (prod_service e pe) aid ty n (AccountOpened ao) w = (r, w')" for aid ty n ao w r w'
    using opened_replay [OF that] by (simp add: event_journal_def fun_eq_iff)
qed (auto simp: lift_accounts_def pg_account_port_def prod_transaction_port_def prod_projector_port_def on_part_eq_iff
    intro!: event_journal_frame dest: account_events_frame,
    (erule projector_events)+)

definition empty_prod :: prod_world where
  "empty_prod = \<lparr>pw_db = empty_db, pw_transactions = NewTransactionRepository\<rparr>"

lemma empty_prod_ok:
  assumes "uuid_codec e" "pg_laws pe"
  shows "prod_inv e pe empty_prod" "prod_view e empty_prod = Map.empty"
  using assms by (simp_all add: prod_inv_def prod_view_def pg_accounts_inv_def pg_accounts_view_def empty_prod_def empty_db_def fun_eq_iff)

text \<open>C12. Event replay produces the same state as direct computation: on the service as main wires it, after any
  sequence of opened accounts and reads (also ones that fail), commands refused as invalid, and
  transactions, deposits and transfers that return no error, replaying the event table from nothing
  gives for every account exactly the balance in the accounts table, and 0 for an identifier without
  an account. The JSONB column keeps the content of a document. A command that fails after it was
  validated is not in such a sequence: its legs may be posted without an event.\<close>

theorem replay_gives_balances:
  assumes "ledger_run e (prod_service e pe) g0 empty_prod g w"
    and "jsonb_faithful pe" "uuid_codec e" "pg_laws pe" "uuid_unique e N" "drawn g < N"
  shows "replay_events (db_events (pw_db w)) (AccountID_String e i) = (case prod_view e w i of None \<Rightarrow> 0 | Some a \<Rightarrow> funds a)"
proof -
  note empty = empty_prod_ok [OF assms(3,4)]
  have "prod_journal.accounted e empty_prod"
    using empty(2) by (simp add: prod_journal.accounted_def event_journal_def replay_events_def) (simp add: empty_prod_def empty_db_def)
  moreover have "ids_drawn e g0 (prod_view e empty_prod)" by (simp add: empty ids_drawn_def)
  ultimately have "prod_journal.accounted e w"
    using prod_journal.accounts.run_kept [OF assms(1) empty(1) _ _ assms(5,6)] assms(2) by blast
  then show ?thesis by (simp add: prod_journal.accounted_def event_journal_def)
qed

theorem replay_gives_balances_witness:
  "case OpenAccount sample_env (prod_service sample_env sample_pg)
       \<lparr>oc_Name = ''Cash'', oc_AccountType = ''ASSET'', oc_Currency = USD\<rparr> sample_gen empty_prod of
     (Inl err, g1, w1) \<Rightarrow> False
   | (Inr a, g1, w1) \<Rightarrow>
       (case Deposit sample_env (prod_service sample_env sample_pg) (a_id a) 10 USD ''cash'' g1 w1 of
          (Inl err, g2, w2) \<Rightarrow> False
        | (Inr _, g2, w2) \<Rightarrow> replay_events (db_events (pw_db w2)) (AccountID_String sample_env (a_id a)) = 10)"
proof -
  let ?s = "prod_service sample_env sample_pg" and ?cmd = "\<lparr>oc_Name = ''Cash'', oc_AccountType = ''ASSET'', oc_Currency = USD\<rparr>"
  have run: "case OpenAccount sample_env ?s ?cmd sample_gen empty_prod of (Inl err, g1, w1) \<Rightarrow> False
    | (Inr a, g1, w1) \<Rightarrow> (case Deposit sample_env ?s (a_id a) 10 USD ''cash'' g1 w1 of (Inl err, g2, w2) \<Rightarrow> False
      | (Inr _, g2, w2) \<Rightarrow> int (drawn g2) < 1000 \<and> map_option funds (prod_view sample_env w2 (a_id a)) = Some 10)"
    by code_simp
  then obtain a g1 w1 where op: "OpenAccount sample_env ?s ?cmd sample_gen empty_prod = (Inr a, g1, w1)"
    by (auto split: prod.splits sum.splits)
  with run obtain u g2 w2 where dep: "Deposit sample_env ?s (a_id a) 10 USD ''cash'' g1 w1 = (Inr u, g2, w2)"
    and few: "drawn g2 < 1000" and ten: "map_option funds (prod_view sample_env w2 (a_id a)) = Some 10"
    by (auto split: prod.splits sum.splits)
  have "ledger_run sample_env ?s sample_gen empty_prod g2 w2"
    by (rule ledger_run.deposited [OF ledger_run.opened [OF ledger_run.start op] dep])
  moreover have "jsonb_faithful sample_pg" by (simp add: jsonb_faithful_def sample_pg_def)
  ultimately have "replay_events (db_events (pw_db w2)) (AccountID_String sample_env (a_id a))
      = (case prod_view sample_env w2 (a_id a) of None \<Rightarrow> 0 | Some a \<Rightarrow> funds a)"
    by (rule replay_gives_balances [OF _ _ sample_env_codec sample_pg_laws sample_env_unique few])
  with op dep ten show ?thesis by auto
qed

subsection \<open>Commands that fail\<close>







end
