(* ===== verification/Program_Main.thy ===== *)
theory Program_Main
  imports Read_Write_Agreement Http_Interleaving Outbox_Worker Idempotency_Concurrency Event_Replay
begin

section \<open>The program (cmd/api/main.go)\<close>

text \<open>
  What main puts together: the handlers and the router over the production service, with the
  idempotency store, the health checker and the outbox worker. The properties here follow one
  request through several components.
\<close>

definition prod_handler :: "env \<Rightarrow> pg_env \<Rightarrow> prod_world Handler" where
  "prod_handler e pe =
     NewHandler (prod_service e pe) (NewTransferService (prod_service e pe)) (prod_query_port pe)"

definition prod_health ::
  "env \<Rightarrow> web_env \<Rightarrow> (int \<Rightarrow> string) \<Rightarrow> time \<Rightarrow> pg_env \<Rightarrow> redis_env \<Rightarrow> gen \<times> prod_world \<Rightarrow> redis_db \<Rightarrow>
   reply \<times> (gen \<times> prod_world) \<times> redis_db" where
  "prod_health e we dur startTime pe re s rd =
     (case HealthChecker_Handler e (we_text we) dur startTime pe re (fst s) (pw_db (snd s)) rd of
        (rep, g1, db1, rd1) \<Rightarrow> (rep, (g1, put_db db1 (snd s)), rd1))"

definition prod_deps ::
  "env \<Rightarrow> web_env \<Rightarrow> (int \<Rightarrow> string) \<Rightarrow> time \<Rightarrow> pg_env \<Rightarrow> redis_env \<Rightarrow> prod_world RouterDeps" where
  "prod_deps e we dur startTime pe re =
     \<lparr>dp_Handler = prod_handler e pe, dp_IdempotencyStore = Some NewIdempotencyStore,
      dp_Health = prod_health e we dur startTime pe re\<rparr>"

definition prod_router ::
  "env \<Rightarrow> web_env \<Rightarrow> (int \<Rightarrow> string) \<Rightarrow> time \<Rightarrow> pg_env \<Rightarrow> redis_env \<Rightarrow> (gen \<times> prod_world) handler \<Rightarrow>
   http_request \<Rightarrow> redis_db \<Rightarrow> gen \<times> prod_world \<Rightarrow> http_response \<times> redis_db \<times> gen \<times> prod_world" where
  "prod_router e we dur startTime pe re other r rd s =
     NewRouter e we re other (prod_deps e we dur startTime pe re) r rd s"

text \<open>The same as a process that makes one access at a time, with what the program gets from outside: the packages
  it uses, the two servers, the files it serves and the route patterns.\<close>

record platform =
  pf_env :: env
  pf_web :: web_env
  pf_pg :: pg_env
  pf_redis :: redis_env
  pf_dur :: "int \<Rightarrow> string"
  pf_startTime :: time
  pf_static :: "http_request \<Rightarrow> reply"
  pf_pattern :: "http_request \<Rightarrow> string"

abbreviation pf_service :: "platform \<Rightarrow> prod_world LedgerService" where
  "pf_service x \<equiv> prod_service (pf_env x) (pf_pg x)"

definition pf_deps :: "platform \<Rightarrow> prod_world RouterDeps" where
  "pf_deps x = prod_deps (pf_env x) (pf_web x) (pf_dur x) (pf_startTime x) (pf_pg x) (pf_redis x)"

definition prod_request :: "platform \<Rightarrow> http_request \<Rightarrow> (web_state \<times> prod_world, http_response) proc" where
  "prod_request x r = request_proc (pf_env x) (pf_web x) (pf_redis x) (pf_static x) (pf_pattern x) (pf_deps x) r"

lemma pf_deps_simps [simp]:
  "h_svc (dp_Handler (pf_deps x)) = pf_service x"
  "h_transferSvc (dp_Handler (pf_deps x)) = NewTransferService (pf_service x)"
  "h_queries (dp_Handler (pf_deps x)) = prod_query_port (pf_pg x)"
  "dp_IdempotencyStore (pf_deps x) = Some NewIdempotencyStore"
  "dp_Health (pf_deps x) = prod_health (pf_env x) (pf_web x) (pf_dur x) (pf_startTime x) (pf_pg x) (pf_redis x)"
  by (simp_all add: pf_deps_def prod_deps_def prod_handler_def NewHandler_def)

definition prod_worker :: "log_line list OutboxWorker" where
  "prod_worker = NewOutboxWorker LogPublisher"

subsection \<open>From a request to the two models\<close>

lemma entry_cmds_types:
  "entry_cmds e ers = Some ecs \<Longrightarrow> map (EntryType_string \<circ> ec_Type) ecs = map er_Type ers"
  by (induction ers arbitrary: ecs) (auto split: sum.splits option.splits)

lemma entry_types:
  assumes "entry_cmds e ers = Some ecs" "\<forall>er\<in>set ers. er_Type er \<in> {''DEBIT'', ''CREDIT''}"
    and "map params_of (tx_entries tx) = cmd_legs \<lparr>rc_Entries = ecs, rc_Description = d\<rparr>"
  shows "\<forall>x\<in>set (tx_entries tx). e_entryType x \<in> {Debit, Credit}"
proof
  fix x assume x: "x \<in> set (tx_entries tx)"
  have "map e_entryType (tx_entries tx) = map ec_Type ecs"
    using arg_cong [OF assms(3), of "map ep_Type"] by (simp add: params_of_def cmd_legs_def comp_def)
  then have "e_entryType x \<in> set (map ec_Type ecs)" using x by (metis image_eqI list.set_map)
  then obtain ec where ec: "ec \<in> set ecs" "e_entryType x = ec_Type ec" by auto
  from entry_cmds_types [OF assms(1)] ec(1) have "EntryType_string (ec_Type ec) \<in> set (map er_Type ers)"
    by (metis comp_apply image_eqI list.set_map)
  with assms(2) have "EntryType_string (ec_Type ec) \<in> {''DEBIT'', ''CREDIT''}" by auto
  then show "e_entryType x \<in> {Debit, Credit}"
    unfolding ec(2) Debit_def Credit_def by (cases "ec_Type ec") auto
qed

lemma entry_cmds_amounts:
  "entry_cmds e ers = Some ecs \<Longrightarrow> map (\<lambda>ec. sint (ec_Amount ec)) ecs = map (\<lambda>er. sint (er_Amount er)) ers"
  by (induction ers arbitrary: ecs) (auto split: sum.splits option.splits)

text \<open>C7. A transaction request that the program answers with 201, whatever the database did: the accounts
  are well-formed, every balance has moved by the entries of the request on it, and the total of
  every currency is what it was. If besides all entries of the request are of type DEBIT or CREDIT,
  the read model showed the balances of the accounts before, and there is room (no balance plus the
  volume of the request reaches 2 to the 63rd, versions and history keys are not exhausted), then
  the read model shows the balances after, or it is as it was and a database call of this request
  failed.\<close>

theorem transaction_request:
  assumes "prod_inv e pe w"
    and "http_RecordTransaction e we (prod_handler e pe) r (g, w) = (Reply resp, g', w')" "rs_status resp = 201"
    and "we_record we (rq_Body r) = Some req"
  shows "prod_inv e pe w' \<and> total_funds (prod_view e w') = total_funds (prod_view e w)
    \<and> (\<exists>ecs. entry_cmds e (rt_Entries req) = Some ecs \<and> moved (prod_view e w)
         (posted (cmd_legs \<lparr>rc_Entries = ecs, rc_Description = rt_Description req\<rparr>)) (prod_view e w'))
    \<and> (in_step e w \<and> (\<forall>er\<in>set (rt_Entries req). er_Type er \<in> {''DEBIT'', ''CREDIT''})
         \<and> room_for e w (map (\<lambda>er. sint (er_Amount er)) (rt_Entries req)) \<longrightarrow>
       in_step e w' \<or> (read_tables w' = read_tables w
         \<and> (\<exists>n. db_calls (pw_db w) \<le> n \<and> n < db_calls (pw_db w') \<and> pg_fault pe n \<noteq> None)))"
proof -
  have svc: "h_svc (prod_handler e pe) = prod_service e pe" by (simp add: prod_handler_def NewHandler_def)
  from assms(2-4) obtain ecs tx where ecs: "entry_cmds e (rt_Entries req) = Some ecs"
    and run: "RecordTransaction e (prod_service e pe) \<lparr>rc_Entries = ecs, rc_Description = rt_Description req\<rparr> g w
      = (Inr tx, g', w')"
    by (auto simp: http_RecordTransaction_def svc split: option.splits sum.splits prod.splits)
  let ?cmd = "\<lparr>rc_Entries = ecs, rc_Description = rt_Description req\<rparr>"
  from prod_ledger.record_outcome [OF assms(1) run] have out: "prod_inv e pe w'"
    "moved (prod_view e w) (posted (cmd_legs ?cmd)) (prod_view e w')"
    and legs: "map params_of (tx_entries tx) = cmd_legs ?cmd" by auto
  have "in_step e w' \<or> read_tables w' = read_tables w \<and> faulted pe (pw_db w) (pw_db w')"
    if "in_step e w" "\<forall>er\<in>set (rt_Entries req). er_Type er \<in> {''DEBIT'', ''CREDIT''}"
      "room_for e w (map (\<lambda>er. sint (er_Amount er)) (rt_Entries req))"
    using read_model_step [OF assms(1) that(1) run entry_types [OF ecs that(2) legs]] that(3)
      recorded_entries(1) [OF legs] entry_cmds_amounts [OF ecs] by simp
  moreover have "total_funds (prod_view e w') = total_funds (prod_view e w)"
    using prod_ledger.record_conserves [OF assms(1) run] by auto
  ultimately show ?thesis using out ecs unfolding faulted_def by blast
qed

definition sample_record_web :: web_env where
  "sample_record_web = sample_web\<lparr>we_record := \<lambda>_. Some \<lparr>rt_Entries =
       [\<lparr>er_AccountID = decimal 7, er_Amount = 40, er_Currency = ''USD'', er_Type = ''DEBIT''\<rparr>,
        \<lparr>er_AccountID = decimal 8, er_Amount = 40, er_Currency = ''USD'', er_Type = ''CREDIT''\<rparr>],
     rt_Description = ''payment''\<rparr>\<rparr>"

theorem transaction_request_witness:
  "case http_RecordTransaction sample_env sample_record_web (prod_handler sample_env sample_pg) (post_with ''a'')
      (sample_gen, sample_prod) of
     (Reply resp, g', w') \<Rightarrow> rs_status resp = 201 \<and> prod_inv sample_env sample_pg w'
       \<and> total_funds (prod_view sample_env w') = total_funds (prod_view sample_env sample_prod)
       \<and> in_step sample_env w'
   | (Panicked, g', w') \<Rightarrow> False"
proof -
  let ?h = "http_RecordTransaction sample_env sample_record_web (prod_handler sample_env sample_pg) (post_with ''a'')
      (sample_gen, sample_prod)"
  have "case ?h of (Reply resp, g', w') \<Rightarrow> rs_status resp = 201 | (Panicked, g', w') \<Rightarrow> False" by code_simp
  then obtain resp g' w' where h: "?h = (Reply resp, g', w')" "rs_status resp = 201"
    by (auto split: prod.splits reply.splits)
  have "pg_fault sample_pg n = None" for n by (simp add: sample_pg_def)
  with transaction_request [OF sample_prod_inv h] sample_prod_room sample_prod_in_step h show ?thesis
    by (simp add: sample_record_web_def)
qed

lemma sample_prod_ids: "ids_drawn sample_env used_gen (prod_view sample_env sample_prod)"
  unfolding ids_drawn_def
proof
  fix i assume "i \<in> dom (prod_view sample_env sample_prod)"
  then have "AccountID_String sample_env i \<in> {AccountID_String sample_env (AccountID 7), AccountID_String sample_env (AccountID 8)}"
    by (auto simp: prod_view_def pg_accounts_view_def sample_prod_def account_params_def sample_account_def sample_equity_def
        split: if_splits)
  then have "i = AccountID 7 \<or> i = AccountID 8" using account_id.print_inject [of sample_env] by auto
  then show "\<exists>n<drawn used_gen. i = AccountID (uuid_seq sample_env n)"
    by (elim disjE) (rule exI [of _ 6], simp add: used_gen_def, rule exI [of _ 7], simp add: used_gen_def)
qed

text \<open>C39. A deposit request that the program as main wires it answers with 200, whatever the database did.
  Its amount is a positive number n of cents. If the account it names is not itself named as the system
  equity account and its identifier is not the one that is generated next, then that account exists
  and holds exactly n more, another account with the name of the system equity account holds exactly n
  less (it may have been opened on the way), every other account is exactly as it was, and the totals
  are unchanged.\<close>

theorem deposit_request_credits:
  assumes "prod_inv e pe w" "ids_drawn e g (prod_view e w)" "uuid_unique e N" "drawn g < N"
    and "http_Deposit e we (prod_handler e pe) r (g, w) = (Reply resp, g', w')" "rs_status resp = 200"
    and "we_deposit we (rq_Body r) = Some req" "NewAccountID e (dq_AccountID req) = Inr i"
    and "i \<noteq> AccountID (uuid_seq e (drawn g))"
    and "\<And>a. prod_view e w i = Some a \<Longrightarrow> a_name a \<noteq> equity_name (currency_or_USD (dq_Currency req))"
  shows "0 < sint (cents (we_big we) (dq_Amount req)) \<and> prod_inv e pe w'
    \<and> deposited (prod_view e w) i (cents (we_big we) (dq_Amount req)) (currency_or_USD (dq_Currency req)) (prod_view e w')
    \<and> total_funds (prod_view e w') = total_funds (prod_view e w)"
proof -
  have svc: "h_svc (prod_handler e pe) = prod_service e pe" by (simp add: prod_handler_def NewHandler_def)
  from assms(5-8) obtain u where pos: "0 < sint (cents (we_big we) (dq_Amount req))"
    and dep: "Deposit e (prod_service e pe) i (cents (we_big we) (dq_Amount req)) (currency_or_USD (dq_Currency req))
      (text_or ''Deposit'' (dq_Description req)) g w = (Inr u, g', w')"
    by (auto simp: http_Deposit_def svc Let_def split: option.splits sum.splits prod.splits if_splits)
  from pos prod_ledger.deposit_run(1,3) [OF assms(1-4) dep] prod_ledger.deposit_posts [OF assms(1-4) dep assms(9,10)]
  show ?thesis by (simp add: fun_eq_iff)
qed

definition sample_deposit_web :: web_env where
  "sample_deposit_web = sample_web\<lparr>we_deposit := \<lambda>_. Some \<lparr>dq_AccountID = decimal 7,
     dq_Amount = \<lparr>f_mant = 1, f_exp = - 2\<rparr>, dq_Currency = '''', dq_Description = ''''\<rparr>\<rparr>"

theorem deposit_request_credits_witness:
  "case http_Deposit sample_env sample_deposit_web (prod_handler sample_env sample_pg) (post_with ''a'')
      (used_gen, sample_prod) of
     (Reply resp, g', w') \<Rightarrow> rs_status resp = 200
       \<and> deposited (prod_view sample_env sample_prod) (AccountID 7) 25 USD (prod_view sample_env w')
   | (Panicked, g', w') \<Rightarrow> False"
proof -
  let ?h = "http_Deposit sample_env sample_deposit_web (prod_handler sample_env sample_pg) (post_with ''a'')
      (used_gen, sample_prod)"
  have "case ?h of (Reply resp, g', w') \<Rightarrow> rs_status resp = 200 | (Panicked, g', w') \<Rightarrow> False" by code_simp
  then obtain resp g' w' where h: "?h = (Reply resp, g', w')" "rs_status resp = 200"
    by (auto split: prod.splits reply.splits)
  let ?req = "\<lparr>dq_AccountID = decimal 7, dq_Amount = \<lparr>f_mant = 1, f_exp = - 2\<rparr>, dq_Currency = '''', dq_Description = ''''\<rparr>"
  have req: "we_deposit sample_deposit_web (rq_Body (post_with ''a'')) = Some ?req"
    by (simp add: sample_deposit_web_def)
  have num: "NewAccountID sample_env (dq_AccountID ?req) = Inr (AccountID 7)" "cents (we_big sample_deposit_web) (dq_Amount ?req) = 25"
    "currency_or_USD (dq_Currency ?req) = USD" "AccountID 7 \<noteq> AccountID (uuid_seq sample_env (drawn used_gen))" by code_simp+
  have other: "a_name a \<noteq> equity_name (currency_or_USD (dq_Currency ?req))"
    if "prod_view sample_env sample_prod (AccountID 7) = Some a" for a
    using that by (auto simp: sample_prod_view num(3) pg_stored_def sample_account_def equity_name_def)
  have few: "drawn used_gen < 1000" by (simp add: used_gen_def)
  from deposit_request_credits [OF sample_prod_inv sample_prod_ids sample_env_unique few h req num(1) num(4) other] h
  show ?thesis unfolding num by simp
qed

subsection \<open>From a transaction to the publisher\<close>

lemma record_outbox_row:
  assumes "RecordTransaction e (prod_service e pe) cmd g w = (Inr tx, g', w')"
  obtains row ev payload where "row \<in> set (db_outbox (pw_db w'))" "\<not> ob_published row"
    "tr_TransactionID ev = TransactionID_String e (tx_id tx)" "tr_Entries ev = map (entry_data e) (tx_entries tx)"
    "tr_Description ev = rc_Description cmd" "json_Marshal e (TransactionRecorded ev) = Inr payload"
    "row_line row = (''transaction.recorded'', TransactionID_String e (tx_id tx), pg_jsonb pe payload)"
proof -
  let ?id = "TransactionID_String e (tx_id tx)"
  from assms obtain g1 g2 u w1 u2 w2 u3 w3 ev where
    "update_balances e (prod_service e pe) (tx_entries tx) g1 w = (Inr u, g2, w1)"
    "txr_Save (ls_transactions (prod_service e pe)) tx w1 = (Inr u2, w2)"
    and app: "appendEvent e (prod_service e pe) ?id ''transaction'' 0 (TransactionRecorded ev) w2 = (Inr u3, w3)"
    and ev: "tr_TransactionID ev = TransactionID_String e (tx_id tx)" "tr_Entries ev = map (entry_data e) (tx_entries tx)" "tr_Description ev = rc_Description cmd"
    and w': "w' = projected (prod_service e pe) (\<lambda>p w. snd (pj_ProjectTransactionRecorded p ev w)) w3"
    by (rule record_calls)
  from app obtain payload stored where
    out: "AppendWithOutbox pe ?id ''transaction'' 0 [stored] (pw_db w2) = (Inr u3, pw_db w3)"
    and stored: "se_EventType stored = EventTransactionRecorded" "se_Payload stored = payload"
    and payload: "json_Marshal e (TransactionRecorded ev) = Inr payload"
    by (auto simp: appendEvent_def Let_def prod_outbox_port_def on_part_eq_iff split: sum.splits)
  obtain news outs where
    news: "map row_body news = stream_rows pe ?id ''transaction'' 0 0 [stored]"
    and outs: "db_outbox (pw_db w3) = db_outbox (pw_db w2) @ outs" "map outbox_content outs = map event_content news"
      "list_all (\<lambda>r. \<not> ob_published r) outs"
    using AppendWithOutbox_result [OF out] unfolding sum.case by blast
  from news obtain x where x: "news = [x]" "ev_aggregate_id x = ?id" "ev_event_type x = ''transaction.recorded''"
    "ev_payload x = pg_jsonb pe payload"
    by (auto simp: stored EventTransactionRecorded_def dest!: row_body_fields)
  with outs(2) obtain row where row: "outs = [row]" "outbox_content row = event_content x" by auto
  obtain r db where pj: "ProjectTransactionRecorded pe ev (pw_db w3) = (r, db)" by fastforce
  then have "pw_db w' = db" by (simp add: w' projected_def prod_projector_port_def on_part_def)
  moreover have "db_outbox db = db_outbox (pw_db w3)"
    using ProjectTransactionRecorded_result [OF pj] by (cases r) (auto simp: frame_simps)
  ultimately have "row \<in> set (db_outbox (pw_db w'))" by (simp add: outs(1) row(1))
  moreover have "row_line row = (''transaction.recorded'', ?id, pg_jsonb pe payload)"
    using row(2) x by (simp add: outbox_content_def event_content_def row_line_def)
  ultimately show ?thesis using outs(3) row(1) ev payload by (intro that [of row ev payload]) auto
qed

text \<open>C21. A recorded transaction reaches the publisher with its content. Let a worker poll alone on a
  database that answers every call and on which no other session holds a lock, let the outbox keys be
  distinct, and let at most 50 n rows wait. Then, once the service has returned the transaction, the log
  after n polls holds its event: the JSONB of the marshalled event that carries the identifier of the
  transaction, its entries in order and its description.\<close>

theorem recorded_transaction_delivered:
  assumes "RecordTransaction e (prod_service e pe) cmd g w = (Inr tx, g', w')"
    and "pg_quiet pe" "outbox_keys (pw_db w')" "length (unpublished (pw_db w')) \<le> 50 * n"
    and "worker_Start pe prod_worker n (pw_db w') log = (db', log')"
  shows "\<exists>ev payload. tr_TransactionID ev = TransactionID_String e (tx_id tx)
    \<and> tr_Entries ev = map (entry_data e) (tx_entries tx) \<and> tr_Description ev = rc_Description cmd
    \<and> json_Marshal e (TransactionRecorded ev) = Inr payload
    \<and> (''transaction.recorded'', TransactionID_String e (tx_id tx), pg_jsonb pe payload) \<in> set log'"
proof -
  have pub: "ow_publisher prod_worker = LogPublisher" "ow_batchSize prod_worker = 50"
    by (simp_all add: prod_worker_def NewOutboxWorker_def)
  have scan: "pg_scan_ok pe" using assms(2) by (simp add: pg_quiet_def)
  have steps: "list_all2 (row_step (set log')) (db_outbox (pw_db w')) (db_outbox db')"
    using log_publisher.worker_steps [OF assms(5) pub(1) scan assms(3)] by simp
  have "unpublished db' = []"
    using worker_drains [OF assms(2,3) _ pub(1) assms(5)] assms(4) pub(2) by simp
  then have all: "\<forall>r\<in>set (db_outbox db'). ob_published r" by (auto simp: unpublished_def filter_empty_conv)
  from assms(1) obtain row ev payload where row: "row \<in> set (db_outbox (pw_db w'))" "\<not> ob_published row"
    and ev: "tr_TransactionID ev = TransactionID_String e (tx_id tx)" "tr_Entries ev = map (entry_data e) (tx_entries tx)"
      "tr_Description ev = rc_Description cmd" "json_Marshal e (TransactionRecorded ev) = Inr payload"
    and line: "row_line row = (''transaction.recorded'', TransactionID_String e (tx_id tx), pg_jsonb pe payload)"
    by (rule record_outbox_row)
  from steps row(1) obtain row' where "row' \<in> set (db_outbox db')" "row_step (set log') row row'"
    by (metis list_all2_conv_all_nth in_set_conv_nth)
  with all row(2) line have "(''transaction.recorded'', TransactionID_String e (tx_id tx), pg_jsonb pe payload) \<in> set log'"
    by (auto simp: row_step_def)
  with ev show ?thesis by blast
qed

theorem recorded_transaction_delivered_witness:
  "case RecordTransaction sample_env (prod_service sample_env sample_pg) (sample_cmd 40 8) sample_gen sample_prod of
     (Inr tx, g', w') \<Rightarrow>
       (\<exists>ev payload. tr_Entries ev = map (entry_data sample_env) (tx_entries tx)
          \<and> json_Marshal sample_env (TransactionRecorded ev) = Inr payload
          \<and> (''transaction.recorded'', TransactionID_String sample_env (tx_id tx), pg_jsonb sample_pg payload)
             \<in> set (snd (worker_Start sample_pg prod_worker 1 (pw_db w') [])))
   | (Inl err, g', w') \<Rightarrow> False"
proof -
  let ?r = "RecordTransaction sample_env (prod_service sample_env sample_pg) (sample_cmd 40 8) sample_gen sample_prod"
  have "case ?r of (Inr tx, g', w') \<Rightarrow> outbox_keys (pw_db w') \<and> int (length (unpublished (pw_db w'))) = 1
     | (Inl err, g', w') \<Rightarrow> False"
    by code_simp
  then obtain tx g' w' where run: "?r = (Inr tx, g', w')" and db: "outbox_keys (pw_db w')" "length (unpublished (pw_db w')) = 1"
    by (auto split: prod.splits sum.splits)
  obtain db' log' where "worker_Start sample_pg prod_worker 1 (pw_db w') [] = (db', log')" by fastforce
  from recorded_transaction_delivered [OF run sample_pg_quiet db(1) _ this] db(2) run this show ?thesis by auto
qed

subsection \<open>Transactions recorded at the same time\<close>

text \<open>C8. Concurrent transactions add up as long as no two of them are between reading and writing the same
  account: in any such interleaving of any number of commands that are all answered without an error,
  with any failures of the database, every account has moved by the sum of all legs posted to it, and
  the total of every currency is what it was. Commands without a common account always run so.\<close>

theorem concurrent_transactions_add_up:
  assumes "race_reach P e (prod_service e pe) cmds g w c" "P = exclusive \<or> P = (\<lambda>_. True) \<and> apart cmds"
    and "prod_inv e pe w" "\<forall>ph\<in>set (ra_phases c). \<exists>tx. ph = Answered (Inr tx)"
  shows "prod_inv e pe (ra_store c)
    \<and> moved (prod_view e w) (posted (concat (map cmd_legs cmds))) (prod_view e (ra_store c))
    \<and> total_funds (prod_view e (ra_store c)) = total_funds (prod_view e w)"
proof -
  have reach: "race_reach exclusive e (prod_service e pe) cmds g w c"
    using assms(1-3) prod_ledger.apart_reach by blast
  show ?thesis
    using prod_ledger.race_all_posted [OF reach assms(3,4)] prod_ledger.race_conserves [OF reach assms(3,4)] by auto
qed

definition sample_race :: "int64 \<Rightarrow> int64 \<Rightarrow> RecordTransactionCmd list" where
  "sample_race n m = [sample_cmd n 8, sample_cmd m 8]"

definition sample_start :: "int64 \<Rightarrow> int64 \<Rightarrow> prod_world race" where
  "sample_start n m = race_start (sample_race n m) sample_gen sample_prod"

definition answered_ok :: "record_phase \<Rightarrow> bool" where
  "answered_ok ph = (case ph of Answered (Inr tx) \<Rightarrow> True | _ \<Rightarrow> False)"

lemma answered_ok_iff: "answered_ok ph \<longleftrightarrow> (\<exists>tx. ph = Answered (Inr tx))"
  by (auto simp: answered_ok_def split: record_phase.splits sum.splits)

theorem concurrent_transactions_add_up_witness:
  "case race_run sample_env (prod_service sample_env sample_pg) (sample_race 40 30)
      [0, 1, 0, 0, 0, 1, 0, 1, 1, 0, 1, 0, 1, 0, 1, 1] (sample_start 40 30) of
     c \<Rightarrow> moved (prod_view sample_env sample_prod) (posted (concat (map cmd_legs (sample_race 40 30))))
            (prod_view sample_env (ra_store c))
       \<and> total_funds (prod_view sample_env (ra_store c)) = total_funds (prod_view sample_env sample_prod)"
proof -
  let ?is = "[0, 1, 0, 0, 0, 1, 0, 1, 1, 0, 1, 0, 1, 0, 1, 1]"
  let ?c = "race_run sample_env (prod_service sample_env sample_pg) (sample_race 40 30) ?is (sample_start 40 30)"
  have "race_reach exclusive sample_env (prod_service sample_env sample_pg) (sample_race 40 30) sample_gen sample_prod
      (sample_start 40 30)"
    unfolding sample_start_def by (rule race_reach.start)
  moreover have "exclusive_run sample_env (prod_service sample_env sample_pg) (sample_race 40 30) ?is (sample_start 40 30)"
    by code_simp
  ultimately have reach: "race_reach exclusive sample_env (prod_service sample_env sample_pg) (sample_race 40 30)
      sample_gen sample_prod ?c" by (rule exclusive_run_reach)
  have "list_all answered_ok (ra_phases ?c)" by code_simp
  then have "\<forall>ph\<in>set (ra_phases ?c). \<exists>tx. ph = Answered (Inr tx)" by (simp add: list_all_iff answered_ok_iff)
  from concurrent_transactions_add_up [OF reach disjI1 [OF refl] sample_prod_inv this] show ?thesis by simp
qed

text \<open>C9. Without that condition a balance is lost: two payments of 80 from an account that holds 100 are
  both accepted when each reads the account before the other has written it back. The payer has lost 80
  and the receiver got 160, so that the accounts no longer add up.\<close>

theorem lost_update:
  "\<exists>c. race_reach (\<lambda>_. True) sample_env (prod_service sample_env sample_pg) (sample_race 80 80) sample_gen sample_prod c
     \<and> list_all answered_ok (ra_phases c)
     \<and> map_option funds (prod_view sample_env sample_prod (AccountID 7)) = Some 100
     \<and> map_option funds (prod_view sample_env sample_prod (AccountID 8)) = Some (- 100)
     \<and> map_option funds (prod_view sample_env (ra_store c) (AccountID 7)) = Some 20
     \<and> map_option funds (prod_view sample_env (ra_store c) (AccountID 8)) = Some 60"
proof -
  let ?is = "[0, 1, 0, 1, 0, 1, 0, 0, 0, 0, 0, 1, 1, 1, 1, 1]"
  let ?c = "race_run sample_env (prod_service sample_env sample_pg) (sample_race 80 80) ?is (sample_start 80 80)"
  have "race_reach (\<lambda>_. True) sample_env (prod_service sample_env sample_pg) (sample_race 80 80) sample_gen sample_prod ?c"
    unfolding sample_start_def by (rule race_run_reach [OF race_reach.start]) (simp add: sample_race_def)
  moreover have "list_all answered_ok (ra_phases ?c)" by code_simp
  moreover have "map_option funds (prod_view sample_env sample_prod (AccountID 7)) = Some 100"
    "map_option funds (prod_view sample_env sample_prod (AccountID 8)) = Some (- 100)" by code_simp+
  moreover have "map_option funds (prod_view sample_env (ra_store ?c) (AccountID 7)) = Some 20"
    "map_option funds (prod_view sample_env (ra_store ?c) (AccountID 8)) = Some 60" by code_simp+
  ultimately show ?thesis by blast
qed

end
