(* ===== verification/Observability_Log.thy ===== *)
theory Observability_Log
  imports Main
begin

section \<open>Logging (internal/infra/observability/logger.go)\<close>

text \<open>
  What the program uses of \<^verbatim>\<open>log/slog\<close>: a logger hands a record to its handler when the level of the record
  reaches the one of the handler's options, and the handler of SetupLogger writes to standard output. The
  JSON text of a record and its timestamp are left out.
\<close>

type_synonym level = int

definition LevelDebug :: level where "LevelDebug = - 4"
definition LevelInfo :: level where "LevelInfo = 0"
definition LevelWarn :: level where "LevelWarn = 4"
definition LevelError :: level where "LevelError = 8"

lemmas level_defs = LevelDebug_def LevelInfo_def LevelWarn_def LevelError_def

record log_record =
  lr_level :: level
  lr_msg :: string
  lr_attrs :: "(string \<times> string) list"

record slog_Logger =
  sl_Level :: level

text \<open>The default logger of the package, and what has been written to standard output.\<close>

record logging =
  lo_default :: "slog_Logger option"
  lo_stdout :: "log_record list"

definition SetupLogger :: "logging \<Rightarrow> slog_Logger \<times> logging" where
  "SetupLogger lo = (let logger = \<lparr>sl_Level = LevelInfo\<rparr> in (logger, lo\<lparr>lo_default := Some logger\<rparr>))"

definition Logger_log :: "slog_Logger \<Rightarrow> level \<Rightarrow> string \<Rightarrow> (string \<times> string) list \<Rightarrow> logging \<Rightarrow> logging" where
  "Logger_log logger level msg attrs lo =
     (if sl_Level logger \<le> level
      then lo\<lparr>lo_stdout := lo_stdout lo @ [\<lparr>lr_level = level, lr_msg = msg, lr_attrs = attrs\<rparr>]\<rparr> else lo)"

definition Logger_Info :: "slog_Logger \<Rightarrow> string \<Rightarrow> logging \<Rightarrow> logging" where
  "Logger_Info logger msg = Logger_log logger LevelInfo msg []"

definition Logger_Error :: "slog_Logger \<Rightarrow> string \<Rightarrow> string \<Rightarrow> logging \<Rightarrow> logging" where
  "Logger_Error logger msg err = Logger_log logger LevelError msg [(''error'', err)]"

text \<open>With this logger nothing that main logs is lost, and a record of a level below Info is.\<close>

lemma SetupLogger_logs:
  assumes "SetupLogger lo = (logger, lo')"
  shows "lo_default lo' = Some logger" "lo_stdout lo' = lo_stdout lo"
    "lo_stdout (Logger_Info logger msg lo'') = lo_stdout lo'' @ [\<lparr>lr_level = LevelInfo, lr_msg = msg, lr_attrs = []\<rparr>]"
    "lo_stdout (Logger_Error logger msg err lo'') = lo_stdout lo'' @ [\<lparr>lr_level = LevelError, lr_msg = msg, lr_attrs = [(''error'', err)]\<rparr>]"
    "Logger_log logger level msg attrs lo'' = lo'' \<longleftrightarrow> level < LevelInfo"
  using assms
  by (auto simp: SetupLogger_def Let_def Logger_Info_def Logger_Error_def Logger_log_def level_defs dest: arg_cong [where f = lo_stdout])

end
