(* ===== verification/Program_Invariants.thy ===== *)
theory Program_Invariants
  imports Program_Lifecycle
begin

section \<open>What every run of the program keeps\<close>

text \<open>
  Two guarantees of the calls of the services, that accounts stay sound and that the tables agree, carried over
  to HTTP requests by the locale \<open>http_interference\<close>, and from there to every run of the program.
\<close>

subsection \<open>Frames\<close>

lemma batch_frames:
  "fetch_publish pe w db p = (ids, db', p') \<Longrightarrow> db_accounts db' = db_accounts db \<and> db_events db' = db_events db
     \<and> db_outbox_seq db' = db_outbox_seq db \<and> db_balances db' = db_balances db \<and> db_history db' = db_history db"
  "db_accounts (snd (MarkPublished pe ids db)) = db_accounts db \<and> db_events (snd (MarkPublished pe ids db)) = db_events db
     \<and> db_outbox_seq (snd (MarkPublished pe ids db)) = db_outbox_seq db
     \<and> db_balances (snd (MarkPublished pe ids db)) = db_balances db \<and> db_history (snd (MarkPublished pe ids db)) = db_history db"
  by (auto simp: fetch_publish_def FetchUnpublished_def MarkPublished_def pg_call_def Let_def
      split: option.splits prod.splits sum.splits)

lemma query_calls:
  "GetAccountBalance pe i db = (r1, db') \<Longrightarrow> \<exists>n. db' = db\<lparr>db_calls := n\<rparr>"
  "ListAccounts pe db = (r2, db') \<Longrightarrow> \<exists>n. db' = db\<lparr>db_calls := n\<rparr>"
  "GetTransactionHistory pe i l k db = (r3, db') \<Longrightarrow> \<exists>n. db' = db\<lparr>db_calls := n\<rparr>"
  by (auto simp: GetAccountBalance_def ListAccounts_def GetTransactionHistory_def pg_call_def Let_def
      split: option.splits prod.splits if_splits)

lemma query_ports:
  "qs_GetAccountBalance (prod_query_port pe) i w = (r1, w') \<Longrightarrow> \<exists>n. w' = put_db (pw_db w\<lparr>db_calls := n\<rparr>) w"
  "qs_ListAccounts (prod_query_port pe) w = (r2, w') \<Longrightarrow> \<exists>n. w' = put_db (pw_db w\<lparr>db_calls := n\<rparr>) w"
  "qs_GetTransactionHistory (prod_query_port pe) i l k w = (r3, w') \<Longrightarrow> \<exists>n. w' = put_db (pw_db w\<lparr>db_calls := n\<rparr>) w"
  by (auto simp: prod_query_port_def on_part_eq_iff dest!: query_calls)

lemma health_calls:
  assumes "prod_health e we dur t pe re (g, w) rd = (rep, (g', w'), rd')"
  shows "(\<exists>n. w' = put_db (pw_db w\<lparr>db_calls := n\<rparr>) w) \<and> drawn g' = drawn g"
  using assms
  by (auto simp: prod_health_def HealthChecker_Handler_def checkPostgres_def checkRedis_def checkOutboxBacklog_def
      pg_call_def redis_call_def time_Now_def Let_def split: option.splits prod.splits)

subsection \<open>Accounts\<close>

lemma calls_frame:
  "prod_inv e pe w \<Longrightarrow> prod_inv e pe (put_db (pw_db w\<lparr>db_calls := n\<rparr>) w)
     \<and> prod_view e (put_db (pw_db w\<lparr>db_calls := n\<rparr>) w) = prod_view e w"
  by (rule prod_frame) simp_all

interpretation prod_accounts: http_interference "prod_ledger.accounts_inv (pf_env x) (pf_pg x) (pf_env x) N"
  "prod_ledger.accounts_rely (pf_env x) (pf_env x) N" "prod_ledger.accounts_rely (pf_env x) (pf_env x) N"
  "pf_env x" "pf_service x" "pf_deps x" for x N
proof (intro http_interference.intro http_interference_axioms.intro prod_ledger.rg.service_interference_axioms)
  show "prod_ledger.accounts_inv (pf_env x) (pf_pg x) (pf_env x) N g1 w1 \<and> prod_ledger.accounts_rely (pf_env x) (pf_env x) N g w g1 w1"
    if "prod_ledger.accounts_inv (pf_env x) (pf_pg x) (pf_env x) N g w" "dp_Health (pf_deps x) (g, w) rd = (rep, (g1, w1), rd1)"
    for g w rd rep g1 w1 rd1
    using health_calls [OF that(2) [unfolded pf_deps_simps]] calls_frame
    by (intro prod_ledger.frame_step [OF that(1)]) auto
qed (simp_all, (rule prod_ledger.kept_frame_port, drule query_ports, metis calls_frame)+)

text \<open>What the events of a run keep of the accounts it started with.\<close>

abbreviation accounts_rely :: "platform \<Rightarrow> nat \<Rightarrow> gen \<Rightarrow> prod_world \<Rightarrow> gen \<Rightarrow> prod_world \<Rightarrow> bool" where
  "accounts_rely x \<equiv> prod_ledger.accounts_rely (pf_env x) (pf_env x)"

definition accounts_kept ::
  "platform \<Rightarrow> nat \<Rightarrow> gen \<Rightarrow> prod_world \<Rightarrow> (web_state \<times> prod_world, http_response) serving \<Rightarrow> bool" where
  "accounts_kept x N g w c \<longleftrightarrow>
     prod_accounts.web.serving_ok x N c \<and> accounts_rely x N g w (sv_gen c) (snd (sv_store c))"

lemma accounts_kept_arrive: "accounts_kept x N g w c \<Longrightarrow> accounts_kept x N g w (serving_arrive (prod_request x r) c)"
  unfolding accounts_kept_def prod_request_def
  by (auto intro!: prod_accounts.web.serving_ok_arrive prod_accounts.kept_request)

lemma accounts_kept_turn: "accounts_kept x N g w c \<Longrightarrow> accounts_kept x N g w (serving_turn i c)"
  using prod_accounts.web.serving_ok_turn [OF _ refl, of x N c i] prod_ledger.rg.R_trans [where w = w and g = g]
  unfolding accounts_kept_def beside_def by auto

lemma accounts_kept_db:
  assumes J: "accounts_kept x N g w (pr_serving p)" and db: "db_accounts db = db_accounts (pw_db (program_world p))"
  shows "accounts_kept x N g w (pr_serving (set_db db p))"
proof -
  let ?c = "pr_serving p" and ?w = "program_world (set_db db p)"
  let ?I = "prod_ledger.accounts_inv (pf_env x) (pf_pg x) (pf_env x) N"
  have c: "?c\<lparr>sv_gen := sv_gen ?c, sv_store := apsnd (put_db db) (sv_store ?c)\<rparr> = pr_serving (set_db db p)" by (simp add: set_db_def)
  have ok: "prod_accounts.web.serving_ok x N ?c" and rely: "accounts_rely x N g w (sv_gen ?c) (program_world p)"
    using J by (simp_all add: accounts_kept_def)
  then have inv: "?I (sv_gen ?c) (program_world p)" by (simp add: prod_accounts.web.serving_ok_def beside_inv_def)
  have "prod_inv (pf_env x) (pf_pg x) (program_world p) \<Longrightarrow> prod_inv (pf_env x) (pf_pg x) ?w
      \<and> prod_view (pf_env x) ?w = prod_view (pf_env x) (program_world p)"
    using db by (intro prod_frame) simp_all
  then have step: "?I (sv_gen ?c) ?w \<and> accounts_rely x N (sv_gen ?c) (program_world p) (sv_gen ?c) ?w"
    by (intro prod_ledger.frame_step [OF inv]) simp_all
  then have "prod_accounts.web.serving_ok x N (pr_serving (set_db db p))"
    using prod_accounts.web.serving_ok_env [OF ok, of "sv_gen ?c" "apsnd (put_db db) (sv_store ?c)"] unfolding c beside_defs by simp
  with rely step prod_ledger.rg.R_trans [where w = w and g = g] show ?thesis unfolding accounts_kept_def by auto
qed

lemma program_accounts:
  assumes "prod_inv (pf_env x) (pf_pg x) w" "ids_drawn (pf_env x) g (prod_view (pf_env x) w)"
    and "p = program_run x evs (program_start logger lo g (v, w) log)"
    and "uuid_unique (pf_env x) N" "drawn (sv_gen (pr_serving p)) < N"
  shows "prod_inv (pf_env x) (pf_pg x) (program_world p)"
    "evolves (prod_view (pf_env x) w) (prod_view (pf_env x) (program_world p))"
proof -
  have "accounts_kept x N g w (pr_serving p)"
    unfolding assms(3)
  proof (rule program_run_invariant [where J = "\<lambda>c log wk. accounts_kept x N g w c"])
    show "accounts_kept x N g w (pr_serving (program_start logger lo g (v, w) log))"
      using assms(1,2) prod_ledger.rg.R_refl
      by (simp add: program_start_def accounts_kept_def prod_accounts.web.serving_ok_def beside_inv_def prod_ledger.accounts_inv_def)
    show "accounts_kept x N g w (pr_serving (poll (pf_pg x) p))" if "accounts_kept x N g w (pr_serving p)" for p
      using accounts_kept_db [OF that] by (auto simp: poll_def dest!: batch_frames(1) split: prod.splits)
    show "accounts_kept x N g w (pr_serving (mark (pf_pg x) ids p))" if "accounts_kept x N g w (pr_serving p)" for p ids
      using accounts_kept_db [OF that] batch_frames(2) by (auto simp: mark_def)
  qed (simp_all add: accounts_kept_arrive accounts_kept_turn)
  then show "prod_inv (pf_env x) (pf_pg x) (program_world p)"
    "evolves (prod_view (pf_env x) w) (prod_view (pf_env x) (program_world p))"
    using assms(4,5)
    by (simp_all add: accounts_kept_def prod_accounts.web.serving_ok_def beside_inv_def prod_ledger.accounts_inv_def
        prod_ledger.accounts_rely_def fresh_ids_def)
qed

subsection \<open>Events, outbox and read model\<close>

definition data_ok :: "pg_db \<Rightarrow> bool" where
  "data_ok db \<longleftrightarrow> serial_keys db \<and> mirrored db \<and> versions_unique db \<and> history_consistent db"

text \<open>What a call of the service may do to these tables.\<close>

definition data_step :: "pg_db \<Rightarrow> pg_db \<Rightarrow> bool" where
  "data_step db db' \<longleftrightarrow> (data_ok db \<longrightarrow> data_ok db')
     \<and> (\<exists>outs. db_outbox db' = db_outbox db @ outs \<and> list_all (\<lambda>r. \<not> ob_published r) outs)"

definition data_tables :: "pg_db \<Rightarrow> outbox_row list \<times> nat \<times> event_row list \<times> balance_row list \<times> history_row list" where
  "data_tables db = (db_outbox db, db_outbox_seq db, db_events db, db_balances db, db_history db)"

lemma data_step_frame: "data_tables db' = data_tables db \<Longrightarrow> data_step db db'"
  by (auto simp: data_step_def data_ok_def data_tables_def serial_keys_def outbox_keys_def mirrored_def
      versions_unique_def history_consistent_def)

lemma account_ports_frame:
  "pg_acc_Save e pe a db = (r, db') \<Longrightarrow> data_tables db' = data_tables db"
  "pg_acc_FindByID e pe i db = (q, db') \<Longrightarrow> data_tables db' = data_tables db"
  "pg_acc_FindAll e pe db = (rs, db') \<Longrightarrow> data_tables db' = data_tables db"
  by (auto simp: pg_acc_Save_def pg_acc_FindByID_def pg_acc_FindAll_def pg_call_def data_tables_def
      split: option.splits sum.splits)

lemmas account_ports_data = account_ports_frame [THEN data_step_frame]

lemma data_step_refl [simp]: "data_step db db"
  by (simp add: data_step_frame)

lemma append_data: "AppendWithOutbox pe aid ty ver evs db = (r, db') \<Longrightarrow> data_step db db'"
proof -
  assume app: "AppendWithOutbox pe aid ty ver evs db = (r, db')"
  note res = AppendWithOutbox_result [OF app]
  then have "db_balances db' = db_balances db" "db_history db' = db_history db" "mirrored db \<longrightarrow> mirrored db'"
    "\<exists>outs. db_outbox db' = db_outbox db @ outs \<and> list_all (\<lambda>r. \<not> ob_published r) outs"
    by (cases r; auto simp: frame_simps mirrored_def)+
  with AppendWithOutbox_serial [OF app] AppendWithOutbox_unique [OF app] show ?thesis
    by (simp add: data_step_def data_ok_def history_consistent_def)
qed

lemma project_seq:
  "project_entries pe event entries db = (r, db') \<Longrightarrow> db_outbox_seq db' = db_outbox_seq db"
  by (induction entries arbitrary: db)
    (auto simp: project_entry_def pg_call_def Let_def split: option.splits sum.splits prod.splits)

lemma project_frames:
  "ProjectTransactionRecorded pe tr db = (r, db') \<Longrightarrow>
     db_outbox_seq db' = db_outbox_seq db \<and> db_outbox db' = db_outbox db \<and> db_events db' = db_events db"
  "ProjectAccountOpened pe ao db = (q, db') \<Longrightarrow>
     db_outbox_seq db' = db_outbox_seq db \<and> db_outbox db' = db_outbox db \<and> db_events db' = db_events db"
proof -
  assume tr: "ProjectTransactionRecorded pe tr db = (r, db')"
  then have "db_outbox_seq db' = db_outbox_seq db"
    by (auto simp: ProjectTransactionRecorded_def pg_call_def pg_rollback_def dest: project_seq
        split: option.splits sum.splits prod.splits)
  with ProjectTransactionRecorded_result [OF tr]
  show "db_outbox_seq db' = db_outbox_seq db \<and> db_outbox db' = db_outbox db \<and> db_events db' = db_events db"
    by (cases r) (auto simp: frame_simps)
next
  assume "ProjectAccountOpened pe ao db = (q, db')"
  then show "db_outbox_seq db' = db_outbox_seq db \<and> db_outbox db' = db_outbox db \<and> db_events db' = db_events db"
    by (auto simp: ProjectAccountOpened_def pg_call_def split: option.splits if_splits)
qed

lemma project_data:
  "ProjectTransactionRecorded pe tr db = (r, db') \<Longrightarrow> data_step db db'"
  "ProjectAccountOpened pe ao db = (q, db') \<Longrightarrow> data_step db db'"
  using projection_history [of db pe tr ao] project_frames
  by (auto simp: data_step_def data_ok_def serial_keys_def outbox_keys_def mirrored_def versions_unique_def)

text \<open>Every call of the service as main wires it keeps to it, whatever the others do.\<close>

definition data_guarantee :: "gen \<Rightarrow> prod_world \<Rightarrow> gen \<Rightarrow> prod_world \<Rightarrow> bool" where
  "data_guarantee g w g' w' \<longleftrightarrow> data_step (pw_db w) (pw_db w')"

lemma prod_append_data: "appendEvent e (prod_service e pe) i ty n ev w = (r, w') \<Longrightarrow> data_step (pw_db w) (pw_db w')"
  by (auto simp: appendEvent_def Let_def prod_outbox_port_def on_part_eq_iff
      dest: append_data split: sum.splits)

lemma data_interference: "interference (\<lambda>_ _ _ _. True) data_guarantee"
  by unfold_locales simp_all

lemmas data_act = interference.keeps_act [OF data_interference, where I = "\<lambda>_ _. True"]
  and data_port = interference.keeps_port [OF data_interference, where I = "\<lambda>_ _. True"]
  and data_then = interference.kept_then [OF data_interference, where I = "\<lambda>_ _. True"]

lemma find_leg_data:
  "find_leg e (prod_service e pe) x g w = (r, g', w') \<Longrightarrow> data_guarantee g w g' w'"
  by (auto simp: find_leg_def lift_accounts_def pg_account_port_def on_part_def data_guarantee_def
      dest!: account_ports_data(2) split: prod.splits sum.splits)

lemma data_legs:
  "keeps (\<lambda>_ _. True) (\<lambda>_ _ _ _. True) data_guarantee (\<lambda>_ _ _. True) g w (legs_proc e (prod_service e pe) xs)"
proof (induction xs arbitrary: g w)
  case (Cons x xs)
  show ?case
    unfolding legs_proc.simps
  proof (intro data_then data_act data_port Cons.IH)
    show "True \<and> data_guarantee g1 w1 g2 w2 \<and> True" if "find_leg e (prod_service e pe) x g1 w1 = (r, g2, w2)" for g1 w1 r g2 w2
      using find_leg_data [OF that] by simp
  qed (auto simp: data_guarantee_def lift_accounts_def pg_account_port_def on_part_eq_iff dest: account_ports_data(1))
qed (simp add: keeps_Return)

lemma data_service: "service_interference (\<lambda>_ _. True) (\<lambda>_ _ _ _. True) data_guarantee e (prod_service e pe)"
proof (intro service_interference.intro service_interference_axioms.intro data_interference data_legs conjI)
  show "keeps (\<lambda>_ _. True) (\<lambda>_ _ _ _. True) data_guarantee (\<lambda>_ _ _. True) g w (act (save_new e (prod_service e pe) ocmd))"
    for g w ocmd
    by (rule data_act) (auto simp: save_new_def data_guarantee_def lift_accounts_def pg_account_port_def on_part_def
        dest!: account_ports_data(1) split: prod.splits sum.splits)
  show "keeps (\<lambda>_ _. True) (\<lambda>_ _ _ _. True) data_guarantee (\<lambda>_ _ _. True) g w (act (emit_recorded e (prod_service e pe) rcmd t))"
    "keeps (\<lambda>_ _. True) (\<lambda>_ _ _ _. True) data_guarantee (\<lambda>_ _ _. True) g w (act (emit_opened e (prod_service e pe) ocmd a))"
    for g w rcmd t ocmd a
    by (rule data_act, auto simp: emit_recorded_def emit_opened_def data_guarantee_def Let_def
        dest: prod_append_data split: prod.splits sum.splits)+
qed (auto simp: data_guarantee_def lift_accounts_def pg_account_port_def prod_transaction_port_def prod_projector_port_def
    on_part_eq_iff intro!: data_port dest!: account_ports_data(2,3) project_data)

lemma calls_data: "data_guarantee g w g' (put_db (pw_db w\<lparr>db_calls := n\<rparr>) w)"
  unfolding data_guarantee_def by (rule data_step_frame) (simp add: data_tables_def)

interpretation prod_data: http_interference "\<lambda>_ _. True" "\<lambda>_ _ _ _. True" data_guarantee "pf_env x" "pf_service x" "pf_deps x" for x
proof (intro http_interference.intro http_interference_axioms.intro data_service)
  show "True \<and> data_guarantee g w g1 w1" if "dp_Health (pf_deps x) (g, w) rd = (rep, (g1, w1), rd1)" for g w rd rep g1 w1 rd1
    using health_calls [OF that [unfolded pf_deps_simps]] calls_data by auto
qed (simp_all, (rule data_port, drule query_ports, metis calls_data)+)

definition delivered_rows :: "pg_db \<Rightarrow> log_line list \<Rightarrow> bool" where
  "delivered_rows db log \<longleftrightarrow> (\<forall>r\<in>set (db_outbox db). ob_published r \<longrightarrow> row_line r \<in> set log)"

text \<open>Rows that the worker is about to mark are there and have been delivered.\<close>

fun worker_ok :: "pg_db \<Rightarrow> log_line list \<Rightarrow> worker \<Rightarrow> bool" where
  "worker_ok db log (Marking ids) \<longleftrightarrow> set ids \<subseteq> ob_id ` set (db_outbox db)
     \<and> (\<forall>r\<in>set (db_outbox db). ob_id r \<in> set ids \<longrightarrow> row_line r \<in> set log)"
| "worker_ok db log _ \<longleftrightarrow> True"

definition data_kept :: "(web_state \<times> prod_world, http_response) serving \<Rightarrow> log_line list \<Rightarrow> worker \<Rightarrow> bool" where
  "data_kept c log wk \<longleftrightarrow> prod_data.web.serving_ok c \<and> data_ok (pw_db (snd (sv_store c)))
     \<and> delivered_rows (pw_db (snd (sv_store c))) log \<and> worker_ok (pw_db (snd (sv_store c))) log wk"

lemma data_kept_returned: "data_kept c log Idle \<Longrightarrow> data_kept c log Returned"
  by (simp add: data_kept_def)

lemma data_kept_arrive: "data_kept c log wk \<Longrightarrow> data_kept (serving_arrive (prod_request x r) c) log wk"
  unfolding data_kept_def prod_request_def by (auto intro!: prod_data.web.serving_ok_arrive prod_data.kept_request)

lemma worker_ok_step: "worker_ok db log wk \<Longrightarrow> data_ok db \<Longrightarrow> data_step db db' \<Longrightarrow> worker_ok db' log wk"
proof (cases wk)
  case (Marking ids)
  assume ok: "worker_ok db log wk" and step: "data_ok db" "data_step db db'"
  then obtain outs where outs: "db_outbox db' = db_outbox db @ outs" "data_ok db'" by (auto simp: data_step_def)
  then have "ob_id ` set (db_outbox db) \<inter> ob_id ` set outs = {}"
    by (simp add: data_ok_def serial_keys_def outbox_keys_def)
  then have "ob_id r \<notin> set ids" if "r \<in> set outs" for r using ok that by (auto simp: Marking)
  with ok outs(1) show ?thesis by (auto simp: Marking)
qed auto

lemma data_kept_turn: "data_kept c log wk \<Longrightarrow> data_kept (serving_turn i c) log wk"
proof -
  assume J: "data_kept c log wk"
  then have ok: "prod_data.web.serving_ok c" by (simp add: data_kept_def)
  from prod_data.web.serving_ok_turn [OF ok refl, of i]
  have "prod_data.web.serving_ok (serving_turn i c)" "data_step (pw_db (snd (sv_store c))) (pw_db (snd (sv_store (serving_turn i c))))"
    by (auto simp: data_guarantee_def beside_def)
  with J worker_ok_step show ?thesis
    by (auto simp: data_kept_def data_step_def delivered_rows_def list_all_iff)
qed

lemma serving_ok_set_db: "prod_data.web.serving_ok (pr_serving p) \<Longrightarrow> prod_data.web.serving_ok (pr_serving (set_db db p))"
  by (drule prod_data.web.serving_ok_env [where g = "sv_gen (pr_serving p)" and w = "apsnd (put_db db) (sv_store (pr_serving p))"])
    (simp_all add: set_db_def beside_defs)

lemma rows_data:
  assumes "list_all2 (row_step (set log)) (db_outbox db) (db_outbox db')" "data_ok db" "delivered_rows db log"
    and "db_outbox_seq db' = db_outbox_seq db" "db_events db' = db_events db" "db_balances db' = db_balances db"
      "db_history db' = db_history db"
  shows "data_ok db' \<and> delivered_rows db' log"
proof -
  from assms(1) have same: "map ob_id (db_outbox db') = map ob_id (db_outbox db)"
    "map outbox_content (db_outbox db') = map outbox_content (db_outbox db)"
    by (auto simp: list_all2_conv_all_nth row_step_def intro!: nth_equalityI)
  from same(1) have "ob_id ` set (db_outbox db') = ob_id ` set (db_outbox db)" by (metis list.set_map)
  then have "(\<forall>r\<in>set (db_outbox db'). unat (ob_id r) \<le> n) \<longleftrightarrow> (\<forall>r\<in>set (db_outbox db). unat (ob_id r) \<le> n)" for n
    by (metis (no_types, lifting) imageE imageI)
  with same assms(2,4-) have "data_ok db'"
    by (simp add: data_ok_def serial_keys_def outbox_keys_def mirrored_def versions_unique_def history_consistent_def)
  moreover have "row_line r' \<in> set log" if "r' \<in> set (db_outbox db')" "ob_published r'" for r'
  proof -
    from assms(1) that(1) obtain r where r: "r \<in> set (db_outbox db)" "row_step (set log) r r'"
      by (metis in_set_conv_nth list_all2_conv_all_nth)
    then have "row_line r' = row_line r" "ob_published r \<or> row_line r \<in> set log"
      using that(2) by (auto simp: row_step_def dest: row_line_content)
    with r(1) assms(3) show ?thesis by (auto simp: delivered_rows_def)
  qed
  ultimately show ?thesis by (simp add: delivered_rows_def)
qed

lemma data_kept_poll:
  assumes "data_kept (pr_serving p) (pr_log p) Idle" "pg_scan_ok pe"
  shows "data_kept (pr_serving (poll pe p)) (pr_log (poll pe p)) (pr_worker (poll pe p))"
proof -
  let ?db = "pw_db (program_world p)"
  obtain ids db log where fetch: "fetch_publish pe prod_worker ?db (pr_log p) = (ids, db, log)" by (metis prod_cases3)
  have J: "prod_data.web.serving_ok (pr_serving p)" "data_ok ?db" "delivered_rows ?db (pr_log p)"
    using assms(1) by (simp_all add: data_kept_def)
  then have keys: "outbox_keys ?db" by (simp add: data_ok_def serial_keys_def)
  have pub: "ow_publisher prod_worker = LogPublisher" by (simp add: prod_worker_def NewOutboxWorker_def)
  note fetched = log_publisher.fetch_publish_delivered [OF fetch pub assms(2) keys]
    log_publisher.fetch_publish_outbox [OF fetch]
  have "delivered_rows ?db log" using J(3) fetched(1) by (auto simp: delivered_rows_def)
  then have "data_ok db \<and> delivered_rows db log"
    using J(2) batch_frames(1) [OF fetch] fetched(4) by (intro rows_data [of log ?db]) (simp_all add: list_all2_same)
  with J fetched serving_ok_set_db [OF J(1), of db] show ?thesis
    by (simp add: data_kept_def poll_def fetch)
qed

lemma data_kept_mark:
  assumes "data_kept (pr_serving p) (pr_log p) (Marking ids)"
  shows "data_kept (pr_serving (mark pe ids p)) (pr_log p) Idle"
proof -
  let ?db = "pw_db (program_world p)"
  have J: "prod_data.web.serving_ok (pr_serving p)" "data_ok ?db" "delivered_rows ?db (pr_log p)"
    and ids: "\<And>q. q \<in> set (db_outbox ?db) \<Longrightarrow> ob_id q \<in> set ids \<Longrightarrow> row_line q \<in> set (pr_log p)"
    using assms by (simp_all add: data_kept_def)
  from rows_data [OF mark_steps [OF ids] J(2,3)] batch_frames(2)
  have "data_ok (snd (MarkPublished pe ids ?db)) \<and> delivered_rows (snd (MarkPublished pe ids ?db)) (pr_log p)" by simp
  with serving_ok_set_db [OF J(1)] show ?thesis by (simp add: data_kept_def mark_def)
qed

lemma program_data:
  assumes "data_ok (pw_db w)" "delivered_rows (pw_db w) log" "pg_scan_ok (pf_pg x)"
    and "p = program_run x evs (program_start logger lo g (v, w) log)"
  shows "data_ok (pw_db (program_world p))" "delivered_rows (pw_db (program_world p)) (pr_log p)"
proof -
  have "data_kept (pr_serving p) (pr_log p) (pr_worker p)"
    unfolding assms(4)
  proof (rule program_run_invariant)
    show "data_kept (pr_serving (program_start logger lo g (v, w) log)) (pr_log (program_start logger lo g (v, w) log)) (pr_worker (program_start logger lo g (v, w) log))"
      using assms(1,2) by (simp add: program_start_def data_kept_def prod_data.web.serving_ok_def beside_inv_def)
  qed (auto intro: data_kept_arrive data_kept_turn data_kept_poll [OF _ assms(3)] data_kept_mark data_kept_returned)
  then show "data_ok (pw_db (program_world p))" "delivered_rows (pw_db (program_world p)) (pr_log p)"
    by (simp_all add: data_kept_def)
qed



lemma empty_data: "data_ok empty_db" "delivered_rows empty_db []"
  by (simp_all add: data_ok_def serial_keys_def outbox_keys_def mirrored_def versions_unique_def history_consistent_def
      delivered_rows_def empty_db_def read_balance_def)

lemma started_tables:
  "pg_accounts_inv e pe (db\<lparr>db_calls := n\<rparr>) = pg_accounts_inv e pe db"
  "pg_accounts_view e (db\<lparr>db_calls := n\<rparr>) = pg_accounts_view e db"
  "data_ok (db\<lparr>db_calls := n\<rparr>) = data_ok db" "delivered_rows (db\<lparr>db_calls := n\<rparr>) log = delivered_rows db log"
  by (simp_all add: pg_accounts_inv_def pg_accounts_view_def data_ok_def serial_keys_def outbox_keys_def mirrored_def
      versions_unique_def history_consistent_def delivered_rows_def)

subsection \<open>Properties\<close>

text \<open>The tables of a program.\<close>

abbreviation program_db :: "program \<Rightarrow> pg_db" where
  "program_db p \<equiv> pw_db (program_world p)"

text \<open>C10. Whatever the program does, its accounts stay sound: from the start of main, in every interleaving of any
  number of HTTP requests of every kind, with or without an idempotency key, with the worker, with any
  failures of the database and of Redis, and at the moment the program ends, every account is well-formed,
  and no account has been lost or has changed its identifier, name, type, currency or time of creation.
  Fewer identifiers than the generator has different ones must have been drawn.\<close>

theorem program_accounts_invariant:
  assumes "main_start be x lo log g db rd = Inr p0" "p = program_run x evs p0"
    and "pg_accounts_inv (pf_env x) (pf_pg x) db" "ids_drawn (pf_env x) g (pg_accounts_view (pf_env x) db)"
    and "uuid_unique (pf_env x) N" "drawn (sv_gen (pr_serving p)) < N"
  shows "pg_accounts_inv (pf_env x) (pf_pg x) (program_db p) \<and> accounts_ok (pg_accounts_view (pf_env x) (program_db p))
    \<and> evolves (pg_accounts_view (pf_env x) db) (pg_accounts_view (pf_env x) (program_db p))"
proof -
  from assms(1) obtain logger lo' v db' where p0: "p0 = program_start logger lo' g (v, \<lparr>pw_db = db', pw_transactions = NewTransactionRepository\<rparr>) log"
    and db': "\<exists>n. db' = db\<lparr>db_calls := n\<rparr>" by (rule main_start_program)
  let ?w = "\<lparr>pw_db = db', pw_transactions = NewTransactionRepository\<rparr>"
  have "prod_inv (pf_env x) (pf_pg x) ?w" "ids_drawn (pf_env x) g (prod_view (pf_env x) ?w)"
    using assms(3,4) db' by (auto simp: started_tables prod_inv_def prod_view_def)
  from program_accounts [OF this assms(2) [unfolded p0] assms(5,6)] prod_ledger.view_ok [of "pf_env x" "pf_pg x" "program_world p"]
  show ?thesis using db' by (auto simp: started_tables prod_inv_def prod_view_def)
qed

theorem program_accounts_invariant_witness:
  "case main_start sample_boot sample_platform \<lparr>lo_default = None, lo_stdout = []\<rparr> [] used_gen (pw_db sample_prod) empty_redis of
     Inl n \<Rightarrow> False
   | Inr p0 \<Rightarrow>
       (let p = program_run sample_platform [Request sample_deposit, Progress 0, Poll, Mark, Signal, Shutdown, MainReturns] p0
        in pg_accounts_inv sample_env sample_pg (program_db p) \<and> accounts_ok (pg_accounts_view sample_env (program_db p))
          \<and> evolves (pg_accounts_view sample_env (pw_db sample_prod)) (pg_accounts_view sample_env (program_db p)))"
proof -
  let ?evs = "[Request sample_deposit, Progress 0, Poll, Mark, Signal, Shutdown, MainReturns]"
  have few: "drawn (sv_gen (pr_serving (program_run sample_platform ?evs sample_program))) < 1000"
    by (simp add: sample_program_def program_start_def serving_turn_def prod_request_def request_proc_def draw_def step_act
        time_Now_def poll_def mark_def used_gen_def cong: bind_cong_first split: prod.splits worker.splits)
  have "pg_accounts_inv sample_env sample_pg (pw_db sample_prod)" "ids_drawn sample_env used_gen (pg_accounts_view sample_env (pw_db sample_prod))"
    using sample_prod_inv sample_prod_ids by (simp_all add: prod_inv_def prod_view_def)
  from program_accounts_invariant [OF sample_main_program refl this [folded sample_platform_simps] sample_env_unique
      [folded sample_platform_simps(1)] few]
  show ?thesis by (simp only: sample_main_program sum.case Let_def sample_platform_simps)
qed

text \<open>C11. Whatever the program does, its tables agree: from the start of main, in every interleaving of HTTP
  requests and worker and at the moment the program ends, every event has its outbox row, no aggregate has
  two events with one version, outbox keys are distinct, the balance of an account in the read model is the
  one after its last history row, and every row marked published has been delivered.\<close>

theorem program_data_invariant:
  assumes "main_start be x lo log g db rd = Inr p0" "p = program_run x evs p0"
    and "data_ok db" "delivered_rows db log" "pg_scan_ok (pf_pg x)"
  shows "data_ok (program_db p) \<and> delivered_rows (program_db p) (pr_log p)"
proof -
  from assms(1) obtain logger lo' v db' where p0: "p0 = program_start logger lo' g (v, \<lparr>pw_db = db', pw_transactions = NewTransactionRepository\<rparr>) log"
    and db': "\<exists>n. db' = db\<lparr>db_calls := n\<rparr>" by (rule main_start_program)
  with assms(3,4)
  have "data_ok (pw_db \<lparr>pw_db = db', pw_transactions = NewTransactionRepository\<rparr>)"
    "delivered_rows (pw_db \<lparr>pw_db = db', pw_transactions = NewTransactionRepository\<rparr>) log" by (auto simp: started_tables)
  from program_data [OF this assms(5) assms(2) [unfolded p0]] show ?thesis by simp
qed

theorem program_data_invariant_witness:
  "case main_start sample_boot sample_platform \<lparr>lo_default = None, lo_stdout = []\<rparr> [] sample_gen empty_db empty_redis of
     Inl n \<Rightarrow> False
   | Inr p0 \<Rightarrow>
       (let p = program_run sample_platform
           [Request sample_payment, Progress 0, Progress 0, Poll, Mark, Signal, Shutdown, MainReturns] p0
        in data_ok (program_db p) \<and> delivered_rows (program_db p) (pr_log p))"
proof -
  obtain p0 where p0: "main_start sample_boot sample_platform \<lparr>lo_default = None, lo_stdout = []\<rparr> [] sample_gen empty_db empty_redis = Inr p0"
    using sample_main by blast
  have "pg_scan_ok (pf_pg sample_platform)" using sample_pg_quiet by (simp add: pg_quiet_def)
  from program_data_invariant [OF p0 refl empty_data this] show ?thesis by (simp only: p0 sum.case Let_def)
qed

end
