(* ===== verification/Program_Schedules.thy ===== *)
theory Program_Schedules
  imports Program_Lifecycle
begin

section \<open>Schedules that go wrong\<close>

text \<open>
  Two runs of the program, from the HTTP request to the tables: a signal that cuts a transaction, and two first
  deposits that race for the system account.
\<close>

subsection \<open>Turns of a request\<close>

lemmas turn_simps = draw_def port_def redis_port_def and_then_def step_act bind_assoc lift_bind lift_act

text \<open>A transaction up to the moment its first leg is saved.\<close>

definition first_leg :: "env \<Rightarrow> 'w LedgerService \<Rightarrow> RecordTransactionCmd \<Rightarrow> gen \<Rightarrow> 'w \<Rightarrow> (gen \<times> 'w) option" where
  "first_leg e s cmd g w =
     (case cmd_params 0 (rc_Entries cmd) of Inl _ \<Rightarrow> None | Inr params \<Rightarrow>
     (case NewTransaction e params (rc_Description cmd) g of (Inl _, _) \<Rightarrow> None | (Inr tx, g1) \<Rightarrow>
     (case Transaction_Entries tx of [] \<Rightarrow> None | x # xs \<Rightarrow>
     (case find_leg e s x g1 w of (Inl _, _, _) \<Rightarrow> None | (Inr acc, g2, w2) \<Rightarrow>
     (case acc_Save (ls_accounts s) acc w2 of (Inl _, _) \<Rightarrow> None | (Inr _, w3) \<Rightarrow> Some (g2, w3))))))"

fun proc_steps :: "nat \<Rightarrow> ('w, 'a) proc \<Rightarrow> gen \<Rightarrow> 'w \<Rightarrow> ('w, 'a) proc \<times> gen \<times> 'w" where
  "proc_steps 0 p g w = (p, g, w)"
| "proc_steps (Suc n) p g w = (case proc_step p g w of (q, g1, w1) \<Rightarrow> proc_steps n q g1 w1)"

lemma turns_steps:
  "i < length ps \<Longrightarrow> (serving_turn i ^^ n) \<lparr>sv_procs = ps, sv_gen = g, sv_store = w\<rparr> =
     (case proc_steps n (ps ! i) g w of (p, g1, w1) \<Rightarrow> \<lparr>sv_procs = ps[i := p], sv_gen = g1, sv_store = w1\<rparr>)"
proof (induction n arbitrary: ps g w)
  case (Suc n)
  obtain p g1 w1 where p: "proc_step (ps ! i) g w = (p, g1, w1)" by (metis prod_cases3)
  from Suc.prems Suc.IH [of "ps[i := p]" g1 w1] show ?case
    by (simp add: funpow_Suc_right serving_turn_def p del: funpow.simps split: prod.splits)
qed simp

lemma first_leg_steps:
  assumes "route r = EP_RecordTransaction" "is_write r" "request_key r \<noteq> ''''"
    and req: "we_record (pf_web x) (rq_Body r) = Some req" "entry_cmds (pf_env x) (rt_Entries req) = Some entries"
    and redis: "Check (pf_redis x) (request_key r) (wb_redis v) = (Inr None, rd1)"
      "Lock (pf_redis x) (request_key r) rd1 = (Inr True, rd2)"
    and leg: "time_Now (pf_env x) g = (now, g1)"
      "first_leg (pf_env x) (pf_service x) \<lparr>rc_Entries = entries, rc_Description = rt_Description req\<rparr> g1 w = Some (g', w')"
  shows "\<exists>q. proc_steps 6 (prod_request x r) g (v, w) = (q, g', v\<lparr>wb_redis := rd2\<rparr>, w')"
proof -
  have "prod_request x r = bind_proc (draw (time_Now (pf_env x))) (\<lambda>start.
      bind_proc (middleware_proc (we_text (pf_web x)) (pf_redis x) NewIdempotencyStore r
        (lift_proc (http_RecordTransaction_proc (pf_env x) (pf_web x) (dp_Handler (pf_deps x)) r)))
      (count_proc (pf_env x) (pf_pattern x) r start))"
    using assms(1) by (simp add: prod_request_def request_proc_def routed_proc_def api_proc_def Let_def)
  then show ?thesis
    using assms(2,3) leg(2)
    unfolding first_leg_def
    by (auto simp: eval_nat_numeral middleware_proc_defs Let_def http_RecordTransaction_proc_def req redis leg(1)
        RecordTransaction_proc_def turn_simps cong: bind_cong_first split: sum.splits prod.splits list.splits)
qed

definition deposit_with_new ::
  "env \<Rightarrow> 'w LedgerService \<Rightarrow> AccountID \<Rightarrow> int64 \<Rightarrow> Currency \<Rightarrow> string \<Rightarrow> gen \<Rightarrow> 'w \<Rightarrow> (error + unit) \<times> gen \<times> 'w" where
  "deposit_with_new e s i n c d g w =
     (case OpenAccount e s \<lparr>oc_Name = equity_name c, oc_AccountType = ''EQUITY'', oc_Currency = c\<rparr> g w of
        (Inl err, g1, w1) \<Rightarrow> (Inl (Wrap ''get system equity'' err), g1, w1)
      | (Inr equityAcc, g1, w1) \<Rightarrow>
          (case RecordTransaction e s \<lparr>rc_Entries =
               [\<lparr>ec_AccountID = a_id equityAcc, ec_Amount = n, ec_Currency = c, ec_Type = Debit\<rparr>,
                \<lparr>ec_AccountID = i, ec_Amount = n, ec_Currency = c, ec_Type = Credit\<rparr>],
             rc_Description = d\<rparr> g1 w1 of
             (Inl err, g2, w2) \<Rightarrow> (Inl err, g2, w2)
           | (Inr _, g2, w2) \<Rightarrow> (Inr (), g2, w2)))"

definition no_equity :: "'w LedgerService \<Rightarrow> Currency \<Rightarrow> 'w \<Rightarrow> 'w option" where
  "no_equity s c w = (case acc_FindAll (ls_accounts s) w of
     (Inl _, _) \<Rightarrow> None | (Inr all, w1) \<Rightarrow> if account_named (equity_name c) all = None then Some w1 else None)"

text \<open>A deposit request that has looked for the system account and has not found it.\<close>

lemma no_equity_step:
  assumes "no_equity s c w = Some w1"
  obtains q where "\<And>g v l. proc_step (bind_proc (lift_proc (bind_proc (Deposit_proc e s i n c d) k)) l) g (v, w)
      = (bind_proc (lift_proc (bind_proc q k)) l, g, v, w1)"
    "\<And>g w. run_proc q g w = deposit_with_new e s i n c d g w"
proof
  let ?cmd = "\<lparr>oc_Name = equity_name c, oc_AccountType = ''EQUITY'', oc_Currency = c\<rparr>"
  let ?q = "and_then (OpenAccount_proc e s ?cmd) (Wrap ''get system equity'') (\<lambda>equityAcc.
     and_then (RecordTransaction_proc e s
         \<lparr>rc_Entries =
            [\<lparr>ec_AccountID = a_id equityAcc, ec_Amount = n, ec_Currency = c, ec_Type = Debit\<rparr>,
             \<lparr>ec_AccountID = i, ec_Amount = n, ec_Currency = c, ec_Type = Credit\<rparr>],
          rc_Description = d\<rparr>) id (\<lambda>_. Return (Inr ())))"
  obtain all where "acc_FindAll (ls_accounts s) w = (Inr all, w1)" "account_named (equity_name c) all = None"
    using assms by (auto simp: no_equity_def split: prod.splits sum.splits if_splits)
  then show "proc_step (bind_proc (lift_proc (bind_proc (Deposit_proc e s i n c d) k)) l) g (v, w)
      = (bind_proc (lift_proc (bind_proc ?q k)) l, g, v, w1)" for g v l
    by (simp add: Deposit_proc_def system_proc_def turn_simps cong: bind_cong_first)
  show "run_proc ?q g w = deposit_with_new e s i n c d g w" for g w
    by (simp add: deposit_with_new_def run_open run_record split: sum.splits prod.splits)
qed

text \<open>What a deposit request asks for.\<close>

definition deposit_args :: "platform \<Rightarrow> http_request \<Rightarrow> (AccountID \<times> int64 \<times> Currency \<times> string) option" where
  "deposit_args x r =
     (case we_deposit (pf_web x) (rq_Body r) of None \<Rightarrow> None | Some req \<Rightarrow>
     (case NewAccountID (pf_env x) (dq_AccountID req) of Inl _ \<Rightarrow> None | Inr i \<Rightarrow>
      let n = cents (we_big (pf_web x)) (dq_Amount req) in
      if sint n \<le> 0 then None
      else Some (i, n, currency_or_USD (dq_Currency req), text_or ''Deposit'' (dq_Description req))))"

lemma no_equity_steps:
  assumes "route r = EP_Deposit" "request_key r = ''''" "deposit_args x r = Some (i, n, c, d)"
    and "no_equity (pf_service x) c w = Some w1"
  obtains q where "\<And>v. proc_steps 2 (prod_request x r) g (v, w) = (q, snd (time_Now (pf_env x) g), v, w1)"
    "\<And>g v w g' w'. deposit_with_new (pf_env x) (pf_service x) i n c d g w = (Inr (), g', w') \<Longrightarrow>
      \<exists>resp v'. run_proc q g (v, w) = (resp, snd (time_Now (pf_env x) g'), v', w') \<and> rs_status resp = 200"
proof -
  define start where "start = fst (time_Now (pf_env x) g)"
  let ?count = "count_proc (pf_env x) (pf_pattern x) r start"
  let ?answer = "\<lambda>res :: error + unit. Return (case res of
        Inl err \<Rightarrow> writeJSON (we_text (pf_web x)) [] 422 (errorResponse (error_Error err))
      | Inr _ \<Rightarrow> writeJSON (we_text (pf_web x)) [] 200 (Some (JObject [(''status'', JString ''deposited'')])))"
  have first: "proc_step (prod_request x r) g (v, w) = (bind_proc (lift_proc (bind_proc
      (Deposit_proc (pf_env x) (pf_service x) i n c d) ?answer)) ?count, snd (time_Now (pf_env x) g), v, w)" for v w
    using assms(1-3) unfolding prod_request_def request_proc_def draw_def step_act
    by (auto simp: routed_proc_def api_proc_def middleware_proc_def http_Deposit_proc_def deposit_args_def Let_def time_Now_def
        start_def split: option.splits sum.splits if_splits)
  obtain q where q: "\<And>g v l. proc_step (bind_proc (lift_proc (bind_proc (Deposit_proc (pf_env x) (pf_service x) i n c d) ?answer)) l)
        g (v :: web_state, w)
      = (bind_proc (lift_proc (bind_proc q ?answer)) l :: (_, http_response) proc, g, v, w1)"
    "\<And>g w. run_proc q g w = deposit_with_new (pf_env x) (pf_service x) i n c d g w"
    by (rule no_equity_step [OF assms(4), where e = "pf_env x" and i = i and n = n and d = d and k = ?answer]) blast
  show ?thesis
  proof (rule that)
    show "proc_steps 2 (prod_request x r) g (v, w) = (bind_proc (lift_proc (bind_proc q ?answer)) ?count,
        snd (time_Now (pf_env x) g), v, w1)" for v
      by (simp only: numeral_2_eq_2 proc_steps.simps first q(1) prod.case)
  next
    fix g v w g' w' assume "deposit_with_new (pf_env x) (pf_service x) i n c d g w = (Inr (), g', w')"
    then show "\<exists>resp v'. run_proc (bind_proc (lift_proc (bind_proc q ?answer)) ?count) g (v, w)
        = (resp, snd (time_Now (pf_env x) g'), v', w') \<and> rs_status resp = 200"
      by (simp add: q(2) writeJSON_def Recoverer_def count_proc_def count_request_def time_Now_def Let_def)
  qed
qed

text \<open>The same deposit asked for twice: both requests look for the system account, then one runs to its end and
  the other one after it.\<close>

definition racing_deposits ::
  "env \<Rightarrow> 'w LedgerService \<Rightarrow> AccountID \<times> int64 \<times> Currency \<times> string \<Rightarrow> gen \<Rightarrow> 'w \<Rightarrow> 'w option" where
  "racing_deposits e s args g w =
     (case args of (i, n, c, d) \<Rightarrow>
     (case no_equity s c w of None \<Rightarrow> None | Some w1 \<Rightarrow>
     (case no_equity s c w1 of None \<Rightarrow> None | Some w2 \<Rightarrow>
     (case deposit_with_new e s i n c d (snd (time_Now e (snd (time_Now e g)))) w2 of (Inl _, _) \<Rightarrow> None | (Inr _, g3, w3) \<Rightarrow>
     (case deposit_with_new e s i n c d (snd (time_Now e g3)) w3 of (Inl _, _) \<Rightarrow> None | (Inr _, g4, w4) \<Rightarrow> Some w4)))))"

lemma racing_turns:
  assumes "route r = EP_Deposit" "request_key r = ''''" "deposit_args x r = Some args"
    and "racing_deposits (pf_env x) (pf_service x) args g w = Some w'"
  obtains k m resp resp' g' v' where
    "(serving_turn 1 ^^ m) ((serving_turn 0 ^^ k) ((serving_turn 1 ^^ 2) ((serving_turn 0 ^^ 2)
       \<lparr>sv_procs = [prod_request x r, prod_request x r], sv_gen = g, sv_store = (v, w)\<rparr>)))
     = \<lparr>sv_procs = [Return resp, Return resp'], sv_gen = g', sv_store = (v', w')\<rparr>"
    "rs_status resp = 200" "rs_status resp' = 200"
proof -
  let ?e = "pf_env x" and ?s = "pf_service x" and ?r = "prod_request x r"
  obtain i n c d where args: "args = (i, n, c, d)" by (cases args)
  let ?g1 = "snd (time_Now ?e g)"
  let ?g2 = "snd (time_Now ?e ?g1)"
  from assms(4) obtain w1 w2 g3 w3 g4 where no: "no_equity ?s c w = Some w1" "no_equity ?s c w1 = Some w2"
    and dep: "deposit_with_new ?e ?s i n c d ?g2 w2 = (Inr (), g3, w3)"
      "deposit_with_new ?e ?s i n c d (snd (time_Now ?e g3)) w3 = (Inr (), g4, w')"
    by (auto simp: racing_deposits_def args split: option.splits prod.splits sum.splits)
  obtain q where q: "\<And>v. proc_steps 2 ?r g (v, w) = (q, ?g1, v, w1)"
    "\<And>g v w g' w'. deposit_with_new ?e ?s i n c d g w = (Inr (), g', w') \<Longrightarrow>
      \<exists>resp v'. run_proc q g (v, w) = (resp, snd (time_Now ?e g'), v', w') \<and> rs_status resp = 200"
    using no_equity_steps [OF assms(1-3) [unfolded args] no(1), of g] by blast
  obtain q' where q': "\<And>v. proc_steps 2 ?r ?g1 (v, w1) = (q', ?g2, v, w2)"
    "\<And>g v w g' w'. deposit_with_new ?e ?s i n c d g w = (Inr (), g', w') \<Longrightarrow>
      \<exists>resp v'. run_proc q' g (v, w) = (resp, snd (time_Now ?e g'), v', w') \<and> rs_status resp = 200"
    using no_equity_steps [OF assms(1-3) [unfolded args] no(2), of ?g1] by blast
  obtain resp v1 where resp: "run_proc q ?g2 (v, w2) = (resp, snd (time_Now ?e g3), v1, w3)" "rs_status resp = 200"
    using q(2) [OF dep(1)] by blast
  obtain resp' v2 where resp': "run_proc q' (snd (time_Now ?e g3)) (v1, w3) = (resp', snd (time_Now ?e g4), v2, w')" "rs_status resp' = 200"
    using q'(2) [OF dep(2)] by blast
  obtain k where k: "(serving_turn 0 ^^ k) \<lparr>sv_procs = [q, q'], sv_gen = ?g2, sv_store = (v, w2)\<rparr>
      = \<lparr>sv_procs = [Return resp, q'], sv_gen = snd (time_Now ?e g3), sv_store = (v1, w3)\<rparr>"
    using turns_finish [of 0 "[q, q']" ?g2 "(v, w2)"] resp(1) by auto
  obtain m where m: "(serving_turn 1 ^^ m) \<lparr>sv_procs = [Return resp, q'], sv_gen = snd (time_Now ?e g3), sv_store = (v1, w3)\<rparr>
      = \<lparr>sv_procs = [Return resp, Return resp'], sv_gen = snd (time_Now ?e g4), sv_store = (v2, w')\<rparr>"
    using turns_finish [of 1 "[Return resp, q']" "snd (time_Now ?e g3)" "(v1, w3)"] resp'(1) by auto
  have "(serving_turn 1 ^^ 2) ((serving_turn 0 ^^ 2) \<lparr>sv_procs = [?r, ?r], sv_gen = g, sv_store = (v, w)\<rparr>)
      = \<lparr>sv_procs = [q, q'], sv_gen = ?g2, sv_store = (v, w2)\<rparr>"
    by (simp add: turns_steps q(1) q'(1) del: funpow.simps)
  with k m show ?thesis by (intro that [where k = k and m = m, OF _ resp(2) resp'(2)]) simp
qed

subsection \<open>Properties\<close>

lemma sample_payment_parts:
  "route sample_payment = EP_RecordTransaction" "is_write sample_payment" "request_key sample_payment = ''k1''"
  "we_record (pf_web sample_platform) (rq_Body sample_payment) = we_record sample_record_web ''''"
  by (simp_all add: sample_payment_def post_with_def is_write_def request_key_def route_def api_route_def sample_platform_def)

lemma sample_request:
  "\<exists>req. we_record sample_record_web '''' = Some req \<and> entry_cmds sample_env (rt_Entries req) = Some (rc_Entries (sample_cmd 40 8))
    \<and> rt_Description req = rc_Description (sample_cmd 40 8)"
proof -
  have "case we_record sample_record_web '''' of None \<Rightarrow> False | Some req \<Rightarrow>
      entry_cmds sample_env (rt_Entries req) = Some (rc_Entries (sample_cmd 40 8))
      \<and> rt_Description req = rc_Description (sample_cmd 40 8)"
    by code_simp
  then show ?thesis by (auto split: option.splits)
qed

text \<open>The first leg of the sample payment has been saved when the program ends.\<close>

lemma sample_cut:
  "case first_leg sample_env (prod_service sample_env sample_pg) (sample_cmd 40 8) (snd (time_Now sample_env used_gen)) sample_started of
     None \<Rightarrow> False
   | Some (g, w) \<Rightarrow> map_option funds (prod_view sample_env w (AccountID 7)) = Some 60
       \<and> map_option funds (prod_view sample_env w (AccountID 8)) = Some (- 100) \<and> db_events (pw_db w) = []"
  by code_simp

lemma sample_redis_turns:
  obtains rd1 rd2 where "Check sample_redis ''k1'' (wb_redis sample_web_state) = (Inr None, rd1)"
    "Lock sample_redis ''k1'' rd1 = (Inr True, rd2)" "rd_data rd2 (idempotencyLock ''k1'') \<noteq> None" "rd_data rd2 (idempotencyKey ''k1'') = None"
proof -
  have "case Check sample_redis ''k1'' (wb_redis sample_web_state) of (Inr None, rd1) \<Rightarrow>
      (case Lock sample_redis ''k1'' rd1 of (Inr True, rd2) \<Rightarrow>
         rd_data rd2 (idempotencyLock ''k1'') \<noteq> None \<and> rd_data rd2 (idempotencyKey ''k1'') = None | _ \<Rightarrow> False) | _ \<Rightarrow> False"
    by code_simp
  then show ?thesis by (auto intro: that split: prod.splits sum.splits option.splits bool.splits)
qed

text \<open>C16. A signal cuts requests off: Shutdown is called in a goroutine, ListenAndServe returns at once, and main
  does not wait. A transaction request that has debited its first account when the signal comes is never
  finished, although the program ends normally: the debited amount is in no other account, there is no
  event of it, and Redis keeps the lock of its key without a response.\<close>

theorem shutdown_cuts_transaction:
  "let p = program_run sample_platform
       (Request sample_payment # replicate 6 (Progress 0) @ [Signal, Shutdown, MainReturns] @ evs) sample_program;
       rd = wb_redis (fst (sv_store (pr_serving p)))
   in pr_phase p = Terminated 0
      \<and> map_option funds (prod_view sample_env (program_world p) (AccountID 7)) = Some 60
      \<and> map_option funds (prod_view sample_env (program_world p) (AccountID 8)) = Some (- 100)
      \<and> db_events (pw_db (program_world p)) = []
      \<and> rd_data rd (idempotencyLock ''k1'') \<noteq> None \<and> rd_data rd (idempotencyKey ''k1'') = None"
proof -
  let ?s = "prod_service sample_env sample_pg" and ?g = "snd (time_Now sample_env used_gen)"
  obtain g w where leg: "first_leg sample_env ?s (sample_cmd 40 8) ?g sample_started = Some (g, w)"
    and w: "map_option funds (prod_view sample_env w (AccountID 7)) = Some 60"
      "map_option funds (prod_view sample_env w (AccountID 8)) = Some (- 100)" "db_events (pw_db w) = []"
    using sample_cut by (auto split: option.splits prod.splits)
  obtain rd1 rd2 where rd: "Check sample_redis ''k1'' (wb_redis sample_web_state) = (Inr None, rd1)"
    "Lock sample_redis ''k1'' rd1 = (Inr True, rd2)" "rd_data rd2 (idempotencyLock ''k1'') \<noteq> None" "rd_data rd2 (idempotencyKey ''k1'') = None"
    by (rule sample_redis_turns)
  obtain req where req: "we_record sample_record_web '''' = Some req" "entry_cmds sample_env (rt_Entries req) = Some (rc_Entries (sample_cmd 40 8))"
    "rt_Description req = rc_Description (sample_cmd 40 8)"
    using sample_request by blast
  have "first_leg sample_env ?s \<lparr>rc_Entries = rc_Entries (sample_cmd 40 8), rc_Description = rt_Description req\<rparr> ?g sample_started
      = Some (g, w)"
    using leg req(3) by (simp add: sample_cmd_def)
  then have "\<exists>q. proc_steps 6 (prod_request sample_platform sample_payment) used_gen (sample_web_state, sample_started)
      = (q, g, sample_web_state\<lparr>wb_redis := rd2\<rparr>, w)"
    using rd req(1,2) by (intro first_leg_steps [where now = "fst (time_Now sample_env used_gen)" and ?g1.0 = ?g])
      (auto simp: sample_payment_parts)
  then obtain q where q: "(serving_turn 0 ^^ 6) \<lparr>sv_procs = [prod_request sample_platform sample_payment], sv_gen = used_gen,
      sv_store = (sample_web_state, sample_started)\<rparr>
      = \<lparr>sv_procs = [q], sv_gen = g, sv_store = (sample_web_state\<lparr>wb_redis := rd2\<rparr>, w)\<rparr>"
    by (auto simp: turns_steps simp del: funpow.simps)
  with w rd(3,4) show ?thesis
    by (simp add: sample_program_def program_start_def serving_arrive_def program_run_append progress_run terminated_run
       del: map_option_eq_Some funpow.simps)
qed

lemma sample_deposit_parts:
  "route sample_deposit = EP_Deposit" "request_key sample_deposit = ''''"
  by (simp_all add: sample_deposit_def post_with_def request_key_def route_def api_route_def)

definition accounts_named :: "string \<Rightarrow> prod_world \<Rightarrow> int" where
  "accounts_named name w = int (length (filter (\<lambda>r. ar_name r = name) (db_accounts (pw_db w))))"

lemma sample_race_deposits:
  "case deposit_args sample_platform sample_deposit of None \<Rightarrow> False | Some args \<Rightarrow>
     (case racing_deposits sample_env (prod_service sample_env sample_pg) args used_gen sample_started of None \<Rightarrow> False
      | Some w \<Rightarrow> accounts_named (equity_name USD) w = 2)"
  by code_simp

text \<open>C17. Two first deposits at the same time open two system accounts of one name: each request looks for the
  account before the other one has saved it, and both deposits are answered with 200.\<close>

theorem system_account_twice:
  "\<exists>evs resp resp'. set evs \<subseteq> {Progress 0, Progress 1}
     \<and> (let p = program_run sample_platform ([Request sample_deposit, Request sample_deposit] @ evs) sample_program in
        sv_procs (pr_serving p) = [Return resp, Return resp'] \<and> rs_status resp = 200 \<and> rs_status resp' = 200
        \<and> accounts_named (equity_name USD) (program_world p) = 2)"
proof -
  obtain args w where race: "deposit_args sample_platform sample_deposit = Some args"
    "racing_deposits (pf_env sample_platform) (pf_service sample_platform) args used_gen sample_started = Some w"
    and two: "accounts_named (equity_name USD) w = 2"
    using sample_race_deposits by (auto split: option.splits)
  obtain k m resp resp' g v where turns: "(serving_turn 1 ^^ m) ((serving_turn 0 ^^ k) ((serving_turn 1 ^^ 2) ((serving_turn 0 ^^ 2)
       \<lparr>sv_procs = [prod_request sample_platform sample_deposit, prod_request sample_platform sample_deposit],
        sv_gen = used_gen, sv_store = (sample_web_state, sample_started)\<rparr>)))
     = \<lparr>sv_procs = [Return resp, Return resp'], sv_gen = g, sv_store = (v, w)\<rparr>" "rs_status resp = 200" "rs_status resp' = 200"
    by (rule racing_turns [OF sample_deposit_parts race])
  let ?evs = "replicate 2 (Progress 0) @ replicate 2 (Progress 1) @ replicate k (Progress 0) @ replicate m (Progress 1)"
  have "pr_serving (program_run sample_platform ([Request sample_deposit, Request sample_deposit] @ ?evs) sample_program)
      = \<lparr>sv_procs = [Return resp, Return resp'], sv_gen = g, sv_store = (v, w)\<rparr>"
    using turns(1) by (simp add: sample_program_def program_start_def serving_arrive_def program_run_append progress_run
       del: funpow.simps replicate.simps)
  with two turns(2,3) show ?thesis by (intro exI [of _ ?evs] exI [of _ resp] exI [of _ resp']) (auto simp: Let_def)
qed

end
