(* ===== verification/Request_Stages.thy ===== *)
theory Request_Stages
  imports Program_Lifecycle
begin

section \<open>Mutual exclusion in the running program\<close>

text \<open>
  Where a request of the program stands: the phases of the idempotency middleware, with a handler that is a
  process of its own. The stages simulate the processes of the program step by step, whatever else happens
  in between, so that the lock discipline proved of the phases holds for handlers that interleave.
\<close>

subsection \<open>Stages\<close>

datatype stage =
    Arrived
  | Pinging time
  | Running time phase "(prod_world, reply) proc"
  | Replied http_response

text \<open>What is left to do in a phase; the handler is what remains of it.\<close>

fun phase_proc :: "platform \<Rightarrow> http_request \<Rightarrow> (prod_world, reply) proc \<Rightarrow> phase \<Rightarrow> (web_state \<times> prod_world, reply) proc" where
  "phase_proc x r q Passing = lift_proc q"
| "phase_proc x r q Checking = middleware_proc (we_text (pf_web x)) (pf_redis x) NewIdempotencyStore r (lift_proc q)"
| "phase_proc x r q (ReadingStatus cached) = replay_proc (pf_redis x) (request_key r) cached"
| "phase_proc x r q Locking = lock_proc (we_text (pf_web x)) (pf_redis x) NewIdempotencyStore (request_key r) (lift_proc q)"
| "phase_proc x r q Serving = locked_proc (pf_redis x) NewIdempotencyStore (request_key r) (lift_proc q)"
| "phase_proc x r q (StoringBody resp) = store_proc (pf_redis x) NewIdempotencyStore (request_key r) resp"
| "phase_proc x r q (StoringStatus resp e1) = status_proc (pf_redis x) NewIdempotencyStore (request_key r) resp e1"
| "phase_proc x r q (Releasing resp e12) = release_proc (pf_redis x) (request_key r) resp e12"
| "phase_proc x r q (Unlocking resp) = bind_proc (redis_port (Unlock (pf_redis x) (request_key r))) (\<lambda>_. Return (Reply resp))"
| "phase_proc x r q (Done rep) = Return rep"

definition counted :: "platform \<Rightarrow> http_request \<Rightarrow> time \<Rightarrow> reply \<Rightarrow> (web_state \<times> prod_world, http_response) proc" where
  "counted x r start = count_proc (pf_env x) (pf_pattern x) r start"

fun stage_proc :: "platform \<Rightarrow> http_request \<Rightarrow> stage \<Rightarrow> (web_state \<times> prod_world, http_response) proc" where
  "stage_proc x r Arrived = prod_request x r"
| "stage_proc x r (Pinging start) = bind_proc (health_proc (pf_deps x)) (counted x r start)"
| "stage_proc x r (Running start ph q) = bind_proc (phase_proc x r q ph) (counted x r start)"
| "stage_proc x r (Replied resp) = Return resp"

text \<open>A handler that has returned, or a middleware that has, leads on at once.\<close>

definition finish :: "time \<Rightarrow> reply \<Rightarrow> stage" where
  "finish start rep = (case rep of Panicked \<Rightarrow> Replied (Recoverer Panicked) | Reply resp \<Rightarrow> Running start (Done rep) (Return rep))"

definition enter :: "time \<Rightarrow> phase \<Rightarrow> (prod_world, reply) proc \<Rightarrow> stage" where
  "enter start ph q =
     (case ph of
        Passing \<Rightarrow> (case q of Return rep \<Rightarrow> finish start rep | Call f \<Rightarrow> Running start ph q)
      | Serving \<Rightarrow>
          (case q of Return (Reply resp) \<Rightarrow> Running start (StoringBody resp) q | Return Panicked \<Rightarrow> finish start Panicked
           | Call f \<Rightarrow> Running start ph q)
      | Done rep \<Rightarrow> finish start rep
      | _ \<Rightarrow> Running start ph q)"

definition no_handler :: "unit handler" where
  "no_handler r s = (Panicked, s)"

definition stage_step ::
  "platform \<Rightarrow> http_request \<Rightarrow> stage \<Rightarrow> gen \<Rightarrow> web_state \<times> prod_world \<Rightarrow> stage \<times> gen \<times> web_state \<times> prod_world" where
  "stage_step x r st g s =
     (case st of
        Arrived \<Rightarrow>
          (case time_Now (pf_env x) g of (start, g1) \<Rightarrow>
             (if route r = EP_Health then Pinging start
              else enter start (mw_start r) (api_proc (pf_env x) (pf_web x) (dp_Handler (pf_deps x)) (pf_static x) r), g1, s))
      | Pinging start \<Rightarrow>
          (case dp_Health (pf_deps x) (g, snd s) (wb_redis (fst s)) of
             (rep, (g1, w1), rd1) \<Rightarrow> (finish start rep, g1, (fst s)\<lparr>wb_redis := rd1\<rparr>, w1))
      | Running start ph q \<Rightarrow>
          (case ph of
             Done (Reply resp) \<Rightarrow>
               (case count_request (pf_env x) (pf_pattern x) r start resp g s of (_, g1, s1) \<Rightarrow> (Replied (Recoverer (Reply resp)), g1, s1))
           | Done Panicked \<Rightarrow> (Replied (Recoverer Panicked), g, s)
           | _ \<Rightarrow>
               if ph = Passing \<or> ph = Serving
               then (case proc_step q g (snd s) of (q1, g1, w1) \<Rightarrow> (enter start ph q1, g1, fst s, w1))
               else (case mw_step (we_text (pf_web x)) (pf_redis x) NewIdempotencyStore no_handler r ph (wb_redis (fst s)) () of
                       (ph1, rd1, _) \<Rightarrow> (enter start ph1 q, g, (fst s)\<lparr>wb_redis := rd1\<rparr>, snd s)))
      | Replied resp \<Rightarrow> (Replied resp, g, s))"

text \<open>A handler that is served has a call to make, and a request in the middleware has a key.\<close>

definition settled :: "http_request \<Rightarrow> stage \<Rightarrow> bool" where
  "settled r st \<longleftrightarrow> (case st of
     Running start ph q \<Rightarrow> (ph \<in> {Passing, Serving} \<longrightarrow> (\<exists>f. q = Call f)) \<and> (ph = Checking \<longrightarrow> is_write r \<and> request_key r \<noteq> '''')
       \<and> ph \<noteq> Done Panicked
   | _ \<Rightarrow> True)"

lemma enter_proc:
  "stage_proc x r (enter start ph q) = bind_proc (phase_proc x r q ph) (counted x r start)"
  by (auto simp: enter_def finish_def counted_def count_proc_def locked_proc_def split: phase.splits proc.splits reply.splits)

lemma enter_settled: "(ph = Checking \<Longrightarrow> is_write r \<and> request_key r \<noteq> '''') \<Longrightarrow> settled r (enter start ph q)"
  by (auto simp: enter_def finish_def settled_def split: phase.splits proc.splits reply.splits)

lemma finish_proc: "stage_proc x r (finish start rep) = counted x r start rep" "settled r (finish start rep)"
  by (auto simp: finish_def counted_def count_proc_def settled_def split: reply.splits)

subsection \<open>Stages follow the processes\<close>

lemma step_redis:
  "proc_step (bind_proc (bind_proc (redis_port f) k) l) g s =
     (case f (wb_redis (fst s)) of (a, rd) \<Rightarrow> (bind_proc (k a) l, g, (fst s)\<lparr>wb_redis := rd\<rparr>, snd s))"
  by (cases s) (simp add: redis_port_def port_def bind_assoc step_act split: prod.splits)

lemma step_lift:
  "proc_step (bind_proc (lift_proc (Call f)) l) g s =
     (case f g (snd s) of (q, g1, w1) \<Rightarrow> (bind_proc (lift_proc q) l, g1, fst s, w1))"
  by (simp split: prod.splits)

text \<open>The phases with a Redis access.\<close>

lemma redis_stage_step:
  assumes "ph \<noteq> Passing" "ph \<noteq> Serving" "\<forall>rep. ph \<noteq> Done rep"
  shows "stage_step x r (Running start ph q) g s =
    (case mw_step (we_text (pf_web x)) (pf_redis x) NewIdempotencyStore no_handler r ph (wb_redis (fst s)) () of
       (ph1, rd1, _) \<Rightarrow> (enter start ph1 q, g, (fst s)\<lparr>wb_redis := rd1\<rparr>, snd s))"
  using assms by (cases ph) (simp_all add: stage_step_def del: mw_step.simps)

lemma redis_phase_step:
  assumes "mw_step (we_text (pf_web x)) (pf_redis x) NewIdempotencyStore no_handler r ph (wb_redis (fst s)) () = (ph1, rd1, u)"
    and "ph \<noteq> Passing" "ph \<noteq> Serving" "\<forall>rep. ph \<noteq> Done rep" "ph = Checking \<longrightarrow> is_write r \<and> request_key r \<noteq> ''''"
  shows "proc_step (bind_proc (phase_proc x r q ph) l) g s
    = (bind_proc (phase_proc x r q ph1) l, g, (fst s)\<lparr>wb_redis := rd1\<rparr>, snd s)" "ph1 \<noteq> Checking"
  using assms
  by (cases ph; auto simp: middleware_proc_def replay_proc_def lock_proc_def store_proc_def status_proc_def release_proc_def
      step_redis Let_def split: prod.splits sum.splits option.splits bool.splits)+

lemma arrived_step:
  "proc_step (prod_request x r) g s = (case stage_step x r Arrived g s of (st, g1, s1) \<Rightarrow> (stage_proc x r st, g1, s1))"
proof -
  have "middleware_proc enc re ist r p = (if mw_start r = Passing then p else middleware_proc enc re ist r p)"
    for enc re ist and p :: "(web_state \<times> prod_world, reply) proc"
    by (simp add: middleware_proc_def mw_start_def Let_def)
  then have "routed_proc (pf_env x) (pf_web x) (pf_redis x) (pf_static x) (pf_deps x) r =
      (if route r = EP_Health then health_proc (pf_deps x)
       else phase_proc x r (api_proc (pf_env x) (pf_web x) (dp_Handler (pf_deps x)) (pf_static x) r) (mw_start r))"
    by (auto simp: routed_proc_def mw_start_def Let_def)
  then show ?thesis
    by (simp add: prod_request_def request_proc_def draw_def step_act stage_step_def enter_proc counted_def split: prod.splits)
qed

lemma stage_sim:
  assumes "settled r st" "stage_step x r st g s = (st', g', s')"
  shows "proc_step (stage_proc x r st) g s = (stage_proc x r st', g', s') \<and> settled r st'"
proof (cases st)
  case Arrived
  have "mw_start r = Checking \<Longrightarrow> is_write r \<and> request_key r \<noteq> ''''" by (simp add: mw_start_def split: if_splits)
  with Arrived assms(2) enter_settled show ?thesis
    by (auto simp: arrived_step) (auto simp: stage_step_def settled_def split: prod.splits if_splits)
next
  case (Pinging start)
  with assms(2) show ?thesis
    by (cases s) (auto simp: health_proc_def step_act stage_step_def finish_proc split: prod.splits)
next
  case (Running start ph q)
  consider (count) resp where "ph = Done (Reply resp)" | (handler) f where "ph \<in> {Passing, Serving}" "q = Call f"
    | (redis) "ph \<noteq> Passing" "ph \<noteq> Serving" "\<forall>rep. ph \<noteq> Done rep" "ph = Checking \<longrightarrow> is_write r \<and> request_key r \<noteq> ''''"
    using assms(1) unfolding Running settled_def by (cases ph) (auto, metis reply.exhaust)
  then show ?thesis
  proof cases
    case count
    with assms(2) show ?thesis
      by (auto simp: Running stage_step_def counted_def count_proc_def step_act settled_def split: prod.splits)
  next
    case handler
    obtain q1 g1 w1 where f: "f g (snd s) = (q1, g1, w1)" by (metis prod_cases3)
    then have "st' = enter start ph q1" "g' = g1" "s' = (fst s, w1)"
      using assms(2) handler by (auto simp: Running stage_step_def)
    then show ?thesis
      using handler f enter_settled [of ph r start q1]
      by (auto simp: Running enter_proc locked_proc_def bind_assoc step_lift simp del: lift_Call)
  next
    case redis
    obtain ph1 rd1 u where mw: "mw_step (we_text (pf_web x)) (pf_redis x) NewIdempotencyStore no_handler r ph (wb_redis (fst s)) ()
        = (ph1, rd1, u)" by (metis prod_cases3)
    have "st' = enter start ph1 q" "g' = g" "s' = ((fst s)\<lparr>wb_redis := rd1\<rparr>, snd s)"
      using assms(2) unfolding Running redis_stage_step [OF redis(1-3)] mw by auto
    with redis_phase_step [OF mw redis] enter_settled [of ph1 r start q] show ?thesis by (simp add: Running enter_proc)
  qed
qed (use assms in \<open>auto simp: stage_step_def\<close>)

subsection \<open>Locks\<close>

fun phase_of :: "stage \<Rightarrow> phase" where
  "phase_of (Running start ph q) = ph"
| "phase_of (Replied resp) = Done (Reply resp)"
| "phase_of _ = Passing"

lemma enter_phase:
  "holding (phase_of (enter start ph q)) \<Longrightarrow> holding ph" "no_error_seen ph \<Longrightarrow> no_error_seen (phase_of (enter start ph q))"
  "\<not> holding (phase_of (finish start rep))" "no_error_seen (phase_of (finish start rep))"
  by (auto simp: enter_def finish_def holding_def no_error_seen_def split: phase.splits proc.splits reply.splits)

lemma lock_effect_enter: "lock_effect re k ph ph1 rd rd' \<Longrightarrow> lock_effect re k ph (phase_of (enter start ph1 q)) rd rd'"
  using enter_phase(1) unfolding lock_effect_def by blast

lemma lock_effect_same:
  assumes "rd_data rd' = rd_data rd" "holding ph' \<longrightarrow> holding ph"
  shows "lock_effect re k ph ph' rd rd'"
  using assms by (auto simp: lock_effect_def keeps_entries_def)

lemma health_redis:
  "prod_health e we dur t pe re (g, w) rd = (rep, (g', w'), rd') \<Longrightarrow> rd_data rd' = rd_data rd"
  by (auto simp: prod_health_def HealthChecker_Handler_def checkPostgres_def checkRedis_def checkOutboxBacklog_def
      redis_call_def time_Now_def Let_def split: option.splits prod.splits)

text \<open>Only an access of the middleware changes an entry of Redis.\<close>

lemma quiet_step:
  assumes "stage_step x r st g s = (st', g', s')" "no_error_seen (phase_of st)"
    and "phase_of st \<in> {Passing, Serving} \<or> (\<exists>rep. phase_of st = Done rep)"
  shows "rd_data (wb_redis (fst s')) = rd_data (wb_redis (fst s)) \<and> (holding (phase_of st') \<longrightarrow> holding (phase_of st))
    \<and> no_error_seen (phase_of st')"
proof (cases st)
  case Arrived
  have "\<not> holding (mw_start r)" "no_error_seen (mw_start r)" by (simp_all add: mw_start_def holding_def no_error_seen_def)
  with assms(1) Arrived enter_phase show ?thesis
    by (auto simp: stage_step_def holding_def no_error_seen_def split: prod.splits if_splits)
next
  case (Pinging start)
  with assms(1) enter_phase show ?thesis
    by (auto simp: stage_step_def dest: health_redis split: prod.splits)
next
  case (Running start ph q)
  show ?thesis
  proof (cases "ph = Passing \<or> ph = Serving")
    case True
    obtain q1 g1 w1 where q: "proc_step q g (snd s) = (q1, g1, w1)" by (metis prod_cases3)
    have "st' = enter start ph q1" "s' = (fst s, w1)"
      using assms(1) True unfolding Running stage_step_def by (auto simp: q)
    with Running assms(2) show ?thesis by (simp add: enter_phase(2)) (blast dest: enter_phase(1))
  next
    case False
    with assms(3) Running obtain rep where "ph = Done rep" by auto
    with assms(1) Running show ?thesis
      by (cases rep) (auto simp: stage_step_def count_request_def holding_def no_error_seen_def Let_def split: prod.splits)
  qed
next
  case (Replied resp)
  with assms show ?thesis by (auto simp: stage_step_def)
qed

lemma stage_effect:
  assumes "stage_step x r st g s = (st', g', s')"
    and "redis_quiet (pf_redis x)" "no_error_seen (phase_of st)"
  shows "no_error_seen (phase_of st')
    \<and> lock_effect (pf_redis x) (request_key r) (phase_of st) (phase_of st') (wb_redis (fst s)) (wb_redis (fst s'))"
proof -
  consider (redis) start ph q where "st = Running start ph q" "ph \<noteq> Passing" "ph \<noteq> Serving" "\<forall>rep. ph \<noteq> Done rep"
    | (other) "phase_of st \<in> {Passing, Serving} \<or> (\<exists>rep. phase_of st = Done rep)"
    by (cases st) auto
  then show ?thesis
  proof cases
    case redis
    obtain ph1 rd1 u where mw: "mw_step (we_text (pf_web x)) (pf_redis x) NewIdempotencyStore no_handler r ph (wb_redis (fst s)) ()
        = (ph1, rd1, u)" by (metis prod_cases3)
    from mw_step_effect [OF mw assms(2)] assms(3) redis(1)
    have "no_error_seen ph1 \<and> lock_effect (pf_redis x) (request_key r) ph ph1 (wb_redis (fst s)) rd1" by simp
    moreover have "st' = enter start ph1 q" "wb_redis (fst s') = rd1"
      using assms(1) unfolding redis(1) redis_stage_step [OF redis(2-4)] mw by auto
    ultimately show ?thesis using redis(1) enter_phase(2) lock_effect_enter by auto
  next
    case other
    from quiet_step [OF assms(1,3) this] show ?thesis using lock_effect_same by blast
  qed
qed

subsection \<open>The stages of a run\<close>

fun stages_next :: "platform \<Rightarrow> program_event \<Rightarrow> program \<Rightarrow> (http_request \<times> stage) list \<Rightarrow> (http_request \<times> stage) list" where
  "stages_next x (Request r) p sts = (if pr_phase p = Accepting then sts @ [(r, Arrived)] else sts)"
| "stages_next x (Progress i) p sts =
     (case pr_phase p of
        Terminated _ \<Rightarrow> sts
      | _ \<Rightarrow> if i < length sts
            then sts[i := (fst (sts ! i),
                fst (stage_step x (fst (sts ! i)) (snd (sts ! i)) (sv_gen (pr_serving p)) (sv_store (pr_serving p))))]
            else sts)"
| "stages_next x _ p sts = sts"

fun tracked_run ::
  "platform \<Rightarrow> program_event list \<Rightarrow> program \<Rightarrow> (http_request \<times> stage) list \<Rightarrow> program \<times> (http_request \<times> stage) list" where
  "tracked_run x [] p sts = (p, sts)"
| "tracked_run x (ev # evs) p sts = tracked_run x evs (program_next x ev p) (stages_next x ev p sts)"

lemma tracked_program: "fst (tracked_run x evs p sts) = program_run x evs p"
  by (induction evs arbitrary: p sts) simp_all

text \<open>The stages are those of the processes.\<close>

definition follows :: "platform \<Rightarrow> (http_request \<times> stage) list \<Rightarrow> program \<Rightarrow> bool" where
  "follows x sts p \<longleftrightarrow> sv_procs (pr_serving p) = map (\<lambda>(r, st). stage_proc x r st) sts \<and> (\<forall>(r, st)\<in>set sts. settled r st)"

abbreviation program_redis :: "program \<Rightarrow> redis_db" where
  "program_redis p \<equiv> wb_redis (fst (sv_store (pr_serving p)))"

abbreviation stage_phase :: "(http_request \<times> stage) list \<Rightarrow> nat \<Rightarrow> phase" where
  "stage_phase sts i \<equiv> (if i < length sts then phase_of (snd (sts ! i)) else Passing)"

abbreviation stage_key :: "(http_request \<times> stage) list \<Rightarrow> nat \<Rightarrow> string" where
  "stage_key sts i \<equiv> (if i < length sts then request_key (fst (sts ! i)) else '''')"

text \<open>Everything but the turn of a request leaves Redis and the processes alone.\<close>

lemma worker_frames:
  "sv_procs (pr_serving (poll pe p)) = sv_procs (pr_serving p)" "fst (sv_store (pr_serving (poll pe p))) = fst (sv_store (pr_serving p))"
  "sv_procs (pr_serving (mark pe ids p)) = sv_procs (pr_serving p)" "fst (sv_store (pr_serving (mark pe ids p))) = fst (sv_store (pr_serving p))"
  by (simp_all add: poll_def mark_def split: prod.splits)

lemma other_events:
  assumes "\<And>i. ev \<noteq> Progress i"
  obtains (none) "stages_next x ev p sts = sts" "sv_procs (pr_serving (program_next x ev p)) = sv_procs (pr_serving p)"
      "program_redis (program_next x ev p) = program_redis p"
  | (request) r where "stages_next x ev p sts = sts @ [(r, Arrived)]"
      "sv_procs (pr_serving (program_next x ev p)) = sv_procs (pr_serving p) @ [prod_request x r]"
      "program_redis (program_next x ev p) = program_redis p"
  using assms by (cases ev; cases "pr_phase p") (auto simp: worker_frames split: worker.splits)

definition tracked_ok :: "platform \<Rightarrow> (http_request \<times> stage) list \<Rightarrow> program \<Rightarrow> bool" where
  "tracked_ok x sts p \<longleftrightarrow> follows x sts p \<and> exclusive_locks (stage_key sts) (stage_phase sts) (program_redis p)"

lemma exclusive_locks_cong:
  assumes "exclusive_locks key ph rd" "\<And>i. ph' i = ph i" "\<And>i. holding (ph i) \<Longrightarrow> key' i = key i"
  shows "exclusive_locks key' ph' rd"
  using assms unfolding exclusive_locks_def by (metis (no_types, lifting))

abbreviation timely :: "platform \<Rightarrow> (http_request \<times> stage) list \<Rightarrow> program \<Rightarrow> bool" where
  "timely x sts p \<equiv> locks_alive (pf_redis x) (stage_key sts) (stage_phase sts) (program_redis p)"

text \<open>The turn of a request is a step of its stage.\<close>

lemma progress_serving:
  assumes "follows x sts p" "\<forall>n. pr_phase p \<noteq> Terminated n" "i < length sts" "sts ! i = (r, st)"
    and "stage_step x r st (sv_gen (pr_serving p)) (sv_store (pr_serving p)) = (st', g', s')"
  shows "stages_next x (Progress i) p sts = sts[i := (r, st')]" "settled r st'"
    "pr_serving (program_next x (Progress i) p) =
       \<lparr>sv_procs = map (\<lambda>(r, st). stage_proc x r st) (sts[i := (r, st')]), sv_gen = g', sv_store = s'\<rparr>"
proof -
  have follow: "sv_procs (pr_serving p) = map (\<lambda>(r, st). stage_proc x r st) sts" "\<forall>(r, st)\<in>set sts. settled r st"
    using assms(1) by (simp_all add: follows_def)
  have "settled r st" using follow(2) assms(3,4) nth_mem by fastforce
  note sim = stage_sim [OF this assms(5)]
  then show "settled r st'" by simp
  show "stages_next x (Progress i) p sts = sts[i := (r, st')]"
    using assms(2,3) by (cases "pr_phase p") (simp_all add: assms(4,5))
  have "serving_turn i (pr_serving p) =
      \<lparr>sv_procs = map (\<lambda>(r, st). stage_proc x r st) (sts[i := (r, st')]), sv_gen = g', sv_store = s'\<rparr>"
    using assms(3) sim by (simp add: serving_turn_def follow(1) assms(4) map_update)
  then show "pr_serving (program_next x (Progress i) p) =
      \<lparr>sv_procs = map (\<lambda>(r, st). stage_proc x r st) (sts[i := (r, st')]), sv_gen = g', sv_store = s'\<rparr>"
    using assms(2) by (cases "pr_phase p") simp_all
qed

lemma tracked_progress:
  assumes "tracked_ok x sts p" "redis_quiet (pf_redis x)" "timely x sts p" "\<forall>n. pr_phase p \<noteq> Terminated n" "i < length sts"
  shows "tracked_ok x (stages_next x (Progress i) p sts) (program_next x (Progress i) p)"
proof -
  obtain r st where at: "sts ! i = (r, st)" by fastforce
  obtain st' g' s' where step: "stage_step x r st (sv_gen (pr_serving p)) (sv_store (pr_serving p)) = (st', g', s')"
    by (metis prod_cases3)
  have follow: "follows x sts p" and locks: "exclusive_locks (stage_key sts) (stage_phase sts) (program_redis p)"
    using assms(1) by (simp_all add: tracked_ok_def)
  note turn = progress_serving [OF follow assms(4,5) at step]
  have "follows x (sts[i := (r, st')]) (program_next x (Progress i) p)"
    using follow turn(2) set_update_subset_insert [of sts i "(r, st')"] unfolding follows_def turn(3) by auto
  moreover have "exclusive_locks (stage_key (sts[i := (r, st')])) (stage_phase (sts[i := (r, st')])) (wb_redis (fst s'))"
  proof (rule exclusive_locks_cong)
    have "no_error_seen (phase_of st)"
      using locks assms(5) at by (auto simp: exclusive_locks_def dest: spec [of _ i])
    from stage_effect [OF step assms(2) this] exclusive_locks_step [OF locks assms(3), of "phase_of st'" i "wb_redis (fst s')"]
    show "exclusive_locks (stage_key sts) ((stage_phase sts)(i := phase_of st')) (wb_redis (fst s'))"
      using assms(5) at by simp
  qed (use assms(5) at in \<open>auto simp: nth_list_update\<close>)
  ultimately show ?thesis unfolding tracked_ok_def turn by simp
qed

lemma tracked_next:
  assumes "tracked_ok x sts p" "redis_quiet (pf_redis x)" "timely x sts p"
  shows "tracked_ok x (stages_next x ev p sts) (program_next x ev p)"
proof (cases "\<exists>i. ev = Progress i \<and> i < length sts \<and> (\<forall>n. pr_phase p \<noteq> Terminated n)")
  case True
  with tracked_progress assms show ?thesis by blast
next
  case False
  have len: "length (sv_procs (pr_serving p)) = length sts" using assms(1) by (simp add: tracked_ok_def follows_def)
  show ?thesis
  proof (cases "\<exists>i. ev = Progress i")
    case True
    with False len have "program_next x ev p = p" "stages_next x ev p sts = sts"
      by (cases "pr_phase p"; auto simp: serving_turn_def)+
    with assms(1) show ?thesis by simp
  next
    case other: False
    then have "\<And>i. ev \<noteq> Progress i" by blast
    then show ?thesis
    proof (cases rule: other_events [where x = x and p = p and sts = sts])
      case none
      with assms(1) show ?thesis by (simp add: tracked_ok_def follows_def)
    next
      case (request r)
      have "exclusive_locks (stage_key (sts @ [(r, Arrived)])) (stage_phase (sts @ [(r, Arrived)])) (program_redis p)"
        by (rule exclusive_locks_cong [of "stage_key sts" "stage_phase sts"])
          (use assms(1) in \<open>auto simp: tracked_ok_def nth_append holding_def less_Suc_eq\<close>)
      with assms(1) request show ?thesis by (simp add: tracked_ok_def follows_def settled_def)
    qed
  qed
qed

text \<open>A run in which no lock expires while it is held: whatever happens next, Redis finds the entry of
  every lock that is held alive.\<close>

fun timely_run :: "platform \<Rightarrow> program_event list \<Rightarrow> program \<Rightarrow> (http_request \<times> stage) list \<Rightarrow> bool" where
  "timely_run x [] p sts = True"
| "timely_run x (ev # evs) p sts \<longleftrightarrow> timely x sts p \<and> timely_run x evs (program_next x ev p) (stages_next x ev p sts)"

lemma tracked_run_ok:
  "tracked_ok x sts p \<Longrightarrow> redis_quiet (pf_redis x) \<Longrightarrow> timely_run x evs p sts \<Longrightarrow> tracked_run x evs p sts = (p', sts') \<Longrightarrow>
     tracked_ok x sts' p'"
  by (induction evs arbitrary: p sts) (auto dest: tracked_next)

text \<open>A run within the life of a lock is such a run.\<close>

lemma stage_fresh:
  assumes "stage_step x r st g s = (st', g', s')" "no_error_seen (phase_of st)"
    and "outlives (pf_redis x) NewIdempotencyStore" "fresh_entries (pf_redis x) (wb_redis (fst s))"
  shows "fresh_entries (pf_redis x) (wb_redis (fst s'))"
proof -
  consider (redis) start ph q where "st = Running start ph q" "ph \<noteq> Passing" "ph \<noteq> Serving" "\<forall>rep. ph \<noteq> Done rep"
    | (other) "phase_of st \<in> {Passing, Serving} \<or> (\<exists>rep. phase_of st = Done rep)"
    by (cases st) auto
  then show ?thesis
  proof cases
    case redis
    obtain ph1 rd1 u where mw: "mw_step (we_text (pf_web x)) (pf_redis x) NewIdempotencyStore no_handler r ph (wb_redis (fst s)) ()
        = (ph1, rd1, u)" by (metis prod_cases3)
    have "wb_redis (fst s') = rd1" using assms(1) unfolding redis(1) redis_stage_step [OF redis(2-4)] mw by auto
    with mw_step_fresh [OF mw assms(3,4)] show ?thesis by simp
  next
    case other
    from quiet_step [OF assms(1,2) this] assms(4) show ?thesis by (simp add: fresh_entries_def)
  qed
qed

lemma fresh_next:
  assumes "tracked_ok x sts p" "outlives (pf_redis x) NewIdempotencyStore" "fresh_entries (pf_redis x) (program_redis p)"
  shows "fresh_entries (pf_redis x) (program_redis (program_next x ev p))"
proof (cases "\<exists>i. ev = Progress i")
  case False
  then have "\<And>i. ev \<noteq> Progress i" by blast
  then show ?thesis using assms(3) by (cases rule: other_events [where x = x and p = p and sts = sts]) simp_all
next
  case True
  then obtain i where ev: "ev = Progress i" by blast
  have follow: "follows x sts p" and none: "\<And>j. j < length sts \<Longrightarrow> no_error_seen (phase_of (snd (sts ! j)))"
    using assms(1) by (auto simp: tracked_ok_def exclusive_locks_def) (metis (full_types))
  show ?thesis
  proof (cases "i < length sts \<and> (\<forall>n. pr_phase p \<noteq> Terminated n)")
    case True
    obtain r st where at: "sts ! i = (r, st)" by fastforce
    obtain st' g' s' where step: "stage_step x r st (sv_gen (pr_serving p)) (sv_store (pr_serving p)) = (st', g', s')"
      by (metis prod_cases3)
    note turn = progress_serving(3) [OF follow conjunct2 [OF True] conjunct1 [OF True] at step]
    from stage_fresh [OF step _ assms(2,3)] none [of i] True at show ?thesis unfolding ev turn by simp
  next
    case False
    have "length (sv_procs (pr_serving p)) = length sts" using follow by (simp add: follows_def)
    with False have "program_next x ev p = p" unfolding ev by (cases "pr_phase p") (auto simp: serving_turn_def)
    with assms(3) show ?thesis by simp
  qed
qed

lemma fresh_run_timely:
  "tracked_ok x sts p \<Longrightarrow> redis_quiet (pf_redis x) \<Longrightarrow> outlives (pf_redis x) NewIdempotencyStore \<Longrightarrow>
     fresh_entries (pf_redis x) (program_redis p) \<Longrightarrow> timely_run x evs p sts"
  by (induction evs arbitrary: p sts) (auto intro!: fresh_alive tracked_next fresh_next)

lemma tracked_start: "tracked_ok x [] (program_start logger lo g s log)"
  by (simp add: tracked_ok_def follows_def exclusive_locks_def program_start_def holding_def no_error_seen_def)

text \<open>C14. Mutual exclusion in the running program. Let Redis answer every command, and let no request hold its
  lock longer than the lock lives: at every event of the run the entry of each lock that is held has not
  expired by the clock of Redis. (The run itself may last as long as it likes.) Then from the start of
  main, in every interleaving of HTTP requests with handlers that make one call at a time, with the
  worker and with any failures of the database, at most one of the requests with one key is between
  taking its lock and giving it back; so no two of them are ever inside the handler together. The
  stages are those of the processes.\<close>

theorem handlers_exclusive:
  assumes "main_start be x lo log g db rd = Inr p0" "tracked_run x evs p0 [] = (p, sts)"
    and "redis_quiet (pf_redis x)" "timely_run x evs p0 []"
  shows "p = program_run x evs p0 \<and> sv_procs (pr_serving p) = map (\<lambda>(r, st). stage_proc x r st) sts
    \<and> (\<forall>i j. i < length sts \<and> j < length sts \<and> holding (phase_of (snd (sts ! i))) \<and> holding (phase_of (snd (sts ! j)))
        \<and> request_key (fst (sts ! i)) = request_key (fst (sts ! j)) \<longrightarrow> i = j)"
proof -
  from assms(1) obtain logger lo' v db' where p0: "p0 = program_start logger lo' g (v, \<lparr>pw_db = db', pw_transactions = NewTransactionRepository\<rparr>) log"
    by (rule main_start_program)
  have "tracked_ok x sts p"
    using tracked_run_ok [OF tracked_start assms(3)] assms(2,4) unfolding p0 by blast
  moreover have "p = program_run x evs p0" using tracked_program [of x evs p0 "[]"] assms(2) by simp
  ultimately show ?thesis by (auto simp: tracked_ok_def follows_def exclusive_locks_def)
qed

lemma progress_requests:
  "(\<forall>ev\<in>set evs. \<exists>i. ev = Progress i) \<Longrightarrow> map fst (snd (tracked_run x evs p sts)) = map fst sts"
proof (induction evs arbitrary: p sts)
  case (Cons ev evs)
  then obtain i where ev: "ev = Progress i" by auto
  have "map fst (stages_next x ev p sts) = map fst sts"
    unfolding ev by (cases "pr_phase p") (auto intro: nth_equalityI simp: nth_list_update)
  with Cons show ?case by simp
qed simp

theorem handlers_exclusive_witness:
  "case main_start sample_boot sample_platform \<lparr>lo_default = None, lo_stdout = []\<rparr> [] used_gen (pw_db sample_prod) empty_redis of
     Inl n \<Rightarrow> False
   | Inr p0 \<Rightarrow>
       (case tracked_run sample_platform ([Request sample_payment, Request sample_payment] @ replicate 5 (Progress 0)
            @ replicate 3 (Progress 1)) p0 [] of
          (p, sts) \<Rightarrow> sv_procs (pr_serving p) = map (\<lambda>(r, st). stage_proc sample_platform r st) sts \<and> length sts = 2
            \<and> \<not> (holding (phase_of (snd (sts ! 0))) \<and> holding (phase_of (snd (sts ! 1)))))"
proof -
  let ?evs = "[Request sample_payment, Request sample_payment] @ replicate 5 (Progress 0) @ replicate 3 (Progress 1)"
  obtain p sts where run: "tracked_run sample_platform ?evs sample_program [] = (p, sts)" by fastforce
  have "fresh_entries (pf_redis sample_platform) (program_redis sample_program)"
    by (simp add: sample_program_def program_start_def sample_web_state_def redis_call_def fresh_entries_def empty_redis_def)
  then have "timely_run sample_platform ?evs sample_program []"
    by (intro fresh_run_timely) (simp_all add: sample_program_def tracked_start)
  moreover have "redis_quiet (pf_redis sample_platform)" by simp
  ultimately have "p = program_run sample_platform ?evs sample_program \<and> sv_procs (pr_serving p) = map (\<lambda>(r, st). stage_proc sample_platform r st) sts
    \<and> (\<forall>i j. i < length sts \<and> j < length sts \<and> holding (phase_of (snd (sts ! i))) \<and> holding (phase_of (snd (sts ! j)))
        \<and> request_key (fst (sts ! i)) = request_key (fst (sts ! j)) \<longrightarrow> i = j)"
    using handlers_exclusive [OF sample_main_program run] by blast
  then
  have procs: "sv_procs (pr_serving p) = map (\<lambda>(r, st). stage_proc sample_platform r st) sts"
    and one: "\<And>i j. i < length sts \<Longrightarrow> j < length sts \<Longrightarrow> holding (phase_of (snd (sts ! i))) \<Longrightarrow> holding (phase_of (snd (sts ! j))) \<Longrightarrow>
      request_key (fst (sts ! i)) = request_key (fst (sts ! j)) \<Longrightarrow> i = j" by blast+
  have "map fst sts = [sample_payment, sample_payment]"
  proof -
    let ?p = "program_next sample_platform (Request sample_payment) (program_next sample_platform (Request sample_payment) sample_program)"
    let ?turns = "replicate 5 (Progress 0) @ replicate 3 (Progress 1)"
    have "tracked_run sample_platform ?turns ?p [(sample_payment, Arrived), (sample_payment, Arrived)] = (p, sts)"
      using run by (simp add: sample_program_def program_start_def del: replicate.simps)
    moreover have "\<forall>ev\<in>set ?turns. \<exists>i. ev = Progress i" by auto
    ultimately show ?thesis
      using progress_requests [of ?turns sample_platform ?p "[(sample_payment, Arrived), (sample_payment, Arrived)]"] by simp
  qed
  then have two: "length sts = 2" "fst (sts ! 0) = fst (sts ! 1)" by (auto simp: map_eq_Cons_conv)
  have "\<not> (holding (phase_of (snd (sts ! 0))) \<and> holding (phase_of (snd (sts ! 1))))"
    using one [of 0 1] two by auto
  with procs two(1) show ?thesis by (simp only: sample_main_program sum.case run prod.case) simp
qed

end
