(* ===== verification/Request_Bounds.thy ===== *)
theory Request_Bounds
  imports Program_Lifecycle
begin

section \<open>How many calls a request makes\<close>

text \<open>
  An explicit bound on the calls of a request, whatever the ports, Redis and the other requests answer: no call is
  repeated after an error, and nobody waits for a lock. A process that may go on for longer, for
  instance one that repeats a failed save, does not satisfy the bound.
\<close>

primrec within :: "nat \<Rightarrow> ('w, 'a) proc \<Rightarrow> bool" where
  "within 0 p = (case p of Return a \<Rightarrow> True | Call f \<Rightarrow> False)"
| "within (Suc n) p = (case p of Return a \<Rightarrow> True | Call f \<Rightarrow> \<forall>g w. within n (fst (f g w)))"

lemma within_simps [simp]:
  "within n (Return a)" "\<not> within 0 (Call f)" "within (Suc n) (Call f) \<longleftrightarrow> (\<forall>g w. within n (fst (f g w)))"
  by (cases n) simp_all

declare within.simps [simp del]

lemma within_0: "within 0 p \<Longrightarrow> \<exists>a. p = Return a"
  by (cases p) simp_all

lemma within_mono: "within m p \<Longrightarrow> m \<le> n \<Longrightarrow> within n p"
proof (induction m arbitrary: n p)
  case 0
  then show ?case using within_0 [of p] by auto
next
  case (Suc m)
  then obtain k where n: "n = Suc k" "m \<le> k" by (cases n) auto
  show ?case
  proof (cases p)
    case (Call f)
    with Suc.prems(1) Suc.IH n show ?thesis by simp
  qed simp
qed

lemma within_bind:
  assumes "within m p" "\<And>a. within n (k a)"
  shows "within (m + n) (bind_proc p k)"
  using assms(1)
proof (induction m arbitrary: p)
  case 0
  then show ?case using within_0 [of p] assms(2) by auto
next
  case (Suc m)
  show ?case
  proof (cases p)
    case (Return a)
    then show ?thesis using within_mono [OF assms(2) [of a], of "Suc m + n"] by simp
  next
    case (Call f)
    with Suc show ?thesis by (auto split: prod.splits) (metis fst_conv)
  qed
qed

lemma within_act: "(\<And>g w. within n (k (fst (f g w)))) \<Longrightarrow> within (Suc n) (bind_proc (act f) k)"
  by (auto simp: act_def split: prod.splits) (metis fst_conv)

lemma within_port: "(\<And>w. within n (k (fst (f w)))) \<Longrightarrow> within (Suc n) (bind_proc (port f) k)"
  unfolding port_def by (rule within_act) (metis (mono_tags, lifting) case_prod_beta fst_conv)

lemma within_draw: "(\<And>g. within n (k (fst (f g)))) \<Longrightarrow> within (Suc n) (bind_proc (draw f) k)"
  unfolding draw_def by (rule within_act) (metis (mono_tags, lifting) case_prod_beta fst_conv)

lemma within_then:
  assumes "within m p" "\<And>x. within n (k x)"
  shows "within (m + n) (and_then p h k)"
  unfolding and_then_def using assms by (intro within_bind) (auto split: sum.split)

lemma within_one: "within 1 (act f)" "within 1 (port f')" "within 1 (draw f'')"
  by (simp_all add: port_def draw_def act_def split: prod.split)

lemma within_lift: "within n p \<Longrightarrow> within n (lift_proc p)"
proof (induction n arbitrary: p)
  case 0
  then show ?case using within_0 [of p] by auto
next
  case (Suc n)
  show ?case
  proof (cases p)
    case (Call f)
    with Suc show ?thesis by (auto split: prod.splits) (metis fst_conv)
  qed simp
qed

subsection \<open>The services\<close>

lemma within_legs: "within (2 * length xs) (legs_proc e s xs)"
proof (induction xs)
  case (Cons x xs)
  have "within (1 + (1 + 2 * length xs)) (legs_proc e s (x # xs))"
    unfolding legs_proc.simps by (intro within_then within_one Cons.IH)
  then show ?case by simp
qed simp

lemma within_project: "within 1 (project_with s f x)"
proof (cases "ls_projector s")
  case (Some p)
  have "within (1 + 0) (bind_proc (port (f p)) (\<lambda>_. Return (Inr x)))"
    by (intro within_bind within_one) simp
  then show ?thesis by (simp add: project_with_def Some)
qed (simp add: project_with_def)

lemma cmd_params_length: "cmd_params i ecs = Inr ps \<Longrightarrow> length ps = length ecs"
  by (simp add: cmd_params_Inr_iff)

lemma within_record: "within (2 * length (rc_Entries cmd) + 4) (RecordTransaction_proc e s cmd)"
proof (cases "cmd_params 0 (rc_Entries cmd)")
  case (Inl err)
  then show ?thesis by (simp add: RecordTransaction_proc_def and_then_def)
next
  case (Inr ps)
  have rest: "within (2 * length ps + (1 + (1 + 1))) (and_then (legs_proc e s (Transaction_Entries tx)) id (\<lambda>_.
     and_then (port (txr_Save (ls_transactions s) tx)) (Wrap ''save transaction'') (\<lambda>_.
     and_then (act (emit_recorded e s cmd tx)) (Wrap ''emit transaction recorded'') (\<lambda>event.
     project_with s (\<lambda>p. pj_ProjectTransactionRecorded p event) tx))))"
    if "NewTransaction e ps d g = (Inr tx, g')" for tx d g g'
  proof -
    have "length (Transaction_Entries tx) = length ps"
      using NewTransaction_InrD(2) [OF that] by (metis length_map Transaction_Entries_def)
    then show ?thesis using within_legs [of "Transaction_Entries tx" e s]
      by (intro within_then within_one within_project) simp
  qed
  have "within (Suc (2 * length ps + (1 + (1 + 1)))) (RecordTransaction_proc e s cmd)"
    unfolding RecordTransaction_proc_def and_then_def Inr
  proof (simp only: bind_proc.simps(1) sum.case, rule within_draw)
    fix g
    obtain r g' where new: "NewTransaction e ps (rc_Description cmd) g = (r, g')" by fastforce
    then show "within (2 * length ps + (1 + (1 + 1))) (case fst (NewTransaction e ps (rc_Description cmd) g) of
        Inl err \<Rightarrow> Return (Inl (Wrap ''create transaction'' err))
      | Inr tx \<Rightarrow> bind_proc (legs_proc e s (Transaction_Entries tx)) (case_sum (\<lambda>err. Return (Inl (id err))) (\<lambda>_.
          bind_proc (port (txr_Save (ls_transactions s) tx)) (case_sum (\<lambda>err. Return (Inl (Wrap ''save transaction'' err))) (\<lambda>_.
          bind_proc (act (emit_recorded e s cmd tx)) (case_sum (\<lambda>err. Return (Inl (Wrap ''emit transaction recorded'' err))) (\<lambda>event.
          project_with s (\<lambda>p. pj_ProjectTransactionRecorded p event) tx)))))))"
      using rest [unfolded and_then_def] by (cases r) simp_all
  qed
  then show ?thesis using cmd_params_length [OF Inr] by (simp add: eval_nat_numeral)
qed

lemma within_open: "within 3 (OpenAccount_proc e s cmd)"
proof -
  have "within (1 + (1 + 1)) (OpenAccount_proc e s cmd)"
    unfolding OpenAccount_proc_def by (intro within_then within_one within_project)
  then show ?thesis by (simp add: eval_nat_numeral)
qed

lemma within_system: "within 4 (system_proc e s name ty c)"
proof -
  have "within (1 + 3) (system_proc e s name ty c)"
    unfolding system_proc_def using within_open by (intro within_then within_one) (auto split: option.split)
  then show ?thesis by simp
qed

lemma within_suspense: "within 4 (suspense_proc e s c)"
proof -
  have "within (4 + 0) (suspense_proc e s c)"
    unfolding suspense_proc_def by (intro within_bind within_system) simp
  then show ?thesis by simp
qed

lemma within_two_legs: "within 8 (RecordTransaction_proc e s (two_legs cmd i j d))"
  using within_record [of "two_legs cmd i j d" e s] by (simp add: two_legs_def)

lemma within_deposit: "within 12 (Deposit_proc e s i n c d)"
proof -
  have "within (4 + (8 + 0)) (Deposit_proc e s i n c d)"
    unfolding Deposit_proc_def
    by (intro within_then within_system) (use within_record in \<open>fastforce intro: within_mono\<close>)+
  then show ?thesis by simp
qed

lemma within_mark: "within 1 (bind_proc (draw f) (\<lambda>(a, b). Return (h a b)))"
proof -
  have "within (1 + 0) (bind_proc (draw f) (\<lambda>(a, b). Return (h a b)))"
    by (intro within_bind within_one) (simp split: prod.split)
  then show ?thesis by simp
qed

lemma within_draw_return: "within 1 (bind_proc (draw f) (\<lambda>a. Return (h a)))"
  using within_mark [of "\<lambda>g. case f g of (a, g1) \<Rightarrow> ((a, ()), g1)" "\<lambda>a b. h a"]
  by (simp add: draw_def act_def split: prod.splits)

lemma within_compensate: "within 14 (compensate_proc e s cmd err saga)"
proof -
  have "within (1 + (4 + (8 + (1 + 0)))) (compensate_proc e s cmd err saga)"
    unfolding compensate_proc_def
    by (intro within_bind within_one within_suspense within_two_legs)
      (auto split: sum.split intro: within_draw_return [unfolded One_nat_def])
  then show ?thesis by simp
qed

lemma within_execute: "within 40 (Execute_proc e ts cmd)"
proof -
  let ?s = "ts_ledgerSvc ts"
  have credit: "within (4 + (8 + 14)) (bind_proc (suspense_proc e ?s (tc_Currency cmd)) (\<lambda>susp2.
      bind_proc (RecordTransaction_proc e ?s (two_legs cmd susp2 (tc_ToAccountID cmd) (''Transfer in: '' @ tc_Description cmd))) (\<lambda>r2.
      case r2 of
        Inl err \<Rightarrow> compensate_proc e ?s cmd err saga1
      | Inr _ \<Rightarrow> bind_proc (draw (mark_step (MarkCompleted e saga1))) (\<lambda>(err2, saga2). Return (Some saga2, err2)))))" for saga1
    by (intro within_bind within_suspense within_two_legs)
      (auto split: sum.split intro: within_compensate within_mono [OF within_mark])
  have marked: "within (1 + (4 + (8 + 14))) (bind_proc (draw (mark_step (MarkDebited e saga))) (\<lambda>(err1, saga1).
      case err1 of
        Some err \<Rightarrow> Return (Some saga1, Some err)
      | None \<Rightarrow> bind_proc (suspense_proc e ?s (tc_Currency cmd)) (\<lambda>susp2.
          bind_proc (RecordTransaction_proc e ?s (two_legs cmd susp2 (tc_ToAccountID cmd) (''Transfer in: '' @ tc_Description cmd))) (\<lambda>r2.
          case r2 of
            Inl err \<Rightarrow> compensate_proc e ?s cmd err saga1
          | Inr _ \<Rightarrow> bind_proc (draw (mark_step (MarkCompleted e saga1))) (\<lambda>(err2, saga2). Return (Some saga2, err2))))))" for saga
    by (intro within_bind within_one) (use credit in \<open>auto split: prod.split option.split\<close>)
  have failed: "within (1 + (4 + (8 + 14))) (bind_proc (draw f) (\<lambda>saga1. Return (Some saga1, Some err :: error option)))"
    for f :: "gen \<Rightarrow> Transfer \<times> gen" and err
    by (rule within_mono [OF within_draw_return]) simp
  have "within (1 + (4 + (8 + (1 + (4 + (8 + 14)))))) (Execute_proc e ts cmd)"
  proof (cases "NewMoney (tc_Amount cmd) (tc_Currency cmd)")
    case (Inr money)
    show ?thesis
      unfolding Execute_proc_def Let_def Inr sum.case
      by (intro within_bind within_one, split sum.split,
          intro conjI allI impI within_simps(1) within_bind within_suspense within_two_legs)
        (use failed marked in \<open>auto split: sum.split\<close>)
  next
    case (Inl err)
    then show ?thesis unfolding Execute_proc_def Let_def Inl by simp
  qed
  then show ?thesis by simp
qed

subsection \<open>Requests\<close>

text \<open>The calls that a handler makes at most, by endpoint.\<close>

definition handler_calls :: "web_env \<Rightarrow> http_request \<Rightarrow> nat" where
  "handler_calls we r =
     (case route r of
        EP_ListAccounts \<Rightarrow> 1
      | EP_OpenAccount \<Rightarrow> 3
      | EP_GetBalance accountID \<Rightarrow> 1
      | EP_GetTransactionHistory accountID \<Rightarrow> 1
      | EP_RecordTransaction \<Rightarrow>
          (case we_record we (rq_Body r) of None \<Rightarrow> 0 | Some req \<Rightarrow> 2 * length (rt_Entries req) + 4)
      | EP_Deposit \<Rightarrow> 12
      | EP_Transfer \<Rightarrow> 40
      | _ \<Rightarrow> 0)"

lemma entry_cmds_length: "entry_cmds e ers = Some ecs \<Longrightarrow> length ecs = length ers"
  by (induction ers arbitrary: ecs) (auto split: sum.splits option.splits)

lemma within_then_return: "within n p \<Longrightarrow> within n (bind_proc p (\<lambda>a. Return (h a)))"
  using within_bind [of n p 0 "\<lambda>a. Return (h a)"] by simp

lemma within_api: "within (handler_calls we r) (api_proc e we h static r)"
proof (cases "route r")
  case EP_RecordTransaction
  show ?thesis
  proof (cases "we_record we (rq_Body r)")
    case (Some req)
    show ?thesis
    proof (cases "entry_cmds e (rt_Entries req)")
      case entries: (Some ecs)
      have "within (2 * length ecs + 4) (RecordTransaction_proc e (h_svc h) \<lparr>rc_Entries = ecs, rc_Description = rt_Description req\<rparr>)"
        using within_record [of "\<lparr>rc_Entries = ecs, rc_Description = rt_Description req\<rparr>"] by simp
      from within_then_return [OF this] show ?thesis
        by (simp add: api_proc_def handler_calls_def http_RecordTransaction_proc_def EP_RecordTransaction Some entries
            entry_cmds_length [OF entries])
    qed (simp add: api_proc_def handler_calls_def http_RecordTransaction_proc_def EP_RecordTransaction Some)
  qed (simp add: api_proc_def handler_calls_def http_RecordTransaction_proc_def EP_RecordTransaction)
qed (auto simp: api_proc_def handler_calls_def handler_proc_defs Let_def
    intro!: within_then_return within_open within_deposit within_execute within_one(2) [unfolded One_nat_def]
    split: option.split sum.split)

lemma within_redis:
  assumes "\<And>a. within n (k a)"
  shows "within (Suc n) (bind_proc (redis_port f) k)"
  unfolding redis_port_def using assms by (intro within_port)

lemma within_store: "within 4 (store_proc re st key resp)"
proof -
  have "within (Suc 1) (release_proc re key resp e12)" for e12
    unfolding release_proc_def by (intro within_redis) (auto split: option.split intro!: within_redis)
  then have "within (Suc (Suc (Suc 1))) (store_proc re st key resp)"
    unfolding store_proc_def status_proc_def by (intro within_redis)
  then show ?thesis by (simp add: eval_nat_numeral)
qed

lemma within_middleware:
  assumes "within n p"
  shows "within (n + 6) (middleware_proc enc re st r p)"
proof -
  have "within (n + 4) (locked_proc re st key p)" for key
    unfolding locked_proc_def using within_store by (intro within_bind assms) (auto split: reply.split)
  then have "within (Suc (n + 4)) (lock_proc enc re st key p)" for key
    unfolding lock_proc_def by (intro within_redis) (auto split: sum.split bool.split)
  moreover have "within (Suc (n + 4)) (replay_proc re key cached)" for key cached
    unfolding replay_proc_def by (intro within_redis) (auto split: prod.split)
  ultimately have "within (Suc (Suc (n + 4))) (bind_proc (redis_port (Check re key)) (\<lambda>c. case c of
        Inl err \<Rightarrow> Return (writeJSON enc [] 500 (errorResponse ''idempotency check failed''))
      | Inr (Some cached) \<Rightarrow> replay_proc re key cached
      | Inr None \<Rightarrow> lock_proc enc re st key p))" for key
    by (intro within_redis) (auto split: sum.split option.split)
  moreover have "within (n + 6) p" by (rule within_mono [OF assms]) simp
  ultimately show ?thesis unfolding middleware_proc_def by (simp add: Let_def eval_nat_numeral)
qed

lemma within_request: "within (handler_calls we r + 8) (request_proc e we re static pattern deps r)"
proof -
  let ?n = "handler_calls we r"
  have routed: "within (?n + 6) (routed_proc e we re static deps r)"
  proof (cases "route r = EP_Health")
    case True
    then show ?thesis using within_mono [OF within_one(1), of "?n + 6"] by (simp add: routed_proc_def health_proc_def)
  next
    case False
    have "within ?n (lift_proc (api_proc e we (dp_Handler deps) static r))" by (intro within_lift within_api)
    from within_middleware [OF this] within_mono [OF this, of "?n + 6"] False show ?thesis
      by (auto simp: routed_proc_def Let_def split: option.split)
  qed
  have count: "within 1 (count_proc e pattern r start rep)" for start rep
    using within_then_return [OF within_one(1)] by (auto simp: count_proc_def split: reply.split)
  have "within (1 + (?n + 6 + 1)) (request_proc e we re static pattern deps r)"
    unfolding request_proc_def by (intro within_bind within_one routed count)
  then show ?thesis by (simp add: add.commute)
qed

subsection \<open>The running program\<close>

lemma within_run:
  assumes "i < length (sv_procs (pr_serving p))" "within n (sv_procs (pr_serving p) ! i)" "n \<le> count_list evs (Progress i)"
  shows "(\<exists>resp. sv_procs (pr_serving (program_run x evs p)) ! i = Return resp)
    \<or> (\<exists>c. pr_phase (program_run x evs p) = Terminated c)"
  using assms
proof (induction evs arbitrary: p n)
  case Nil
  then show ?case using within_0 by fastforce
next
  case (Cons ev evs)
  show ?case
  proof (cases "\<exists>c. pr_phase p = Terminated c")
    case True
    then obtain c where "pr_phase p = Terminated c" by blast
    then show ?thesis using terminated_run [of p c x "ev # evs"] by simp
  next
    case False
    let ?q = "sv_procs (pr_serving p) ! i"
    note step = program_next_proc [OF Cons.prems(1), of x ev]
    have "within (n - (if ev = Progress i then 1 else 0)) (sv_procs (pr_serving (program_next x ev p)) ! i)"
    proof (cases "ev = Progress i")
      case True
      with False step(2) have "sv_procs (pr_serving (program_next x ev p)) ! i =
          fst (proc_step ?q (sv_gen (pr_serving p)) (sv_store (pr_serving p)))" by auto
      moreover have "within (n - 1) (fst (proc_step ?q (sv_gen (pr_serving p)) (sv_store (pr_serving p))))"
        using Cons.prems(2) by (cases n; cases ?q) (simp_all del: split_paired_All)
      ultimately show ?thesis using True by simp
    qed (use step Cons.prems(2) in simp)
    from Cons.IH [OF step(1) this] Cons.prems(3) show ?thesis by (auto split: if_splits)
  qed
qed

text \<open>C15. Every request is answered after a bounded number of turns. A request that the server accepts, and that then
  gets at least 8 turns more than its handler makes calls (1 for the reads, 3 to open an account, 2 n + 4
  for a transaction of n entries, 12 for a deposit, 40 for a transfer with its compensation), has its
  response, or the program has ended; whatever the other requests, the worker, Redis and the database
  do in between, and whichever calls fail. A turn is one call of a port or one command to Redis.\<close>

theorem request_answered_within:
  assumes "pr_phase p = Accepting" "i = length (sv_procs (pr_serving p))"
    and "handler_calls (pf_web x) r + 8 \<le> count_list evs (Progress i)"
  shows "(\<exists>resp. sv_procs (pr_serving (program_run x (Request r # evs) p)) ! i = Return resp)
    \<or> (\<exists>c. pr_phase (program_run x (Request r # evs) p) = Terminated c)"
proof -
  have "sv_procs (pr_serving (program_next x (Request r) p)) = sv_procs (pr_serving p) @ [prod_request x r]"
    using assms(1) by (simp add: serving_arrive_def)
  moreover have "within (handler_calls (pf_web x) r + 8) (prod_request x r)"
    unfolding prod_request_def by (rule within_request)
  ultimately show ?thesis using within_run [of i "program_next x (Request r) p"] assms(2,3) by simp
qed

theorem request_answered_within_witness:
  "(\<exists>resp. sv_procs (pr_serving (program_run sample_platform (Request sample_payment # replicate 16 (Progress 0)) sample_program)) ! 0
      = Return resp)
   \<or> (\<exists>c. pr_phase (program_run sample_platform (Request sample_payment # replicate 16 (Progress 0)) sample_program) = Terminated c)"
proof (rule request_answered_within)
  show "pr_phase sample_program = Accepting" "0 = length (sv_procs (pr_serving sample_program))"
    by (simp_all add: sample_program_def program_start_def)
  have "handler_calls (pf_web sample_platform) sample_payment = 8" by code_simp
  then show "handler_calls (pf_web sample_platform) sample_payment + 8 \<le> count_list (replicate 16 (Progress 0)) (Progress 0)"
    by (simp add: eval_nat_numeral)
qed

end
