(* ===== verification/Spec2Isabelle.thy ===== *)
theory Spec2Isabelle
  imports Program_Invariants Program_Schedules Request_Stages Request_Bounds
begin

text \<open>
  \<^bold>\<open>Verification of the ledger engine.\<close> The program (\<^verbatim>\<open>src/\<close>, in Go) is a double-entry
  ledger behind an HTTP API. A request passes the router and the idempotency middleware
  (\<^verbatim>\<open>internal/infra/http\<close>, with Redis behind it) and reaches a handler; the handler calls the
  ledger service or the transfer service (\<^verbatim>\<open>internal/app\<close>), which work on the domain types
  (\<^verbatim>\<open>internal/domain\<close>) and on repositories behind interfaces: in-memory ones
  (\<^verbatim>\<open>internal/infra/inmemory\<close>) and Postgres ones (\<^verbatim>\<open>internal/infra/postgres\<close>). A recorded
  transaction changes the balances of its accounts, is saved, is appended to the event store
  together with an outbox row, and is projected to the read model (\<^verbatim>\<open>internal/projection\<close>) that
  the queries use. A worker delivers the outbox to a publisher.

  \<^bold>\<open>Theories.\<close>

  \<^item> \<open>Ledger_Prelude\<close>: \<^verbatim>\<open>int64\<close> as a 64-bit word, the errors of all packages with
    \<^verbatim>\<open>fmt.Errorf\<close> wrapping, and the environment record \<open>env\<close> for what is not part of the
    repository (uuid package, clock, JSON text of a time, iteration order of a map). The generator
    \<open>gen\<close> counts the readings of the clock and of the uuid generator.
  \<^item> \<open>Ledger_Money\<close>, \<open>Ledger_Identifiers\<close>, \<open>Ledger_Transaction\<close> (\<^verbatim>\<open>internal/domain/ledger\<close>): money
    with wrap-around, identifiers (locale \<open>id_wrapper\<close>), entries and NewTransaction: its complete result,
    that accepted entries balance, and fresh identifiers.
  \<^item> \<open>Account_Entity\<close> (\<^verbatim>\<open>internal/domain/account\<close>): the account with its operations, and the accounts
    reachable by them: well-formedness, no negative asset balance, closed is final.
  \<^item> \<open>Ledger_Events\<close>, \<open>Repository_Ports\<close>: events and their JSON, the interfaces as records of operations
    over a store, the contract \<open>account_repository\<close> of an account repository as a locale, and
    \<open>reliable_repository\<close> for one that does not fail.
  \<^item> \<open>Ledger_Balances\<close>: the abstract ledger: accounts as a map, legs that move their funds
    (\<open>posted\<close>, \<open>moved\<close>), and the total of a currency (\<open>total_funds\<close>).
  \<^item> \<open>Ledger_Service\<close>, \<open>Ledger_Correctness\<close> (\<^verbatim>\<open>internal/app/ledger_service.go\<close>): every method of the service
    over its ports; in the locale \<open>ledger_ports\<close> the effect of each method on the abstract ledger, also
    when a port fails; in \<open>reliable_ledger\<close> when a method succeeds and where it stops. \<open>Inmemory_Store\<close>
    interprets the repositories, \<open>Ledger_Correctness\<close> the service on them.
  \<^item> \<open>Transfer_Saga\<close>, \<open>Transfer_Service\<close> (\<^verbatim>\<open>internal/domain/transfer\<close>, \<^verbatim>\<open>internal/app/transfer_service.go\<close>): the saga
    with its log as a step relation, Execute with its compensation, and the trial balance over all runs
    of the service.
  \<^item> \<open>Postgres_Database\<close>, \<open>Postgres_Accounts\<close>, \<open>Postgres_Events\<close>: the tables of the migrations as lists of
    rows, with the server and the driver as the parameter \<open>pg_env\<close> (which call fails, clock, rounding of
    times, scan order, locks); the account repository, interpreted as \<open>account_repository\<close>; the event
    store, snapshots and outbox: atomicity, optimistic concurrency, append and load.
  \<^item> \<open>Read_Projection\<close>, \<open>Outbox_Worker\<close>: projector and queries; the worker and the contract
    \<open>event_publisher\<close> of a publisher, interpreted by the log publisher: a published row was delivered, and
    the outbox is drained.
  \<^item> \<open>Idempotency_Store\<close>, \<open>Idempotency_Middleware\<close>, \<open>Idempotency_Concurrency\<close>: the Redis commands and the
    store, the middleware as one function and as a sequence of accesses (proved equal for a request that
    runs alone), and any number of interleaved requests as a transition system: mutual exclusion, that
    every request is answered, and the schedule in which a handler runs twice for one key.
  \<^item> \<open>Record_Interleaving\<close>: RecordTransaction as a sequence of port calls (proved equal to the method for a
    command that runs alone) and any number of interleaved commands over one store: every command is answered,
    and balances add up as long as no two commands are between reading and writing one account. The
    schedule that loses a balance is in \<open>Program_Main\<close>.
  \<^item> \<open>Service_Processes\<close>, \<open>Service_Interleaving\<close>: every method of both services as a process that makes one port
    call at a time (proved equal to the method for a process that runs alone), the relation \<open>keeps\<close> for what
    a process guarantees while it relies on the others, the locale \<open>service_interference\<close> that carries it from the
    pieces of a method to every call, and any number of processes served over one store. A sublocale gives
    every \<open>ledger_ports\<close> the guarantee that accounts stay sound; turns make a process smaller.
  \<^item> \<open>Http_Processes\<close>, \<open>Http_Interleaving\<close>: a whole request, from the metrics middleware through the idempotency
    middleware and the handler down to the ports, as a process of single accesses to the clock, to Redis, to
    the metrics and to the ports (proved equal to the router for a request that runs alone). The store is
    the state of the web layer beside the one of the services; the locale \<open>http_interference\<close> carries a
    guarantee of the services' calls over to every request.
  \<^item> \<open>Float_Cents\<close>, \<open>Http_Messages\<close>, \<open>Http_Handlers\<close>, \<open>Http_Router\<close>, \<open>Http_Metrics\<close>, \<open>Health_Check\<close>: the API. A
    float64 is a mantissa and an exponent, its product with 100 is rounded as IEEE 754 says. \<open>Http_Metrics\<close> has the
    instruments, their setup and the router with the metrics middleware.
  \<^item> \<open>Production_Wiring\<close>, \<open>Read_Write_Agreement\<close>, \<open>Program_Main\<close> (\<^verbatim>\<open>cmd/api/main.go\<close>): the service on Postgres
    accounts, in-memory transactions, event store, outbox and projector, interpreted as \<open>ledger_ports\<close>; the
    locale \<open>unobserved\<close> for the part of a store the write side leaves alone, interpreted on the read
    model, which is either in step after a transaction or unchanged by a projection whose database call failed;
    and the properties that follow a request through all parts, a deposit and a transaction among them.
  \<^item> \<open>Event_Replay\<close>: a reference replay of the event table, from the payloads of its rows, and the locale
    \<open>journalled\<close> for a service whose journal explains its balances. The service as main wires it is an
    instance: after complete and refused operations, event replay produces the same state as direct computation;
    a transaction that fails after saving balances leaves no event, so there the two differ.
  \<^item> \<open>Observability_Log\<close> (\<^verbatim>\<open>internal/infra/observability/logger.go\<close>): SetupLogger over the levels of slog.
  \<^item> \<open>Program_Lifecycle\<close>, \<open>Program_Invariants\<close>, \<open>Program_Schedules\<close>, \<open>Request_Stages\<close>, \<open>Request_Bounds\<close>
    (\<^verbatim>\<open>cmd/api/main.go\<close>): starting up with every exit of main, and the running program as a transition system of arriving HTTP requests, their
    turns, the worker (which may be interrupted between fetching and marking), the signal and the shutdown.
    In every run that main starts, accounts and tables stay sound. As long as Redis answers and no lock expires
    under a request that holds it (\<open>timely_run\<close>), no two requests with one key are inside their handlers
    together (the stages of a request simulate its process). \<open>Request_Bounds\<close> counts the accesses of every
    request. A shutdown cuts a transaction, and two first deposits open two system accounts.

  \<^bold>\<open>Conventions.\<close> A call that may fail returns a sum with the error on the left, together with the store
  after the call: a Go error undoes nothing by itself. Stores and generators are passed explicitly.
  A nil interface is \<open>None\<close>. A panic is the value \<open>Panicked\<close> of a reply. A timestamp is an integer of
  nanoseconds. Locks of the in-memory repositories are left out, since every operation is one step.

  \<^bold>\<open>Bounds.\<close> All recursion is structural or has a termination proof; there is no fuel. The worker's loop is
  run for a number of ticks, and the outbox is empty after n ticks when at most 50 n rows wait. The
  identifiers of a run are distinct as long as fewer than N are drawn, for a generator that gives
  out N different ones. The idempotency theorems ask that the clock stays within the life of a lock
  or of a stored response. A process is an inductive datatype, so that it ends is part of its type; what is
  proved of the handlers is an explicit number of accesses, a function of the length of the request's list
  of entries, whatever the ports answer and whatever other requests do between two accesses.

  \<^bold>\<open>Not modelled.\<close> What is written to the log apart from published events and the lines of main, the banner of
  main, the embedded frontend, CORS, request ids and request logging, and what the JSON decoder makes of a
  request body: the decoder is a parameter per request type, and so is the text of a JSON value. Static
  files, the metrics page and the answers for unknown routes are a function of the request in the running
  program, since they do not touch the ledger. A call to the database or to Redis that reports a failure has
  had no effect; a commit whose acknowledgement is lost is not modelled. A database call is one step there, so is the health endpoint
  with its three checks, and drawing an account's identifier belongs to the step that saves it. The
  deadline of a context is not modelled: a call that fails for it is a failure of the database.
\<close>

end
